(* ===== verification/Prelude.thy ===== *)
theory Prelude
  imports Complex_Main "HOL-Library.Char_ord" "HOL-Library.List_Lexorder"
    "HOL-Library.Code_Target_Nat"
begin

text \<open>
  The shared vocabulary of the development: the part of the JavaScript standard library the
  sources use on text and numbers, a datatype for untrusted values (what the sources call
  \<open>unknown\<close>), and the generic lemmas on lists the components share.

  Text is a \<open>string\<close> of bytes: a JavaScript string is represented by its UTF-8 encoding, so
  the two non-ASCII characters the sources print (the robot of the audit comments and the
  em dash) are byte sequences. The white space of \<open>trim\<close> and of \<open>\s\<close> is the ASCII one.
  Numbers are exact: a JavaScript \<open>number\<close> is one of the three non-finite values or a
  rational; the rounding of IEEE doubles is not represented, and byte counts, clock readings
  in milliseconds and comment ids, all integers below \<open>2 ^ 53\<close>, are \<open>int\<close>.
\<close>

named_theorems text_simps \<open>unfolding rules of the text operations\<close>
named_theorems show_simps \<open>facts on printed and parsed numbers\<close>

section \<open>Text\<close>

definition is_ws :: "char \<Rightarrow> bool" where
  "is_ws c \<longleftrightarrow> c \<in> {CHR '' '', CHR 0x09, CHR 0x0A, CHR 0x0B, CHR 0x0C, CHR 0x0D}"

text \<open>\<open>String.prototype.trim\<close> and the trailing half of it.\<close>

definition trim_end :: "string \<Rightarrow> string" where
  "trim_end s = rev (dropWhile is_ws (rev s))"

definition trim :: "string \<Rightarrow> string" where
  "trim s = trim_end (dropWhile is_ws s)"

definition lower_char :: "char \<Rightarrow> char" where
  "lower_char c =
     (let n = (of_char c :: nat) in if 65 \<le> n \<and> n \<le> 90 then char_of (n + 32) else c)"

definition to_lower :: "string \<Rightarrow> string" where
  "to_lower s = map lower_char s"

text \<open>\<open>String.prototype.startsWith\<close>.\<close>

definition starts_with :: "string \<Rightarrow> string \<Rightarrow> bool" where
  "starts_with p s \<longleftrightarrow> take (length p) s = p"

text \<open>\<open>String.prototype.includes\<close>.\<close>

fun text_includes :: "string \<Rightarrow> string \<Rightarrow> bool" where
  "text_includes p [] \<longleftrightarrow> p = []"
| "text_includes p (c # cs) \<longleftrightarrow> starts_with p (c # cs) \<or> text_includes p cs"

text \<open>\<open>String.prototype.split\<close> on one character.\<close>

fun split_on :: "char \<Rightarrow> string \<Rightarrow> string list" where
  "split_on c [] = [[]]"
| "split_on c (x # xs) =
     (if x = c then [] # split_on c xs
      else (case split_on c xs of [] \<Rightarrow> [[x]] | w # ws \<Rightarrow> (x # w) # ws))"

text \<open>\<open>Array.prototype.join\<close>.\<close>

fun join :: "string \<Rightarrow> string list \<Rightarrow> string" where
  "join sep [] = []"
| "join sep [x] = x"
| "join sep (x # y # xs) = x @ sep @ join sep (y # xs)"

text \<open>Characters that have no ASCII spelling: the robot and the em dash, in UTF-8.\<close>

definition robot :: string where
  "robot = [CHR 0xF0, CHR 0x9F, CHR 0xA4, CHR 0x96]"

definition em_dash :: string where
  "em_dash = [CHR 0xE2, CHR 0x80, CHR 0x94]"

definition newline :: string where
  "newline = [CHR 0x0A]"

text \<open>A word between back quotes, as the audit comments print identities.\<close>

definition ticked :: "string \<Rightarrow> string" where
  "ticked s = [CHR 0x60] @ s @ [CHR 0x60]"

section \<open>Printed numbers\<close>

definition is_digit :: "char \<Rightarrow> bool" where
  "is_digit c \<longleftrightarrow> (48::nat) \<le> of_char c \<and> (of_char c :: nat) \<le> 57"

definition digit_char :: "nat \<Rightarrow> char" where
  "digit_char d = char_of (48 + d)"

definition digit_val :: "char \<Rightarrow> nat" where
  "digit_val c = of_char c - 48"

fun show_nat :: "nat \<Rightarrow> string" where
  "show_nat n =
     (if n < 10 then [digit_char n] else show_nat (n div 10) @ [digit_char (n mod 10)])"

declare show_nat.simps [simp del]

text \<open>\<open>String(n)\<close> and a template literal on an integer.\<close>

definition show_int :: "int \<Rightarrow> string" where
  "show_int i = (if i < 0 then ''-'' @ show_nat (nat (- i)) else show_nat (nat i))"

definition nat_of_digits :: "string \<Rightarrow> nat" where
  "nat_of_digits s = foldl (\<lambda>n c. 10 * n + digit_val c) 0 s"

text \<open>\<open>JSON.stringify\<close> on a string.\<close>

definition hex_char :: "nat \<Rightarrow> char" where
  "hex_char d = (if d < 10 then char_of (48 + d) else char_of (87 + d))"

definition json_char :: "char \<Rightarrow> string" where
  "json_char c =
     (let n = (of_char c :: nat) in
      if n = 34 then [CHR 0x5C, CHR 0x22]
      else if n = 92 then [CHR 0x5C, CHR 0x5C]
      else if n = 8 then [CHR 0x5C, CHR ''b'']
      else if n = 9 then [CHR 0x5C, CHR ''t'']
      else if n = 10 then [CHR 0x5C, CHR ''n'']
      else if n = 12 then [CHR 0x5C, CHR ''f'']
      else if n = 13 then [CHR 0x5C, CHR ''r'']
      else if n < 32 then [CHR 0x5C] @ ''u00'' @ [hex_char (n div 16), hex_char (n mod 16)]
      else [c])"

definition json_quote :: "string \<Rightarrow> string" where
  "json_quote s = [CHR 0x22] @ concat (map json_char s) @ [CHR 0x22]"

section \<open>Numbers\<close>

datatype jsnum = Num rat | NaN | PosInf | NegInf

definition isFinite :: "jsnum \<Rightarrow> bool" where
  "isFinite x \<longleftrightarrow> (case x of Num _ \<Rightarrow> True | _ \<Rightarrow> False)"

definition isInteger :: "jsnum \<Rightarrow> bool" where
  "isInteger x \<longleftrightarrow> (case x of Num r \<Rightarrow> of_int \<lfloor>r\<rfloor> = r | _ \<Rightarrow> False)"

definition isSafeInteger :: "jsnum \<Rightarrow> bool" where
  "isSafeInteger x \<longleftrightarrow> isInteger x \<and> (case x of Num r \<Rightarrow> \<bar>r\<bar> < 2 ^ 53 | _ \<Rightarrow> False)"

text \<open>\<open>Math.trunc\<close> of a finite number; nothing for a non-finite one.\<close>

definition trunc_finite :: "jsnum \<Rightarrow> int option" where
  "trunc_finite x = (case x of Num r \<Rightarrow> Some (if r < 0 then - \<lfloor>- r\<rfloor> else \<lfloor>r\<rfloor>) | _ \<Rightarrow> None)"

text \<open>The value of a number already known to be an integer.\<close>

definition int_of_num :: "jsnum \<Rightarrow> int" where
  "int_of_num x = (case x of Num r \<Rightarrow> \<lfloor>r\<rfloor> | _ \<Rightarrow> 0)"

abbreviation IntNum :: "int \<Rightarrow> jsnum" where
  "IntNum i \<equiv> Num (of_int i)"

text \<open>\<open>Math.round\<close> of the quotient of two integers: the floor of the value plus a half.\<close>

definition round_ratio :: "int \<Rightarrow> int \<Rightarrow> int" where
  "round_ratio n d = (2 * n + d) div (2 * d)"

text \<open>
  \<open>Number(text)\<close>: the empty text is 0; otherwise an optional sign and a decimal literal with
  an optional fraction and exponent, \<open>Infinity\<close>, or an unsigned hexadecimal, octal or binary
  literal; anything else is \<open>NaN\<close>.
\<close>

definition hex_val :: "char \<Rightarrow> nat option" where
  "hex_val c =
     (let n = (of_char c :: nat) in
      if 48 \<le> n \<and> n \<le> 57 then Some (n - 48)
      else if 97 \<le> n \<and> n \<le> 102 then Some (n - 87)
      else if 65 \<le> n \<and> n \<le> 70 then Some (n - 55)
      else None)"

fun radix_val :: "nat \<Rightarrow> nat \<Rightarrow> string \<Rightarrow> nat option" where
  "radix_val b acc [] = Some acc"
| "radix_val b acc (c # cs) =
     (case hex_val c of
        None \<Rightarrow> None
      | Some d \<Rightarrow> if d < b then radix_val b (b * acc + d) cs else None)"

definition radix_literal :: "nat \<Rightarrow> string \<Rightarrow> jsnum" where
  "radix_literal b s =
     (if s = [] then NaN
      else (case radix_val b 0 s of None \<Rightarrow> NaN | Some n \<Rightarrow> Num (of_nat n)))"

definition scale10 :: "rat \<Rightarrow> bool \<Rightarrow> nat \<Rightarrow> rat" where
  "scale10 r neg e = (if neg then r / 10 ^ e else r * 10 ^ e)"

definition exponent_part :: "rat \<Rightarrow> string \<Rightarrow> jsnum" where
  "exponent_part r s =
     (case s of
        [] \<Rightarrow> Num r
      | c # t \<Rightarrow>
          if c \<noteq> CHR ''e'' \<and> c \<noteq> CHR ''E'' then NaN
          else (let neg = (t \<noteq> [] \<and> hd t = CHR ''-'');
                    ds = (if t \<noteq> [] \<and> (hd t = CHR ''-'' \<or> hd t = CHR ''+'') then tl t else t)
                in if ds = [] \<or> \<not> list_all is_digit ds then NaN
                   else Num (scale10 r neg (nat_of_digits ds))))"

definition decimal_literal :: "string \<Rightarrow> jsnum" where
  "decimal_literal s =
     (let ip = takeWhile is_digit s; r = dropWhile is_digit s in
      if r \<noteq> [] \<and> hd r = CHR ''.'' then
        (let fp = takeWhile is_digit (tl r) in
         if ip = [] \<and> fp = [] then NaN
         else exponent_part (of_nat (nat_of_digits (ip @ fp)) / 10 ^ length fp)
                (dropWhile is_digit (tl r)))
      else if ip = [] then NaN
      else exponent_part (of_nat (nat_of_digits ip)) r)"

definition signed_literal :: "string \<Rightarrow> jsnum" where
  "signed_literal s =
     (if s = ''Infinity'' then PosInf else decimal_literal s)"

definition negate :: "jsnum \<Rightarrow> jsnum" where
  "negate x = (case x of Num r \<Rightarrow> Num (- r) | NaN \<Rightarrow> NaN | PosInf \<Rightarrow> NegInf | NegInf \<Rightarrow> PosInf)"

definition Number :: "string \<Rightarrow> jsnum" where
  "Number text =
     (let s = trim text in
      if s = [] then Num 0
      else if starts_with ''0x'' s \<or> starts_with ''0X'' s then radix_literal 16 (drop 2 s)
      else if starts_with ''0o'' s \<or> starts_with ''0O'' s then radix_literal 8 (drop 2 s)
      else if starts_with ''0b'' s \<or> starts_with ''0B'' s then radix_literal 2 (drop 2 s)
      else if hd s = CHR ''+'' then signed_literal (tl s)
      else if hd s = CHR ''-'' then negate (signed_literal (tl s))
      else signed_literal s)"

section \<open>Untrusted values\<close>

text \<open>
  A value that arrives over the wire or from disk. An object is the list of its own
  properties in insertion order.
\<close>

datatype jsval =
    JUndefined
  | JNull
  | JBool bool
  | JNum jsnum
  | JStr string
  | JArr "jsval list"
  | JObj "(string \<times> jsval) list"

fun is_record :: "jsval \<Rightarrow> bool" where
  "is_record (JObj _) = True"
| "is_record _ = False"

fun fields :: "jsval \<Rightarrow> (string \<times> jsval) list" where
  "fields (JObj fs) = fs"
| "fields _ = []"

text \<open>A property read: \<open>undefined\<close> when the object has no such property.\<close>

definition get_prop :: "jsval \<Rightarrow> string \<Rightarrow> jsval" where
  "get_prop v k = (case map_of (fields v) k of None \<Rightarrow> JUndefined | Some x \<Rightarrow> x)"

definition nullish :: "jsval \<Rightarrow> bool" where
  "nullish v \<longleftrightarrow> v = JUndefined \<or> v = JNull"

fun is_str :: "jsval \<Rightarrow> bool" where
  "is_str (JStr _) = True"
| "is_str _ = False"

fun is_num :: "jsval \<Rightarrow> bool" where
  "is_num (JNum _) = True"
| "is_num _ = False"

fun is_bool :: "jsval \<Rightarrow> bool" where
  "is_bool (JBool _) = True"
| "is_bool _ = False"

fun is_arr :: "jsval \<Rightarrow> bool" where
  "is_arr (JArr _) = True"
| "is_arr _ = False"

definition is_nonempty_str :: "jsval \<Rightarrow> bool" where
  "is_nonempty_str v \<longleftrightarrow> (case v of JStr s \<Rightarrow> s \<noteq> [] | _ \<Rightarrow> False)"

text \<open>\<open>Number.isInteger\<close> on an untrusted value: false on everything but a number.\<close>

definition is_integer_val :: "jsval \<Rightarrow> bool" where
  "is_integer_val v \<longleftrightarrow> (case v of JNum x \<Rightarrow> isInteger x | _ \<Rightarrow> False)"

definition num_of :: "jsval \<Rightarrow> jsnum" where
  "num_of v = (case v of JNum x \<Rightarrow> x | _ \<Rightarrow> NaN)"

definition str_of :: "jsval \<Rightarrow> string" where
  "str_of v = (case v of JStr s \<Rightarrow> s | _ \<Rightarrow> [])"

text \<open>An optional property of an object literal: absent, or present with its value.\<close>

definition opt_field :: "string \<Rightarrow> ('a \<Rightarrow> jsval) \<Rightarrow> 'a option \<Rightarrow> (string \<times> jsval) list" where
  "opt_field k f x = (case x of None \<Rightarrow> [] | Some v \<Rightarrow> [(k, f v)])"

section \<open>Objects with string keys\<close>

text \<open>
  The entries of an object in the order they enumerate: an assignment to an existing key keeps
  its place, and a new key goes last.
\<close>

fun obj_set :: "(string \<times> 'a) list \<Rightarrow> string \<Rightarrow> 'a \<Rightarrow> (string \<times> 'a) list" where
  "obj_set [] k v = [(k, v)]"
| "obj_set ((k', v') # m) k v = (if k' = k then (k, v) # m else (k', v') # obj_set m k v)"

text \<open>
  The order of every object: keys that read as array indices come first, ascending, and the
  others in insertion order. \<open>obj_set\<close> is the case of keys that are no index.
\<close>

definition is_index :: "string \<Rightarrow> bool" where
  "is_index k \<longleftrightarrow>
     list_all is_digit k \<and> k = show_nat (nat_of_digits k) \<and> nat_of_digits k < 2 ^ 32 - 1"

fun insert_key :: "(string \<times> 'a) list \<Rightarrow> string \<Rightarrow> 'a \<Rightarrow> (string \<times> 'a) list" where
  "insert_key [] k v = [(k, v)]"
| "insert_key ((k', v') # m) k v =
     (if is_index k \<and> (is_index k' \<longrightarrow> nat_of_digits k < nat_of_digits k')
      then (k, v) # (k', v') # m else (k', v') # insert_key m k v)"

definition js_put :: "(string \<times> 'a) list \<Rightarrow> string \<Rightarrow> 'a \<Rightarrow> (string \<times> 'a) list" where
  "js_put m k v = (if k \<in> fst ` set m then obj_set m k v else insert_key m k v)"

section \<open>Lemmas on text\<close>

lemmas ws_chars = is_ws_def

lemma trim_end_id: "s = [] \<or> \<not> is_ws (last s) \<Longrightarrow> trim_end s = s"
  by (cases s rule: rev_cases) (auto simp: trim_end_def)

lemma trim_id: "s = [] \<or> (\<not> is_ws (hd s) \<and> \<not> is_ws (last s)) \<Longrightarrow> trim s = s"
  by (cases s) (auto simp: trim_def trim_end_id)

lemma trim_Nil [simp]: "trim [] = []"
  by (simp add: trim_def trim_end_def)

lemma trim_no_ws: "list_all (\<lambda>c. \<not> is_ws c) s \<Longrightarrow> trim s = s"
  by (cases "s = []") (auto simp: list_all_iff intro!: trim_id)

lemma starts_with_append [simp]: "starts_with p (p @ s)"
  by (simp add: starts_with_def)

lemma starts_with_Nil [simp]: "starts_with [] s"
  by (simp add: starts_with_def)

lemma starts_with_iff: "starts_with p s \<longleftrightarrow> (\<exists>t. s = p @ t)"
  unfolding starts_with_def by (metis append_eq_conv_conj)

lemma drop_starts_with: "starts_with p s \<Longrightarrow> p @ drop (length p) s = s"
  unfolding starts_with_def by (metis append_take_drop_id)

lemma split_on_nonempty [simp]: "split_on c s \<noteq> []"
  by (induction s) (auto split: list.splits)

lemma split_on_none: "c \<notin> set s \<Longrightarrow> split_on c s = [s]"
  by (induction s) auto

lemma split_on_append: "c \<notin> set s \<Longrightarrow> split_on c (s @ c # t) = s # split_on c t"
  by (induction s) auto

section \<open>Lemmas on printed numbers\<close>

lemma of_char_digit [simp]: "d < 10 \<Longrightarrow> of_char (digit_char d) = 48 + d"
  by (simp add: digit_char_def)

lemma is_digit_char [show_simps]: "d < 10 \<Longrightarrow> is_digit (digit_char d)"
  by (simp add: is_digit_def)

lemma digit_val_char [show_simps]: "d < 10 \<Longrightarrow> digit_val (digit_char d) = d"
  by (simp add: digit_val_def)

lemma digit_not_ws: "is_digit c \<Longrightarrow> \<not> is_ws c"
  by (auto simp: is_digit_def is_ws_def)

lemma show_nat_digits [show_simps]: "list_all is_digit (show_nat n)"
proof (induction n rule: show_nat.induct)
  case (1 n)
  then show ?case by (subst show_nat.simps) (auto simp: show_simps)
qed

lemma show_nat_nonempty [simp]: "show_nat n \<noteq> []"
  by (subst show_nat.simps) simp

lemma nat_of_digits_snoc [show_simps]: "nat_of_digits (s @ [c]) = 10 * nat_of_digits s + digit_val c"
  by (simp add: nat_of_digits_def)

lemma nat_of_digits_Nil [simp]: "nat_of_digits [] = 0"
  by (simp add: nat_of_digits_def)

text \<open>Reading back what was printed gives the number.\<close>

lemma nat_of_show_nat [show_simps]: "nat_of_digits (show_nat n) = n"
proof (induction n rule: show_nat.induct)
  case (1 n)
  show ?case
  proof (cases "n < 10")
    case True
    then show ?thesis
      by (subst show_nat.simps) (simp add: nat_of_digits_def digit_val_char)
  next
    case False
    with 1 show ?thesis
      by (subst show_nat.simps) (simp add: show_simps)
  qed
qed

lemma show_nat_inj: "show_nat m = show_nat n \<longleftrightarrow> m = n"
  by (metis nat_of_show_nat)

lemma show_nat_set: "c \<in> set (show_nat n) \<Longrightarrow> is_digit c"
  using show_nat_digits by (auto simp: list_all_iff)

lemma takeWhile_show_nat: "takeWhile is_digit (show_nat n) = show_nat n"
  by (simp add: takeWhile_eq_all_conv show_nat_set)

lemma dropWhile_show_nat: "dropWhile is_digit (show_nat n) = []"
  by (simp add: dropWhile_eq_Nil_conv show_nat_set)

lemma show_nat_no_ws: "list_all (\<lambda>c. \<not> is_ws c) (show_nat n)"
  by (auto simp: list_all_iff dest: show_nat_set digit_not_ws)

lemma show_int_nonneg: "0 \<le> i \<Longrightarrow> show_int i = show_nat (nat i)"
  by (simp add: show_int_def)

lemma show_int_nonempty [simp]: "show_int i \<noteq> []"
  by (simp add: show_int_def)

lemma show_int_of_nat [simp]: "show_int (int n) = show_nat n"
  by (simp add: show_int_def)

lemma show_int_no_ws: "c \<in> set (show_int i) \<Longrightarrow> \<not> is_ws c"
  by (auto simp: show_int_def is_ws_def dest: show_nat_set split: if_splits)
     (auto simp: is_digit_def dest!: show_nat_set)

lemma minus_not_digit: "\<not> is_digit (CHR ''-'')"
  by code_simp

lemma show_int_inj: "show_int a = show_int b \<longleftrightarrow> a = b"
proof
  assume *: "show_int a = show_int b"
  have minus: "CHR ''-'' # t \<noteq> show_nat n" for t n
    using show_nat_set[of "CHR ''-''" n] minus_not_digit by (metis list.set_intros(1))
  then have minus': "show_nat n \<noteq> CHR ''-'' # t" for t n by metis
  show "a = b"
    using * minus minus' by (auto simp: show_int_def show_nat_inj split: if_splits)
qed simp

section \<open>Lemmas on numbers\<close>

lemma isInteger_Int [simp]: "isInteger (IntNum i)"
  by (simp add: isInteger_def)

lemma isFinite_Num [simp]: "isFinite (Num r)"
  by (simp add: isFinite_def)

lemma int_of_num_Int [simp]: "int_of_num (IntNum i) = i"
  by (simp add: int_of_num_def)

lemma int_of_num_numeral [simp]: "int_of_num (Num (numeral n)) = numeral n"
  by (simp add: int_of_num_def)

lemma round_ratio_1 [simp]: "round_ratio n 1 = n"
  by (simp add: round_ratio_def)

lemma round_ratio_nonneg: "0 \<le> n \<Longrightarrow> 0 < d \<Longrightarrow> 0 \<le> round_ratio n d"
  by (simp add: round_ratio_def pos_imp_zdiv_nonneg_iff)

section \<open>Lemmas on untrusted values\<close>

lemma get_prop_JObj: "get_prop (JObj fs) k = (case map_of fs k of None \<Rightarrow> JUndefined | Some x \<Rightarrow> x)"
  by (simp add: get_prop_def)

lemma get_prop_hit [simp]: "get_prop (JObj ((k, v) # fs)) k = v"
  by (simp add: get_prop_def)

lemma get_prop_miss [simp]: "k \<noteq> k' \<Longrightarrow> get_prop (JObj ((k, v) # fs)) k' = get_prop (JObj fs) k'"
  by (simp add: get_prop_def)

lemma get_prop_empty [simp]: "get_prop (JObj []) k = JUndefined"
  by (simp add: get_prop_def)

lemma get_prop_opt [simp]: "k \<noteq> k' \<Longrightarrow> get_prop (JObj (opt_field k f x @ fs)) k' = get_prop (JObj fs) k'"
  by (cases x) (simp_all add: opt_field_def)

lemma is_nonempty_str_JStr [simp]: "is_nonempty_str (JStr s) \<longleftrightarrow> s \<noteq> []"
  by (simp add: is_nonempty_str_def)

lemma is_integer_val_JNum [simp]: "is_integer_val (JNum x) \<longleftrightarrow> isInteger x"
  by (simp add: is_integer_val_def)

section \<open>Lemmas on objects\<close>

lemma map_of_obj_set [simp]: "map_of (obj_set m k v) = (map_of m)(k \<mapsto> v)"
  by (induction m k v rule: obj_set.induct) (auto simp: fun_eq_iff)

lemma keys_obj_set: "set (map fst (obj_set m k v)) = insert k (set (map fst m))"
  by (induction m k v rule: obj_set.induct) auto

lemma distinct_obj_set: "distinct (map fst m) \<Longrightarrow> distinct (map fst (obj_set m k v))"
proof (induction m k v rule: obj_set.induct)
  case (2 k' v' m k v)
  then show ?case using keys_obj_set[of m k v] by auto
qed simp

lemma obj_set_fresh: "k \<notin> fst ` set m \<Longrightarrow> obj_set m k v = m @ [(k, v)]"
  by (induction m k v rule: obj_set.induct) auto

lemma map_of_js_put [simp]: "map_of (js_put m k v) = (map_of m)(k \<mapsto> v)"
proof -
  have "k \<notin> fst ` set m \<Longrightarrow> map_of (insert_key m k v) = (map_of m)(k \<mapsto> v)"
    by (induction m k v rule: insert_key.induct) (auto simp: fun_eq_iff)
  then show ?thesis by (simp add: js_put_def)
qed

lemma set_insert_key: "set (insert_key m k v) = insert (k, v) (set m)"
  by (induction m k v rule: insert_key.induct) auto

lemma distinct_js_put: "distinct (map fst m) \<Longrightarrow> distinct (map fst (js_put m k v))"
proof -
  assume d: "distinct (map fst m)"
  have "k \<notin> fst ` set m \<Longrightarrow> distinct (map fst (insert_key m k v))"
    using d by (induction m k v rule: insert_key.induct) (auto simp: set_insert_key)
  then show ?thesis using distinct_obj_set[OF d] by (simp add: js_put_def)
qed

text \<open>A list of entries that is in the order an object has.\<close>

definition key_before :: "string \<Rightarrow> string \<Rightarrow> bool" where
  "key_before a b \<longleftrightarrow> (is_index b \<longrightarrow> is_index a \<and> nat_of_digits a < nat_of_digits b)"

definition enumerated :: "(string \<times> 'a) list \<Rightarrow> bool" where
  "enumerated m \<longleftrightarrow> distinct (map fst m) \<and> sorted_wrt key_before (map fst m)"

lemma enumerated_Nil [simp]: "enumerated []"
  by (simp add: enumerated_def)

lemma map_fst_obj_set: "k \<in> fst ` set m \<Longrightarrow> map fst (obj_set m k v) = map fst m"
  by (induction m k v rule: obj_set.induct) auto

lemma insert_key_last:
  "\<forall>k' \<in> fst ` set m. key_before k' k \<Longrightarrow> insert_key m k v = m @ [(k, v)]"
  by (induction m k v rule: insert_key.induct) (auto simp: key_before_def)

lemma sorted_insert_key:
  "sorted_wrt key_before (map fst m) \<Longrightarrow> k \<notin> fst ` set m \<Longrightarrow> sorted_wrt key_before (map fst (insert_key m k v))"
proof (induction m k v rule: insert_key.induct)
  case (2 k' v' m k v)
  have "key_before k' k" if "\<not> (is_index k \<and> (is_index k' \<longrightarrow> nat_of_digits k < nat_of_digits k'))" "k \<noteq> k'"
    using that by (auto simp: key_before_def is_index_def) (metis linorder_neqE_nat)
  moreover have "key_before k k'" if "is_index k" "is_index k' \<longrightarrow> nat_of_digits k < nat_of_digits k'"
    using that by (auto simp: key_before_def)
  moreover have "key_before k j" if "is_index k" "is_index k' \<longrightarrow> nat_of_digits k < nat_of_digits k'" "key_before k' j" for j
    using that by (auto simp: key_before_def)
  ultimately show ?case using 2 by (auto simp: set_insert_key)
qed simp

lemma enumerated_js_put: "enumerated m \<Longrightarrow> enumerated (js_put m k v)"
  by (auto simp: enumerated_def distinct_js_put) (auto simp: js_put_def map_fst_obj_set sorted_insert_key)

lemma js_put_last: "enumerated (m @ [(k, v)]) \<Longrightarrow> js_put m k v = m @ [(k, v)]"
  by (auto simp: enumerated_def js_put_def sorted_wrt_append intro!: insert_key_last)

lemma js_puts_enumerated: "enumerated m \<Longrightarrow> foldl (\<lambda>m (k, v). js_put m k v) [] m = m"
proof (induction m rule: rev_induct)
  case (snoc e m)
  have "enumerated m" using snoc.prems by (simp add: enumerated_def sorted_wrt_append)
  then show ?case using snoc.IH js_put_last[of m "fst e" "snd e"] snoc.prems by (cases e) simp
qed simp

section \<open>Lemmas on lists\<close>

lemma sum_list_filter_le:
  "(\<And>x. x \<in> set xs \<Longrightarrow> (0::int) \<le> f x) \<Longrightarrow> sum_list (map f (filter P xs)) \<le> sum_list (map f xs)"
  by (induction xs) (auto simp: add_increasing)

lemma set_map_filter: "set (List.map_filter f xs) = {y. \<exists>x \<in> set xs. f x = Some y}"
  by (force simp: List.map_filter_def)

lemma filter_singleton_distinct:
  "distinct xs \<Longrightarrow> x \<in> set xs \<Longrightarrow> filter (\<lambda>y. y = x) xs = [x]"
  by (induction xs) (auto simp: filter_empty_conv)

section \<open>Invariants of step relations\<close>

text \<open>
  What every state machine of the development relies on: a set of initial states, a step
  relation and a predicate that holds initially and that every step keeps.
\<close>

locale stepwise_invariant =
  fixes initial :: "'s \<Rightarrow> bool"
    and step :: "'s \<Rightarrow> 's \<Rightarrow> bool"
    and inv :: "'s \<Rightarrow> bool"
  assumes initial_inv: "initial s \<Longrightarrow> inv s"
    and step_inv: "inv s \<Longrightarrow> step s t \<Longrightarrow> inv t"
begin

lemma run_inv: "step\<^sup>*\<^sup>* s t \<Longrightarrow> inv s \<Longrightarrow> inv t"
  by (induction rule: rtranclp_induct) (auto intro: step_inv)

lemma reachable_inv: "initial s \<Longrightarrow> step\<^sup>*\<^sup>* s t \<Longrightarrow> inv t"
  by (blast intro: run_inv initial_inv)

end

end
