(* ===== verification/Budget.thy ===== *)
theory Budget
  imports Prelude "HOL-Library.Multiset"
begin

text \<open>
  The budget accounting of the host daemon (\<open>apps/redskilled/src/budget-accounting.ts\<close>): the
  parser of systemd memory values, the resolver of the budget a Worker really runs under and
  the totals over the live Worker set. The records of a Worker's budget and of a live Worker
  are those of \<open>worker-placement.ts\<close> and \<open>host-state.ts\<close>; of the Worker view only the fields
  the accounting and the admission read are represented, the others are carried unread.
\<close>

section \<open>Data\<close>

record RedskilledWorkerBudget =
  memory_high :: "string option"
  memory_max :: "string option"
  cpu_weight :: "int option"
  max_processes :: "int option"
  cpu_seconds :: "int option"

record RedskilledWorkerView =
  worker_id :: string
  project_label :: string
  isolated :: bool
  unit_name :: "string option"
  budget :: "RedskilledWorkerBudget option"
  applied_budget :: "RedskilledWorkerBudget option"
  memory_ceiling :: "string option"
  memory_ceiling_reason :: "string option"

record RedskilledBudgetAccounting =
  ba_version :: int
  ba_worker_count :: int
  memory_high_bytes :: int
  memory_max_bytes :: int
  cpu_weight_total :: int
  unaccounted_workers :: "string list"
  unisolated_workers :: "string list"
  memory_ceiling_bytes :: "int option"
  over_committed_bytes :: int
  over_commitment_reason :: "string option"

definition no_budget :: RedskilledWorkerBudget where
  "no_budget = \<lparr>memory_high = None, memory_max = None, cpu_weight = None,
                max_processes = None, cpu_seconds = None\<rparr>"

definition EMPTY_BUDGET_ACCOUNTING :: RedskilledBudgetAccounting where
  "EMPTY_BUDGET_ACCOUNTING =
     \<lparr>ba_version = 1, ba_worker_count = 0, memory_high_bytes = 0, memory_max_bytes = 0,
      cpu_weight_total = 0, unaccounted_workers = [], unisolated_workers = [],
      memory_ceiling_bytes = None, over_committed_bytes = 0, over_commitment_reason = None\<rparr>"

section \<open>The memory parser\<close>

text \<open>
  The greedy match of \<open>(\d+(?:\.\d+)?)\<close> at the head of a text: the digits read as one natural
  number, the power of ten they are to be divided by, and the rest. Both expressions that use
  it continue with characters no digit or point can stand for, so the greedy match is the
  only one that can succeed.
\<close>

definition scan_decimal :: "string \<Rightarrow> (nat \<times> nat \<times> string) option" where
  "scan_decimal s =
     (let ip = takeWhile is_digit s; r = dropWhile is_digit s in
      if ip = [] then None
      else (case r of
              c # t \<Rightarrow>
                (let fp = takeWhile is_digit t in
                 if c = CHR ''.'' \<and> fp \<noteq> []
                 then Some (nat_of_digits (ip @ fp), 10 ^ length fp, dropWhile is_digit t)
                 else Some (nat_of_digits ip, 1, r))
            | [] \<Rightarrow> Some (nat_of_digits ip, 1, [])))"

definition unit_scale :: "char \<Rightarrow> nat option" where
  "unit_scale c =
     (let l = lower_char c in
      if l = CHR ''k'' then Some 1024
      else if l = CHR ''m'' then Some (1024 ^ 2)
      else if l = CHR ''g'' then Some (1024 ^ 3)
      else if l = CHR ''t'' then Some (1024 ^ 4)
      else None)"

definition scan_unit :: "string \<Rightarrow> nat \<times> string" where
  "scan_unit s =
     (case s of
        [] \<Rightarrow> (1, [])
      | c # t \<Rightarrow> (case unit_scale c of None \<Rightarrow> (1, s) | Some k \<Rightarrow> (k, t)))"

definition skip_B :: "string \<Rightarrow> string" where
  "skip_B s = (case s of [] \<Rightarrow> [] | c # t \<Rightarrow> if lower_char c = CHR ''b'' then t else s)"

definition parseMemoryBudget :: "string \<Rightarrow> int option" where
  "parseMemoryBudget v =
     (case scan_decimal (dropWhile is_ws v) of
        None \<Rightarrow> None
      | Some (n, d, r) \<Rightarrow>
          (let (k, r1) = scan_unit (dropWhile is_ws r) in
           if list_all is_ws (skip_B r1) then Some (round_ratio (int (n * k)) (int d))
           else None))"

section \<open>The accounting\<close>

definition appliedWorkerBudget :: "RedskilledWorkerView \<Rightarrow> RedskilledWorkerBudget" where
  "appliedWorkerBudget w =
     (case applied_budget w of
        Some b \<Rightarrow> b
      | None \<Rightarrow>
          (let declared = (case budget w of Some b \<Rightarrow> b | None \<Rightarrow> no_budget) in
           if memory_max declared = None \<and> memory_high declared = None \<and> memory_ceiling w \<noteq> None
           then declared\<lparr>memory_max := memory_ceiling w\<rparr>
           else declared))"

definition overCommitmentReason :: "int \<Rightarrow> int \<Rightarrow> int \<Rightarrow> int \<Rightarrow> string" where
  "overCommitmentReason workers memoryMax hostCeiling over =
     ''this host's '' @ show_int workers @ '' Worker(s) carry '' @ show_int memoryMax @
     '' bytes of applied MemoryMax against a host ceiling of '' @
     show_int hostCeiling @ '' bytes '' @ em_dash @ '' '' @ show_int over @
     '' bytes over. A per-Worker MemoryMax is a wall rather than a reservation, so the host '' @
     ''stays safe only while the Workers do not all peak together; the ceiling is not enforced host-wide.''"

text \<open>The running totals of the loop over the Worker set.\<close>

record totals =
  t_high :: int
  t_max :: int
  t_cpu :: int
  t_unaccounted :: "string list"
  t_unisolated :: "string list"

definition opaque_value :: "string option \<Rightarrow> bool" where
  "opaque_value v \<longleftrightarrow> (case v of None \<Rightarrow> False | Some s \<Rightarrow> parseMemoryBudget s = None)"

definition value_bytes :: "string option \<Rightarrow> int" where
  "value_bytes v =
     (case v of
        None \<Rightarrow> 0
      | Some s \<Rightarrow> (case parseMemoryBudget s of None \<Rightarrow> 0 | Some b \<Rightarrow> b))"

definition account_step :: "totals \<Rightarrow> RedskilledWorkerView \<Rightarrow> totals" where
  "account_step t w =
     (let b = appliedWorkerBudget w;
          opaque = (opaque_value (memory_high b) \<or> opaque_value (memory_max b))
      in \<lparr>t_high = t_high t + value_bytes (memory_high b),
          t_max = t_max t + value_bytes (memory_max b),
          t_cpu = t_cpu t + (case cpu_weight b of None \<Rightarrow> 0 | Some c \<Rightarrow> c),
          t_unaccounted = (if opaque then t_unaccounted t @ [worker_id w] else t_unaccounted t),
          t_unisolated = (if \<not> isolated w then t_unisolated t @ [worker_id w] else t_unisolated t)\<rparr>)"

definition buildBudgetAccounting ::
  "RedskilledWorkerView list \<Rightarrow> int option \<Rightarrow> RedskilledBudgetAccounting" where
  "buildBudgetAccounting workers hostCeilingBytes =
     (let t = foldl account_step
                \<lparr>t_high = 0, t_max = 0, t_cpu = 0, t_unaccounted = [], t_unisolated = []\<rparr> workers;
          over = (case hostCeilingBytes of None \<Rightarrow> 0 | Some c \<Rightarrow> max 0 (t_max t - c))
      in \<lparr>ba_version = 1,
          ba_worker_count = int (length workers),
          memory_high_bytes = t_high t,
          memory_max_bytes = t_max t,
          cpu_weight_total = t_cpu t,
          unaccounted_workers = sort (t_unaccounted t),
          unisolated_workers = sort (t_unisolated t),
          memory_ceiling_bytes = hostCeilingBytes,
          over_committed_bytes = over,
          over_commitment_reason =
            (case hostCeilingBytes of
               None \<Rightarrow> None
             | Some c \<Rightarrow>
                 if over = 0 then None
                 else Some (overCommitmentReason (int (length workers)) (t_max t) c over))\<rparr>)"

text \<open>A client's check that an untrusted value is a complete accounting document.\<close>

definition isRedskilledBudgetAccounting :: "jsval \<Rightarrow> bool" where
  "isRedskilledBudgetAccounting v \<longleftrightarrow>
     is_record v \<and>
     get_prop v ''version'' = JNum (Num 1) \<and>
     is_integer_val (get_prop v ''worker_count'') \<and>
     is_num (get_prop v ''memory_high_bytes'') \<and>
     is_num (get_prop v ''memory_max_bytes'') \<and>
     is_num (get_prop v ''cpu_weight_total'') \<and>
     is_arr (get_prop v ''unaccounted_workers'') \<and>
     is_arr (get_prop v ''unisolated_workers'')"

section \<open>Lemmas on the parser\<close>

lemma scan_decimal_show_nat:
  "(\<And>c t. r = c # t \<Longrightarrow> \<not> is_digit c \<and> c \<noteq> CHR ''.'') \<Longrightarrow>
   scan_decimal (show_nat n @ r) = Some (n, 1, r)"
proof -
  assume r: "\<And>c t. r = c # t \<Longrightarrow> \<not> is_digit c \<and> c \<noteq> CHR ''.''"
  have tw: "takeWhile is_digit (show_nat n @ r) = show_nat n"
    using r by (cases r) (simp_all add: takeWhile_append takeWhile_show_nat show_nat_set)
  have dw: "dropWhile is_digit (show_nat n @ r) = r"
    using r by (cases r) (simp_all add: dropWhile_append show_nat_set)
  show ?thesis
    unfolding scan_decimal_def Let_def tw dw
    using r by (cases r) (simp_all add: nat_of_show_nat)
qed

lemma dropWhile_ws_show_nat [simp]: "dropWhile is_ws (show_nat n @ r) = show_nat n @ r"
proof -
  obtain c cs where s: "show_nat n = c # cs"
    using show_nat_nonempty by (meson neq_Nil_conv)
  then have "\<not> is_ws c" using show_nat_no_ws[of n] by simp
  with s show ?thesis by simp
qed

lemma scan_decimal_pos: "scan_decimal s = Some (n, d, r) \<Longrightarrow> 0 < d"
  by (auto simp: scan_decimal_def Let_def split: if_splits list.splits)

lemma parseMemoryBudget_nonneg: "parseMemoryBudget v = Some b \<Longrightarrow> 0 \<le> b"
  by (auto simp: parseMemoryBudget_def Let_def split: option.splits prod.splits if_splits
      dest!: scan_decimal_pos intro!: round_ratio_nonneg)

text \<open>A byte count printed in decimal, as the daemon prints a derived ceiling, reads back.\<close>

lemma parseMemoryBudget_show_nat: "parseMemoryBudget (show_nat n) = Some (int n)"
proof -
  have "scan_decimal (dropWhile is_ws (show_nat n)) = Some (n, 1, [])"
    using scan_decimal_show_nat[of "[]" n] dropWhile_ws_show_nat[of n "[]"] by simp
  then show ?thesis
    by (simp add: parseMemoryBudget_def scan_unit_def skip_B_def)
qed

text \<open>The unit suffixes, upper and lower case, with and without the final \<open>B\<close>.\<close>

lemma parseMemoryBudget_unit:
  assumes "unit_scale u = Some k"
  shows "parseMemoryBudget (show_nat n @ [u]) = Some (int n * int k)"
    and "parseMemoryBudget (show_nat n @ [u, CHR ''B'']) = Some (int n * int k)"
proof -
  have u: "\<not> is_digit u \<and> u \<noteq> CHR ''.'' \<and> \<not> is_ws u"
    using assms by (auto simp: unit_scale_def lower_char_def is_digit_def is_ws_def Let_def
        split: if_splits)
  have s: "scan_decimal (show_nat n @ u # t) = Some (n, 1, u # t)" for t
    using u by (intro scan_decimal_show_nat) auto
  show "parseMemoryBudget (show_nat n @ [u]) = Some (int n * int k)"
    using u assms by (simp add: parseMemoryBudget_def s scan_unit_def skip_B_def)
  have "lower_char (CHR ''B'') = CHR ''b''" by code_simp
  then show "parseMemoryBudget (show_nat n @ [u, CHR ''B'']) = Some (int n * int k)"
    using u assms by (simp add: parseMemoryBudget_def s scan_unit_def skip_B_def)
qed

section \<open>Lemmas on the accounting\<close>

lemma value_bytes_nonneg [simp]: "0 \<le> value_bytes v"
  by (auto simp: value_bytes_def split: option.splits dest: parseMemoryBudget_nonneg)

definition opaque_worker :: "RedskilledWorkerView \<Rightarrow> bool" where
  "opaque_worker w \<longleftrightarrow>
     opaque_value (memory_high (appliedWorkerBudget w)) \<or>
     opaque_value (memory_max (appliedWorkerBudget w))"

definition applied_bytes :: "(RedskilledWorkerBudget \<Rightarrow> string option) \<Rightarrow> RedskilledWorkerView list \<Rightarrow> int" where
  "applied_bytes f ws = sum_list (map (\<lambda>w. value_bytes (f (appliedWorkerBudget w))) ws)"

definition applied_cpu :: "RedskilledWorkerView list \<Rightarrow> int" where
  "applied_cpu ws =
     sum_list (map (\<lambda>w. case cpu_weight (appliedWorkerBudget w) of None \<Rightarrow> 0 | Some c \<Rightarrow> c) ws)"

text \<open>The loop computes the sums and the two name lists in Worker order.\<close>

lemma account_fold:
  "foldl account_step t ws =
     \<lparr>t_high = t_high t + applied_bytes memory_high ws,
      t_max = t_max t + applied_bytes memory_max ws,
      t_cpu = t_cpu t + applied_cpu ws,
      t_unaccounted = t_unaccounted t @ map worker_id (filter opaque_worker ws),
      t_unisolated = t_unisolated t @ map worker_id (filter (\<lambda>w. \<not> isolated w) ws)\<rparr>"
proof (induction ws arbitrary: t)
  case Nil
  then show ?case by (simp add: applied_bytes_def applied_cpu_def)
next
  case (Cons w ws)
  show ?case
    unfolding foldl.simps Cons.IH
    by (simp add: account_step_def Let_def applied_bytes_def applied_cpu_def opaque_worker_def[of w])
qed

lemma buildBudgetAccounting_fields:
  "memory_high_bytes (buildBudgetAccounting ws c) = applied_bytes memory_high ws"
  "memory_max_bytes (buildBudgetAccounting ws c) = applied_bytes memory_max ws"
  "cpu_weight_total (buildBudgetAccounting ws c) = applied_cpu ws"
  "unaccounted_workers (buildBudgetAccounting ws c) = sort (map worker_id (filter opaque_worker ws))"
  "unisolated_workers (buildBudgetAccounting ws c) = sort (map worker_id (filter (\<lambda>w. \<not> isolated w) ws))"
  by (simp_all add: buildBudgetAccounting_def account_fold Let_def)

lemma sum_list_mset_eq: "mset xs = mset ys \<Longrightarrow> sum_list (map f xs) = sum_list (map (f :: _ \<Rightarrow> int) ys)"
  by (metis mset_map sum_mset_sum_list)

lemma sort_map_filter_mset:
  "mset xs = mset ys \<Longrightarrow> sort (map f (filter P xs)) = sort (map (f :: _ \<Rightarrow> string) (filter P ys))"
  by (rule properties_for_sort) (simp_all add: mset_map mset_filter)

section \<open>Properties\<close>

text \<open>
  A byte quantity in the host's own notation reads back: a number of bytes printed in
  decimal, and the same number with any of the suffixes \<open>K\<close>, \<open>M\<close>, \<open>G\<close>, \<open>T\<close>, in either case,
  with or without a final \<open>B\<close>, is read as the number times the suffix's power of 1024.
\<close>

theorem memory_notation_roundtrip:
  assumes "unit_scale u = Some k"
  shows "parseMemoryBudget (show_nat n) = Some (int n) \<and>
         parseMemoryBudget (show_nat n @ [u]) = Some (int n * int k) \<and>
         parseMemoryBudget (show_nat n @ [u, CHR ''B'']) = Some (int n * int k)"
  using parseMemoryBudget_show_nat[of n] parseMemoryBudget_unit[OF assms, of n] by simp

theorem memory_notation_roundtrip_witness:
  "unit_scale (CHR ''g'') = Some (1024 ^ 3) \<and>
   parseMemoryBudget (show_nat 8 @ [CHR ''g'']) = Some (int 8 * int (1024 ^ 3))"
proof -
  have u: "unit_scale (CHR ''g'') = Some (1024 ^ 3)" by code_simp
  show ?thesis using u memory_notation_roundtrip[OF u, of 8] by blast
qed

text \<open>
  The accounting is a function of which Workers are held, not of the order in which the
  daemon learnt of them: two orderings of one Worker set, before and after a restart, give the
  same document, totals, name lists and over-commitment sentence included.
\<close>

theorem accounting_order_independent:
  assumes "mset ws = mset ws'"
  shows "buildBudgetAccounting ws c = buildBudgetAccounting ws' c"
proof -
  have bytes: "applied_bytes f ws = applied_bytes f ws'" for f
    unfolding applied_bytes_def using assms by (rule sum_list_mset_eq)
  have cpu: "applied_cpu ws = applied_cpu ws'"
    unfolding applied_cpu_def using assms by (rule sum_list_mset_eq)
  have len: "length ws = length ws'"
    using assms by (rule mset_eq_length)
  have names: "sort (map worker_id (filter P ws)) = sort (map worker_id (filter P ws'))" for P
    using assms by (rule sort_map_filter_mset)
  show ?thesis
    unfolding buildBudgetAccounting_def account_fold
    by (cases c) (simp_all add: bytes cpu len names Let_def)
qed

definition sample_worker :: "string \<Rightarrow> string \<Rightarrow> RedskilledWorkerView" where
  "sample_worker name mem =
     \<lparr>worker_id = name, project_label = ''p'', isolated = True, unit_name = None,
      budget = Some (no_budget\<lparr>memory_max := Some mem\<rparr>), applied_budget = None,
      memory_ceiling = None, memory_ceiling_reason = None\<rparr>"

theorem accounting_order_independent_witness:
  "mset [sample_worker ''a'' ''1K'', sample_worker ''b'' ''lots''] =
   mset [sample_worker ''b'' ''lots'', sample_worker ''a'' ''1K''] \<and>
   buildBudgetAccounting [sample_worker ''a'' ''1K'', sample_worker ''b'' ''lots''] (Some 1000) =
   buildBudgetAccounting [sample_worker ''b'' ''lots'', sample_worker ''a'' ''1K''] (Some 1000)"
proof -
  have m: "mset [sample_worker ''a'' ''1K'', sample_worker ''b'' ''lots''] =
           mset [sample_worker ''b'' ''lots'', sample_worker ''a'' ''1K'']"
    by (simp add: add_mset_commute)
  show ?thesis using m accounting_order_independent[OF m] by blast
qed

end
