(* ===== verification/Admission.thy ===== *)
theory Admission
  imports Budget
begin

text \<open>
  Worker admission (\<open>apps/redskilled/src/admission.ts\<close>): the memory a declared budget charges,
  what the live Worker set consumes, the verdict on one more Worker, the memory ceiling a
  Worker's own scope is born with, and how the host ceiling is resolved from flags,
  environment and configuration. The warnings the resolver writes to its sink are returned
  beside the ceiling, in order. \<open>process.env\<close>, \<open>totalmem()\<close> and \<open>availableParallelism()\<close> are
  arguments.
\<close>

section \<open>Data\<close>

datatype RedskilledHostSettingSource = Flag | Environment | HomeConfig | DerivedDefault

datatype ceiling_source = Declared | HostFraction

record RedskilledHostCeiling =
  memory_bytes :: "int option"
  worker_count :: "int option"
  validation_count :: "int option"
  interactive_reservation :: "int option"
  source :: ceiling_source
  memory_source :: "RedskilledHostSettingSource option"
  worker_source :: "RedskilledHostSettingSource option"
  validation_source :: "RedskilledHostSettingSource option"

definition UNBOUNDED_HOST_CEILING :: RedskilledHostCeiling where
  "UNBOUNDED_HOST_CEILING =
     \<lparr>memory_bytes = None, worker_count = None, validation_count = None,
      interactive_reservation = None, source = Declared, memory_source = None,
      worker_source = None, validation_source = None\<rparr>"

record RedskilledHostConsumption =
  c_worker_count :: int
  c_memory_bytes :: int
  c_unaccounted_workers :: "string list"

datatype RedskilledAdmissionVerdictKind =
    Admitted
  | AdmittedInteractiveReservation
  | RefusedOverMemoryCeiling
  | RefusedOverWorkerCeiling
  | RefusedOverInteractiveReservation
  | RefusedUnreachableTrunkRemote
  | RefusedUnaccountableBudget

record RedskilledAdmissionVerdict =
  v_version :: int
  admitted :: bool
  verdict :: RedskilledAdmissionVerdictKind
  reason :: string
  v_ceiling :: RedskilledHostCeiling
  consumption :: RedskilledHostConsumption
  requested_memory_bytes :: "int option"
  projected_worker_count :: int
  projected_memory_bytes :: int

record EvaluateWorkerAdmissionInput =
  i_ceiling :: RedskilledHostCeiling
  i_workers :: "RedskilledWorkerView list"
  i_budget :: "RedskilledWorkerBudget option"
  i_projectLabel :: "string option"
  i_interactive :: bool

definition DEFAULT_INTERACTIVE_RESERVATION :: int where
  "DEFAULT_INTERACTIVE_RESERVATION = 1"

definition DEFAULT_VALIDATION_MEMORY_BYTES :: int where
  "DEFAULT_VALIDATION_MEMORY_BYTES = 2 * 1024 ^ 3"

definition DEFAULT_VALIDATION_CORES_PER_SLOT :: int where
  "DEFAULT_VALIDATION_CORES_PER_SLOT = 2"

section \<open>The admission verdict\<close>

text \<open>
  \<open>undefined\<close> (nothing declared) is \<open>None\<close>, \<open>null\<close> (declared, but not a byte quantity) is
  \<open>Some None\<close>.
\<close>

definition declared_memory :: "RedskilledWorkerBudget option \<Rightarrow> string option" where
  "declared_memory b =
     (case b of
        None \<Rightarrow> None
      | Some d \<Rightarrow> (case memory_max d of Some m \<Rightarrow> Some m | None \<Rightarrow> memory_high d))"

definition budgetMemoryCharge :: "RedskilledWorkerBudget option \<Rightarrow> int option option" where
  "budgetMemoryCharge b =
     (case declared_memory b of None \<Rightarrow> None | Some d \<Rightarrow> Some (parseMemoryBudget d))"

definition measure_step :: "int \<times> string list \<Rightarrow> RedskilledWorkerView \<Rightarrow> int \<times> string list" where
  "measure_step acc w =
     (case budgetMemoryCharge (budget w) of
        Some None \<Rightarrow> (fst acc, snd acc @ [worker_id w])
      | Some (Some c) \<Rightarrow> (fst acc + c, snd acc)
      | None \<Rightarrow> acc)"

definition measureHostConsumption :: "RedskilledWorkerView list \<Rightarrow> RedskilledHostConsumption" where
  "measureHostConsumption workers =
     (let (m, u) = foldl measure_step (0, []) workers in
      \<lparr>c_worker_count = int (length workers), c_memory_bytes = m, c_unaccounted_workers = sort u\<rparr>)"

definition show_ceiling :: "int option \<Rightarrow> string" where
  "show_ceiling m = (case m of None \<Rightarrow> ''unbounded'' | Some b \<Rightarrow> show_int b)"

definition who_of :: "string option \<Rightarrow> string" where
  "who_of label =
     (case label of
        None \<Rightarrow> []
      | Some l \<Rightarrow> if l = [] then [] else '' for project '' @ json_quote l)"

definition at_of :: "RedskilledHostConsumption \<Rightarrow> string" where
  "at_of c =
     ''the host is already holding '' @ show_int (c_memory_bytes c) @ '' bytes across '' @
     show_int (c_worker_count c) @ '' Worker(s)''"

definition evaluateWorkerAdmission :: "EvaluateWorkerAdmissionInput \<Rightarrow> RedskilledAdmissionVerdict" where
  "evaluateWorkerAdmission input =
    (let clg = i_ceiling input;
         cons = measureHostConsumption (i_workers input);
         charge = budgetMemoryCharge (i_budget input);
         requested = (case charge of None \<Rightarrow> None | Some c \<Rightarrow> c);
         projectedMemory = c_memory_bytes cons + (case requested of None \<Rightarrow> 0 | Some c \<Rightarrow> c);
         projectedWorkers = c_worker_count cons + 1;
         interactiveReservation =
           max 0 (case interactive_reservation clg of
                    None \<Rightarrow> DEFAULT_INTERACTIVE_RESERVATION | Some r \<Rightarrow> r);
         who = who_of (i_projectLabel input);
         holding = at_of cons;
         answer = (\<lambda>ok kind why.
           \<lparr>v_version = 1, admitted = ok, verdict = kind, reason = why, v_ceiling = clg,
            consumption = cons, requested_memory_bytes = requested,
            projected_worker_count = projectedWorkers, projected_memory_bytes = projectedMemory\<rparr>);
         workerCeiling = (case worker_count clg of None \<Rightarrow> 0 | Some w \<Rightarrow> w);
         reservedSlot = (case worker_count clg of None \<Rightarrow> 0 | Some w \<Rightarrow> projectedWorkers - w)
     in if reservedSlot > 0 \<and> \<not> i_interactive input then
          answer False RefusedOverWorkerCeiling
            (''redskilled refused this Worker'' @ who @ '': it would be Worker '' @
             show_int projectedWorkers @ '' past a host ceiling of '' @ show_int workerCeiling @
             '' Worker(s); '' @ show_int interactiveReservation @
             '' extra slot(s) are reserved for interactive dispatches, and '' @ holding)
        else if reservedSlot > 0 \<and> reservedSlot > interactiveReservation then
          answer False RefusedOverInteractiveReservation
            (''redskilled refused this interactive Worker'' @ who @ '': reserved slot '' @
             show_int reservedSlot @ ''/'' @ show_int interactiveReservation @
             '' is outside the bounded interactive reservation above the host ceiling of '' @
             show_int workerCeiling @ '' Worker(s), and '' @ holding)
        else if memory_bytes clg \<noteq> None \<and> charge = Some None then
          answer False RefusedUnaccountableBudget
            (''redskilled refused this Worker'' @ who @
             '': its declared memory budget cannot be reduced to bytes, so it cannot be proven to fit under the host ceiling of '' @
             show_ceiling (memory_bytes clg) @ '' bytes, and '' @ holding)
        else if (case memory_bytes clg of None \<Rightarrow> False | Some m \<Rightarrow> projectedMemory > m) then
          answer False RefusedOverMemoryCeiling
            (''redskilled refused this Worker'' @ who @ '': it would take the host to '' @
             show_int projectedMemory @
             '' bytes of declared Worker memory, past the host ceiling of '' @
             show_ceiling (memory_bytes clg) @ '' bytes, and '' @ holding)
        else if i_interactive input \<and> reservedSlot > 0 then
          answer True AdmittedInteractiveReservation
            (''redskilled admitted this interactive Worker'' @ who @
             '' into reserved interactive slot '' @ show_int reservedSlot @ ''/'' @
             show_int interactiveReservation @ '' above the host ceiling of '' @
             show_int workerCeiling @ '' Worker(s): '' @ show_int projectedMemory @
             '' bytes of declared Worker memory against a host ceiling of '' @
             show_ceiling (memory_bytes clg) @ '' bytes, and '' @ holding)
        else
          answer True Admitted
            (''redskilled admitted this Worker'' @ who @ '': '' @ show_int projectedMemory @
             '' bytes of declared Worker memory against a host ceiling of '' @
             show_ceiling (memory_bytes clg) @ '' bytes, and '' @ holding))"

section \<open>The ceiling of one Worker's scope\<close>

record RedskilledScopeCeiling =
  sc_memory_max :: "string option"
  sc_reason :: string

text \<open>
  The share of one slot is a JavaScript division: a ceiling divided by a slot count of 0 is
  infinite or, for a ceiling of 0 bytes, not a number.
\<close>

definition floor_div :: "int \<Rightarrow> int \<Rightarrow> jsnum" where
  "floor_div a b =
     (if b \<noteq> 0 then IntNum (a div b) else if a > 0 then PosInf else if a < 0 then NegInf else NaN)"

definition min_num :: "int \<Rightarrow> jsnum \<Rightarrow> jsnum" where
  "min_num a x =
     (case x of Num r \<Rightarrow> IntNum (min a \<lfloor>r\<rfloor>) | NaN \<Rightarrow> NaN | PosInf \<Rightarrow> IntNum a | NegInf \<Rightarrow> NegInf)"

definition at_most_zero :: "jsnum \<Rightarrow> bool" where
  "at_most_zero x \<longleftrightarrow> (case x of Num r \<Rightarrow> r \<le> 0 | NaN \<Rightarrow> False | PosInf \<Rightarrow> False | NegInf \<Rightarrow> True)"

definition show_num :: "jsnum \<Rightarrow> string" where
  "show_num x =
     (case x of Num r \<Rightarrow> show_int \<lfloor>r\<rfloor> | NaN \<Rightarrow> ''NaN'' | PosInf \<Rightarrow> ''Infinity'' | NegInf \<Rightarrow> ''-Infinity'')"

definition show_source :: "ceiling_source \<Rightarrow> string" where
  "show_source s = (case s of Declared \<Rightarrow> ''declared'' | HostFraction \<Rightarrow> ''host-fraction'')"

definition deriveWorkerScopeCeiling ::
  "RedskilledHostCeiling \<Rightarrow> RedskilledWorkerView list \<Rightarrow> RedskilledWorkerBudget option \<Rightarrow>
   RedskilledScopeCeiling" where
  "deriveWorkerScopeCeiling clg workers b =
    (case declared_memory b of
       Some d \<Rightarrow>
         \<lparr>sc_memory_max = Some d,
          sc_reason = ''the client declared this Worker's memory ceiling ('' @ d @
                      ''), so the host derived none''\<rparr>
     | None \<Rightarrow>
       (case memory_bytes clg of
          None \<Rightarrow>
            \<lparr>sc_memory_max = None,
             sc_reason =
               ''this host admits Workers against no memory ceiling, so there is no accounting to derive a per-Worker ceiling from; '' @
               ''the daemon's RSS sampling floor is the only remaining ceiling''\<rparr>
        | Some m \<Rightarrow>
            (let cons = measureHostConsumption workers;
                 headroom = m - c_memory_bytes cons;
                 share = (case worker_count clg of None \<Rightarrow> IntNum headroom | Some s \<Rightarrow> floor_div m s);
                 bytes = min_num headroom share;
                 from = (case worker_count clg of
                   None \<Rightarrow>
                     ''the headroom under this host's memory ceiling of '' @ show_int m @
                     '' bytes; this host declares no Worker slot count (REDSKILLED_WORKER_CEILING is unset), so this ceiling is a per-Worker wall and not memory the host sets aside '' @
                     em_dash @
                     '' N Workers may carry N such walls, and the host ceiling is not enforced host-wide. Declare a slot count to make it divide into shares that sum to it''
                 | Some s \<Rightarrow>
                     ''this host's memory ceiling of '' @ show_int m @ '' bytes shared across its '' @
                     show_int s @ '' Worker slot(s)'')
             in if at_most_zero bytes then
                  \<lparr>sc_memory_max = None,
                   sc_reason =
                     ''this host's memory ceiling of '' @ show_int m @
                     '' bytes is already fully committed to '' @ show_int (c_worker_count cons) @
                     '' Worker(s), so no positive per-Worker ceiling can be derived; '' @
                     ''the daemon's RSS sampling floor is the only remaining ceiling''\<rparr>
                else
                  \<lparr>sc_memory_max = Some (show_num bytes),
                   sc_reason = ''derived from '' @ from @ '' (ceiling source: '' @
                               show_source (source clg) @ '')''\<rparr>)))"

section \<open>Resolving the host ceiling\<close>

record ceiling_declarations =
  memoryCeiling :: "string option"
  workerCeiling :: "string option"
  validationCeiling :: "string option"

definition is_unbounded_word :: "string \<Rightarrow> bool" where
  "is_unbounded_word s \<longleftrightarrow> s \<in> {''infinity'', ''none'', ''off'', ''unbounded''}"

definition isUnbounded :: "string \<Rightarrow> bool" where
  "isUnbounded v \<longleftrightarrow> is_unbounded_word (to_lower (trim v))"

definition nonblank :: "string option \<Rightarrow> string option" where
  "nonblank v = (case v of None \<Rightarrow> None | Some s \<Rightarrow> if trim s = [] then None else Some (trim s))"

definition selectDeclaration ::
  "string option \<Rightarrow> string option \<Rightarrow> string option \<Rightarrow>
   (string \<times> RedskilledHostSettingSource) option" where
  "selectDeclaration flag environment config =
     (case nonblank flag of
        Some v \<Rightarrow> Some (v, Flag)
      | None \<Rightarrow>
          (case nonblank environment of
             Some v \<Rightarrow> Some (v, Environment)
           | None \<Rightarrow>
               (case nonblank config of Some v \<Rightarrow> Some (v, HomeConfig) | None \<Rightarrow> None)))"

definition describeDeclaration :: "RedskilledHostSettingSource \<Rightarrow> string" where
  "describeDeclaration s =
     (case s of
        Flag \<Rightarrow> ''serve flag'' | Environment \<Rightarrow> ''environment'' | HomeConfig \<Rightarrow> ''home config''
      | DerivedDefault \<Rightarrow> ''derived default'')"

text \<open>\<open>undefined\<close> (not a ceiling this host can read) is \<open>None\<close>, unbounded is \<open>Some None\<close>.\<close>

definition parseMemoryCeiling :: "string \<Rightarrow> int \<Rightarrow> int option option" where
  "parseMemoryCeiling v totalMemoryBytes =
     (if is_unbounded_word (to_lower v) then Some None
      else (case scan_decimal v of
              Some (n, d, r) \<Rightarrow>
                if dropWhile is_ws r = ''%''
                then Some (Some ((totalMemoryBytes * int n) div (100 * int d)))
                else map_option Some (parseMemoryBudget v)
            | None \<Rightarrow> map_option Some (parseMemoryBudget v)))"

definition parseCountCeiling :: "string \<Rightarrow> int option" where
  "parseCountCeiling v =
     (if v = [] then None
      else if is_unbounded_word (to_lower v) then None
      else (let cnt = Number v in
            if isSafeInteger cnt \<and> int_of_num cnt > 0 then Some (int_of_num cnt) else None))"

definition parseReservationCount :: "string \<Rightarrow> int option" where
  "parseReservationCount v =
     (let cnt = Number v in
      if isSafeInteger cnt \<and> int_of_num cnt \<ge> 0 then Some (int_of_num cnt) else None)"

definition derived_validation_count :: "RedskilledHostCeiling \<Rightarrow> int \<Rightarrow> int" where
  "derived_validation_count clg hostParallelism =
     (let cpuSlots = max 1 (max 1 hostParallelism div DEFAULT_VALIDATION_CORES_PER_SLOT);
          withMemory = (case memory_bytes clg of
            None \<Rightarrow> cpuSlots
          | Some m \<Rightarrow> min cpuSlots (max 1 (m div DEFAULT_VALIDATION_MEMORY_BYTES)))
      in max 1 (case worker_count clg of None \<Rightarrow> withMemory | Some w \<Rightarrow> min withMemory w))"

definition withValidationCapacity ::
  "RedskilledHostCeiling \<Rightarrow> (string \<times> RedskilledHostSettingSource) option \<Rightarrow> int \<Rightarrow>
   RedskilledHostCeiling \<times> string list" where
  "withValidationCapacity clg declaration hostParallelism =
     (let derived = clg\<lparr>validation_count := Some (derived_validation_count clg hostParallelism),
                        validation_source := Some DerivedDefault\<rparr>
      in (case declaration of
            None \<Rightarrow> (derived, [])
          | Some (v, src) \<Rightarrow>
              (case parseCountCeiling v of
                 Some cnt \<Rightarrow>
                   (clg\<lparr>validation_count := Some cnt, validation_source := Some src\<rparr>, [])
               | None \<Rightarrow>
                   (derived,
                    [''redskilled: '' @ describeDeclaration src @ '' REDSKILLED_VALIDATION_CEILING='' @
                     json_quote v @
                     '' is not a positive integer; deriving the validation ceiling from host CPU, memory, and Worker capacity instead.'']))))"

text \<open>The declared reservation, and its reading: the default when nothing is declared.\<close>

definition declared_reservation :: "(string \<Rightarrow> string option) \<Rightarrow> string" where
  "declared_reservation env =
     trim (case env ''REDSKILLED_INTERACTIVE_RESERVATION'' of None \<Rightarrow> [] | Some v \<Rightarrow> v)"

definition resolved_reservation :: "(string \<Rightarrow> string option) \<Rightarrow> int option" where
  "resolved_reservation env =
     (if declared_reservation env = [] then Some DEFAULT_INTERACTIVE_RESERVATION
      else parseReservationCount (declared_reservation env))"

text \<open>
  The ceiling before the validation dimension is filled in, with the warnings so far: a
  readable memory declaration returns first, so a malformed reservation is only named on the
  other path.
\<close>

definition worker_declaration ::
  "(string \<Rightarrow> string option) \<Rightarrow> ceiling_declarations \<Rightarrow> ceiling_declarations \<Rightarrow>
   (string \<times> RedskilledHostSettingSource) option" where
  "worker_declaration env flags config =
     selectDeclaration (workerCeiling flags) (env ''REDSKILLED_WORKER_CEILING'') (workerCeiling config)"

definition resolve_workers ::
  "(string \<times> RedskilledHostSettingSource) option \<Rightarrow>
   int option \<times> RedskilledHostSettingSource \<times> string list" where
  "resolve_workers declaration =
     (case declaration of
        None \<Rightarrow> (None, DerivedDefault, [])
      | Some (v, s) \<Rightarrow>
          if parseCountCeiling v = None \<and> \<not> isUnbounded v then
            (None, DerivedDefault,
             [''redskilled: '' @ describeDeclaration s @ '' REDSKILLED_WORKER_CEILING='' @ json_quote v @
              '' is not a positive integer; this host admits an unbounded number of Workers instead.''])
          else (parseCountCeiling v, s, []))"

definition resolve_base ::
  "(string \<Rightarrow> string option) \<Rightarrow> int \<Rightarrow> ceiling_declarations \<Rightarrow> ceiling_declarations \<Rightarrow>
   RedskilledHostCeiling \<times> string list" where
  "resolve_base env totalMemoryBytes flags config =
    (let memoryDeclaration = selectDeclaration (memoryCeiling flags)
           (env ''REDSKILLED_MEMORY_CEILING'') (memoryCeiling config);
         (workerCount, workerSource, workerWarning) =
           resolve_workers (worker_declaration env flags config);
         interactiveReservation = resolved_reservation env;
         base = \<lparr>memory_bytes = Some ((totalMemoryBytes * 7) div 10),
                 worker_count = workerCount, validation_count = None,
                 interactive_reservation = Some (case interactiveReservation of
                   None \<Rightarrow> DEFAULT_INTERACTIVE_RESERVATION | Some r \<Rightarrow> r),
                 source = HostFraction,
                 memory_source = Some DerivedDefault, worker_source = Some workerSource,
                 validation_source = None\<rparr>;
         reservationWarning =
           (if interactiveReservation = None then
              [''redskilled: REDSKILLED_INTERACTIVE_RESERVATION='' @ json_quote (declared_reservation env) @
               '' is not a non-negative integer; using the default reservation of '' @
               show_int DEFAULT_INTERACTIVE_RESERVATION @ '' Worker(s) instead.'']
            else [])
     in (case memoryDeclaration of
           None \<Rightarrow> (base, workerWarning @ reservationWarning)
         | Some (v, s) \<Rightarrow>
             (case parseMemoryCeiling v totalMemoryBytes of
                Some m \<Rightarrow>
                  (base\<lparr>memory_bytes := m, source := Declared, memory_source := Some s\<rparr>, workerWarning)
              | None \<Rightarrow>
                  (base,
                   workerWarning @
                   [''redskilled: '' @ describeDeclaration s @ '' REDSKILLED_MEMORY_CEILING='' @
                    json_quote v @ '' is not a memory ceiling this host can read; using 70% of host memory instead. '' @
                    ''Accepted forms: systemd bytes ('' @ ticked ''8G'' @ ''), a percentage ('' @
                    ticked ''50%'' @ ''), or '' @ ticked ''infinity'' @ ''.''] @
                   reservationWarning))))"

definition resolveHostCeiling ::
  "(string \<Rightarrow> string option) \<Rightarrow> int \<Rightarrow> ceiling_declarations \<Rightarrow> ceiling_declarations \<Rightarrow> int \<Rightarrow>
   RedskilledHostCeiling \<times> string list" where
  "resolveHostCeiling env totalMemoryBytes flags config parallelism =
    (let validationDeclaration = selectDeclaration (validationCeiling flags)
           (env ''REDSKILLED_VALIDATION_CEILING'') (validationCeiling config);
         (base, warnings) = resolve_base env totalMemoryBytes flags config;
         (clg, more) = withValidationCapacity base validationDeclaration parallelism
     in (clg, warnings @ more))"

text \<open>A client's check that an untrusted value is a complete verdict.\<close>

definition null_or_num :: "jsval \<Rightarrow> bool" where
  "null_or_num v \<longleftrightarrow> v = JNull \<or> is_num v"

definition undefined_or_int :: "(int \<Rightarrow> bool) \<Rightarrow> jsval \<Rightarrow> bool" where
  "undefined_or_int P v \<longleftrightarrow> v = JUndefined \<or> (is_integer_val v \<and> P (int_of_num (num_of v)))"

definition isRedskilledAdmissionVerdict :: "jsval \<Rightarrow> bool" where
  "isRedskilledAdmissionVerdict v \<longleftrightarrow>
     is_record v \<and>
     get_prop v ''version'' = JNum (Num 1) \<and>
     is_bool (get_prop v ''admitted'') \<and>
     is_str (get_prop v ''verdict'') \<and>
     is_str (get_prop v ''reason'') \<and>
     (let clg = get_prop v ''ceiling'' in
        (is_record clg \<or> is_arr clg) \<and>
        null_or_num (get_prop clg ''memory_bytes'') \<and>
        null_or_num (get_prop clg ''worker_count'') \<and>
        undefined_or_int (\<lambda>n. n > 0) (get_prop clg ''validation_count'') \<and>
        undefined_or_int (\<lambda>n. n \<ge> 0) (get_prop clg ''interactive_reservation'')) \<and>
     (let cons = get_prop v ''consumption'' in
        (is_record cons \<or> is_arr cons) \<and>
        is_integer_val (get_prop cons ''worker_count'') \<and>
        is_num (get_prop cons ''memory_bytes'') \<and>
        is_arr (get_prop cons ''unaccounted_workers'')) \<and>
     is_integer_val (get_prop v ''projected_worker_count'') \<and>
     is_num (get_prop v ''projected_memory_bytes'')"

section \<open>Lemmas on consumption\<close>

definition charge_bytes :: "RedskilledWorkerBudget option \<Rightarrow> int" where
  "charge_bytes b = (case budgetMemoryCharge b of Some (Some c) \<Rightarrow> c | _ \<Rightarrow> 0)"

definition worker_charge :: "RedskilledWorkerView \<Rightarrow> int" where
  "worker_charge w = charge_bytes (budget w)"

definition reservation_of :: "RedskilledHostCeiling \<Rightarrow> int" where
  "reservation_of clg =
     max 0 (case interactive_reservation clg of None \<Rightarrow> DEFAULT_INTERACTIVE_RESERVATION | Some r \<Rightarrow> r)"

lemma charge_bytes_nonneg [simp]: "0 \<le> charge_bytes b"
  by (auto simp: charge_bytes_def budgetMemoryCharge_def split: option.splits
      dest: parseMemoryBudget_nonneg)

lemma worker_charge_nonneg [simp]: "0 \<le> worker_charge w"
  by (simp add: worker_charge_def)

lemma reservation_of_nonneg: "0 \<le> reservation_of clg"
  by (simp add: reservation_of_def)

lemma measure_fold:
  "foldl measure_step acc ws =
     (fst acc + sum_list (map worker_charge ws),
      snd acc @ map worker_id (filter (\<lambda>w. budgetMemoryCharge (budget w) = Some None) ws))"
proof (induction ws arbitrary: acc)
  case Nil
  then show ?case by simp
next
  case (Cons w ws)
  show ?case
    unfolding foldl.simps Cons.IH
    by (auto simp: measure_step_def worker_charge_def[of w] charge_bytes_def split: option.splits)
qed

lemma measureHostConsumption_simps [simp]:
  "c_worker_count (measureHostConsumption ws) = int (length ws)"
  "c_memory_bytes (measureHostConsumption ws) = sum_list (map worker_charge ws)"
  by (simp_all add: measureHostConsumption_def measure_fold)

section \<open>Lemmas on the verdict\<close>

definition fits_workers :: "EvaluateWorkerAdmissionInput \<Rightarrow> bool" where
  "fits_workers i \<longleftrightarrow>
     (case worker_count (i_ceiling i) of
        None \<Rightarrow> True
      | Some w \<Rightarrow> int (length (i_workers i)) + 1
                   \<le> w + (if i_interactive i then reservation_of (i_ceiling i) else 0))"

definition fits_memory :: "EvaluateWorkerAdmissionInput \<Rightarrow> bool" where
  "fits_memory i \<longleftrightarrow>
     (case memory_bytes (i_ceiling i) of
        None \<Rightarrow> True
      | Some m \<Rightarrow> budgetMemoryCharge (i_budget i) \<noteq> Some None \<and>
                   sum_list (map worker_charge (i_workers i)) + charge_bytes (i_budget i) \<le> m)"

lemma projected_charge:
  "(case (case budgetMemoryCharge b of None \<Rightarrow> None | Some c \<Rightarrow> c) of None \<Rightarrow> 0 | Some c \<Rightarrow> c) = charge_bytes b"
  by (simp add: charge_bytes_def split: option.splits)

lemma evaluate_verdict:
  "verdict (evaluateWorkerAdmission i) =
     (if \<not> fits_workers i then
        (if i_interactive i then RefusedOverInteractiveReservation else RefusedOverWorkerCeiling)
      else if memory_bytes (i_ceiling i) \<noteq> None \<and> budgetMemoryCharge (i_budget i) = Some None
        then RefusedUnaccountableBudget
      else if \<not> fits_memory i then RefusedOverMemoryCeiling
      else if i_interactive i \<and> (case worker_count (i_ceiling i) of
                 None \<Rightarrow> False | Some w \<Rightarrow> int (length (i_workers i)) + 1 > w)
        then AdmittedInteractiveReservation
      else Admitted)"
  using reservation_of_nonneg[of "i_ceiling i"]
  by (cases "worker_count (i_ceiling i)"; cases "memory_bytes (i_ceiling i)"; cases "i_interactive i")
     (auto simp: evaluateWorkerAdmission_def Let_def fits_workers_def fits_memory_def
       projected_charge reservation_of_def[symmetric] split del: if_split split: if_splits)

lemma evaluate_admitted:
  "admitted (evaluateWorkerAdmission i) \<longleftrightarrow>
     verdict (evaluateWorkerAdmission i) \<in> {Admitted, AdmittedInteractiveReservation}"
  by (simp add: evaluateWorkerAdmission_def Let_def)

lemma admitted_iff_fits:
  "admitted (evaluateWorkerAdmission i) \<longleftrightarrow> fits_workers i \<and> fits_memory i"
  unfolding evaluate_admitted evaluate_verdict
  by (auto simp: fits_memory_def split: option.splits)

section \<open>Lemmas on the resolved ceiling\<close>

lemma parseCountCeiling_pos: "parseCountCeiling v = Some n \<Longrightarrow> 0 < n"
  by (auto simp: parseCountCeiling_def Let_def split: if_splits)

lemma parseReservationCount_nonneg: "parseReservationCount v = Some n \<Longrightarrow> 0 \<le> n"
  by (auto simp: parseReservationCount_def Let_def split: if_splits)

lemma parseMemoryCeiling_nonneg:
  "parseMemoryCeiling v mem = Some (Some m) \<Longrightarrow> 0 \<le> mem \<Longrightarrow> 0 \<le> m"
  by (auto simp: parseMemoryCeiling_def split: if_splits option.splits
      dest!: scan_decimal_pos dest: parseMemoryBudget_nonneg intro!: div_int_pos_iff[THEN iffD2])

lemma derived_validation_count_pos: "1 \<le> derived_validation_count clg p"
  by (simp add: derived_validation_count_def Let_def)

lemma withValidationCapacity_shape:
  assumes "withValidationCapacity clg d p = (clg', ws)"
  shows "\<exists>v src. 1 \<le> v \<and> clg' = clg\<lparr>validation_count := Some v, validation_source := Some src\<rparr>"
proof (cases "\<exists>v src n. d = Some (v, src) \<and> parseCountCeiling v = Some n")
  case True
  then obtain v src n where d: "d = Some (v, src)" and n: "parseCountCeiling v = Some n" by blast
  have "clg' = clg\<lparr>validation_count := Some n, validation_source := Some src\<rparr>"
    using assms by (simp add: withValidationCapacity_def d n)
  moreover have "1 \<le> n" using parseCountCeiling_pos[OF n] by simp
  ultimately show ?thesis by blast
next
  case False
  then have "clg' = clg\<lparr>validation_count := Some (derived_validation_count clg p), validation_source := Some DerivedDefault\<rparr>"
    using assms unfolding withValidationCapacity_def Let_def by (cases d) auto
  then show ?thesis using derived_validation_count_pos by blast
qed

lemma withValidationCapacity_fields:
  assumes "withValidationCapacity clg d p = (clg', ws)"
  shows "memory_bytes clg' = memory_bytes clg" "worker_count clg' = worker_count clg"
    "interactive_reservation clg' = interactive_reservation clg" "source clg' = source clg"
    "\<exists>v. validation_count clg' = Some v \<and> 1 \<le> v"
  using withValidationCapacity_shape[OF assms] by auto

definition ceiling_wf :: "RedskilledHostCeiling \<Rightarrow> bool" where
  "ceiling_wf clg \<longleftrightarrow>
     (\<forall>m. memory_bytes clg = Some m \<longrightarrow> 0 \<le> m) \<and>
     (\<forall>w. worker_count clg = Some w \<longrightarrow> 0 < w) \<and>
     (\<exists>r. interactive_reservation clg = Some r \<and> 0 \<le> r) \<and>
     (\<exists>v. validation_count clg = Some v \<and> 1 \<le> v)"

lemma withValidationCapacity_wf:
  assumes "withValidationCapacity clg d p = (clg', ws)"
    and "\<forall>m. memory_bytes clg = Some m \<longrightarrow> 0 \<le> m"
    and "\<forall>w. worker_count clg = Some w \<longrightarrow> 0 < w"
    and "interactive_reservation clg = Some r" "0 \<le> r"
  shows "ceiling_wf clg'"
  unfolding ceiling_wf_def using withValidationCapacity_fields[OF assms(1)] assms(2-5) by simp

lemma resolve_workers_pos: "resolve_workers d = (Some n, src, ws) \<Longrightarrow> 0 < n"
  by (auto simp: resolve_workers_def split: option.splits if_splits dest: parseCountCeiling_pos)

lemma resolved_reservation_nonneg:
  "0 \<le> (case resolved_reservation env of None \<Rightarrow> DEFAULT_INTERACTIVE_RESERVATION | Some r \<Rightarrow> r)"
  by (auto simp: resolved_reservation_def DEFAULT_INTERACTIVE_RESERVATION_def
      split: option.splits if_splits dest: parseReservationCount_nonneg)

lemma resolve_base_fields:
  assumes "resolve_base env mem flags config = (base, ws)" and "0 \<le> mem"
  shows "\<forall>m. memory_bytes base = Some m \<longrightarrow> 0 \<le> m"
    "\<forall>w. worker_count base = Some w \<longrightarrow> 0 < w"
    "\<exists>r. interactive_reservation base = Some r \<and> 0 \<le> r"
    "source base = HostFraction \<longrightarrow> memory_bytes base = Some ((mem * 7) div 10)"
  using assms resolved_reservation_nonneg[of env]
  by (auto simp: resolve_base_def Let_def split: option.splits prod.splits
      dest: resolve_workers_pos parseMemoryCeiling_nonneg)

section \<open>A pool of Workers over time\<close>

text \<open>
  The Worker set changes by births an admission predicate accepts and by deaths. Whatever is
  charged per Worker, a predicate that only accepts what still fits keeps the total of every
  reachable pool within the capacity.
\<close>

inductive pool_step :: "('w list \<Rightarrow> 'w \<Rightarrow> bool) \<Rightarrow> 'w list \<Rightarrow> 'w list \<Rightarrow> bool" for admits where
  birth: "admits ws w \<Longrightarrow> pool_step admits ws (ws @ [w])"
| death: "pool_step admits (us @ w # vs) (us @ vs)"

inductive_cases pool_stepE: "pool_step admits ws ws'"

locale capacity_ledger =
  fixes charge :: "'w \<Rightarrow> int"
    and capacity :: "int option"
    and admits :: "'w list \<Rightarrow> 'w \<Rightarrow> bool"
  assumes charge_nonneg: "0 \<le> charge w"
    and admits_fits: "admits ws w \<Longrightarrow> capacity = Some c \<Longrightarrow> sum_list (map charge ws) + charge w \<le> c"
begin

lemma step_within:
  assumes "\<forall>c. capacity = Some c \<longrightarrow> sum_list (map charge ws) \<le> c"
    and "pool_step admits ws ws'"
  shows "\<forall>c. capacity = Some c \<longrightarrow> sum_list (map charge ws') \<le> c"
  using assms(2)
proof (cases rule: pool_step.cases)
  case (birth w)
  then show ?thesis using admits_fits by simp
next
  case (death us w vs)
  then show ?thesis using assms(1) charge_nonneg[of w] by fastforce
qed

sublocale pool: stepwise_invariant
  "\<lambda>ws. ws = [] \<and> (\<forall>c. capacity = Some c \<longrightarrow> 0 \<le> c)"
  "pool_step admits"
  "\<lambda>ws. \<forall>c. capacity = Some c \<longrightarrow> sum_list (map charge ws) \<le> c"
proof unfold_locales
  fix ws ws'
  assume "\<forall>c. capacity = Some c \<longrightarrow> sum_list (map charge ws) \<le> c" and "pool_step admits ws ws'"
  then show "\<forall>c. capacity = Some c \<longrightarrow> sum_list (map charge ws') \<le> c"
    by (rule step_within)
qed simp

end

text \<open>The host's own predicates: any request, or only requests with no interactive claim.\<close>

definition host_admits :: "RedskilledHostCeiling \<Rightarrow> bool \<Rightarrow> RedskilledWorkerView list \<Rightarrow> RedskilledWorkerView \<Rightarrow> bool" where
  "host_admits clg interactive ws w =
     admitted (evaluateWorkerAdmission
       \<lparr>i_ceiling = clg, i_workers = ws, i_budget = budget w,
        i_projectLabel = Some (project_label w), i_interactive = interactive\<rparr>)"

definition host_admits_any :: "RedskilledHostCeiling \<Rightarrow> RedskilledWorkerView list \<Rightarrow> RedskilledWorkerView \<Rightarrow> bool" where
  "host_admits_any clg ws w \<longleftrightarrow> host_admits clg False ws w \<or> host_admits clg True ws w"

lemmas host_fits = host_admits_any_def host_admits_def admitted_iff_fits fits_memory_def fits_workers_def

interpretation memory_ledger: capacity_ledger worker_charge "memory_bytes clg" "host_admits_any clg"
  for clg
  by unfold_locales (auto simp: host_fits worker_charge_def[symmetric])

interpretation slot_ledger: capacity_ledger "\<lambda>_. 1"
  "map_option (\<lambda>w. w + reservation_of clg) (worker_count clg)" "host_admits_any clg"
  for clg
proof unfold_locales
  fix ws :: "RedskilledWorkerView list" and w c
  assume a: "host_admits_any clg ws w" and c: "map_option (\<lambda>w. w + reservation_of clg) (worker_count clg) = Some c"
  then obtain n where n: "worker_count clg = Some n" "c = n + reservation_of clg" by auto
  with a have "int (length ws) + 1 \<le> n \<or> int (length ws) + 1 \<le> n + reservation_of clg"
    by (auto simp: host_fits)
  then have "int (length ws) + 1 \<le> c"
    using reservation_of_nonneg[of clg] n by linarith
  then show "(\<Sum>_\<leftarrow>ws. 1) + 1 \<le> c"
    by (simp add: sum_list_triv)
qed simp

interpretation batch_ledger: capacity_ledger "\<lambda>_. 1" "worker_count clg" "host_admits clg False"
  for clg
  by unfold_locales (auto simp: host_fits sum_list_triv)

section \<open>Properties\<close>

text \<open>
  C10. A request is admitted exactly when it is proven to fit: under the Worker ceiling, or,
  for an interactive request, under the ceiling plus the bounded reservation; and, when a
  memory ceiling is in force, with a budget that reduces to bytes and a total within it.
\<close>

theorem admission_exact:
  "admitted (evaluateWorkerAdmission i) \<longleftrightarrow>
     (case worker_count (i_ceiling i) of
        None \<Rightarrow> True
      | Some w \<Rightarrow> int (length (i_workers i)) + 1
                   \<le> w + (if i_interactive i then reservation_of (i_ceiling i) else 0)) \<and>
     (case memory_bytes (i_ceiling i) of
        None \<Rightarrow> True
      | Some m \<Rightarrow> budgetMemoryCharge (i_budget i) \<noteq> Some None \<and>
                   c_memory_bytes (measureHostConsumption (i_workers i)) + charge_bytes (i_budget i) \<le> m)"
  unfolding admitted_iff_fits fits_workers_def fits_memory_def measureHostConsumption_simps ..

text \<open>
  C5. However births and deaths follow one another, a host that starts with no Worker never
  commits more declared memory than its ceiling, and never holds more Workers than its
  Worker ceiling and interactive reservation together.
\<close>

theorem host_never_over_committed:
  assumes "(pool_step (host_admits_any clg))\<^sup>*\<^sup>* [] ws"
    and "memory_bytes clg = Some m" and "0 \<le> m"
    and "worker_count clg = Some n" and "0 \<le> n"
  shows "c_memory_bytes (measureHostConsumption ws) \<le> m \<and> int (length ws) \<le> n + reservation_of clg"
proof -
  have "c_memory_bytes (measureHostConsumption ws) \<le> m"
    using memory_ledger.pool.reachable_inv[where clg = clg and s = "[]" and t = ws] assms by simp
  moreover have "int (length ws) \<le> n + reservation_of clg"
    using slot_ledger.pool.reachable_inv[where clg = clg and s = "[]" and t = ws] assms reservation_of_nonneg[of clg]
    by (simp add: sum_list_triv)
  ultimately show ?thesis ..
qed

text \<open>
  Births that claim no interactive reservation never take the host past its Worker
  ceiling: the reserved slots stay free for interactive dispatches.
\<close>

theorem reserved_slots_stay_free:
  assumes "(pool_step (host_admits clg False))\<^sup>*\<^sup>* [] ws" and "worker_count clg = Some n" and "0 \<le> n"
  shows "int (length ws) \<le> n"
  using batch_ledger.pool.reachable_inv[where clg = clg and s = "[]" and t = ws] assms by (simp add: sum_list_triv)

definition sample_ceiling :: RedskilledHostCeiling where
  "sample_ceiling = UNBOUNDED_HOST_CEILING\<lparr>memory_bytes := Some 4096, worker_count := Some 2\<rparr>"

lemma sample_birth: "pool_step (host_admits sample_ceiling False) [] [sample_worker ''a'' ''1K'']"
proof -
  have "host_admits sample_ceiling False [] (sample_worker ''a'' ''1K'')" by code_simp
  from pool_step.birth[of "host_admits sample_ceiling False", OF this] show ?thesis by simp
qed

lemma sample_birth_any: "pool_step (host_admits_any sample_ceiling) [] [sample_worker ''a'' ''1K'']"
proof -
  have "host_admits_any sample_ceiling [] (sample_worker ''a'' ''1K'')" by code_simp
  from pool_step.birth[of "host_admits_any sample_ceiling", OF this] show ?thesis by simp
qed

theorem host_never_over_committed_witness:
  "c_memory_bytes (measureHostConsumption [sample_worker ''a'' ''1K'']) \<le> 4096 \<and>
   int (length [sample_worker ''a'' ''1K'']) \<le> 2 + reservation_of sample_ceiling"
  by (rule host_never_over_committed[where clg = sample_ceiling, OF r_into_rtranclp[of "pool_step _", OF sample_birth_any]])
     (simp_all add: sample_ceiling_def)

theorem reserved_slots_stay_free_witness:
  "int (length [sample_worker ''a'' ''1K'']) \<le> 2"
  by (rule reserved_slots_stay_free[where clg = sample_ceiling, OF r_into_rtranclp[of "pool_step _", OF sample_birth]])
     (simp_all add: sample_ceiling_def)

text \<open>
  With a declared slot count the ceilings derived for Workers that declared none divide
  the host ceiling: the derived text reads back as a positive number of bytes, it fits the
  headroom the live Workers leave, and as many such walls as there are slots sum to at most
  the host ceiling.
\<close>

theorem derived_shares_fit:
  assumes "declared_memory b = None" and "memory_bytes clg = Some m"
    and "worker_count clg = Some s" and "0 < s"
    and "sc_memory_max (deriveWorkerScopeCeiling clg ws b) = Some t"
  shows "\<exists>n. parseMemoryBudget t = Some n \<and> 0 < n \<and> s * n \<le> m \<and>
             n \<le> m - c_memory_bytes (measureHostConsumption ws)"
proof -
  let ?n = "min (m - c_memory_bytes (measureHostConsumption ws)) (m div s)"
  have b: "min_num (m - c_memory_bytes (measureHostConsumption ws)) (floor_div m s) = IntNum ?n"
    using assms(4) by (simp add: min_num_def floor_div_def del: of_int_min)
  have t: "0 < ?n" "t = show_int ?n"
    using assms(5)
    by (auto simp: deriveWorkerScopeCeiling_def assms(1-3) Let_def b at_most_zero_def show_num_def
        simp del: measureHostConsumption_simps of_int_min split: if_splits)
  then have "parseMemoryBudget t = Some ?n"
    using parseMemoryBudget_show_nat[of "nat ?n"] by (simp add: show_int_nonneg)
  moreover have "s * ?n \<le> m"
  proof -
    have "s * ?n \<le> s * (m div s)" using assms(4) by (intro mult_left_mono) auto
    also have "\<dots> \<le> m" using assms(4) by (simp add: minus_mod_eq_mult_div[symmetric])
    finally show ?thesis .
  qed
  ultimately show ?thesis using t(1) by (intro exI[of _ ?n]) auto
qed

theorem derived_shares_fit_witness:
  "\<exists>n. parseMemoryBudget ''2048'' = Some n \<and> 0 < n \<and> 2 * n \<le> 4096 \<and>
       n \<le> 4096 - c_memory_bytes (measureHostConsumption [sample_worker ''a'' ''1K''])"
  by (rule derived_shares_fit[where clg = sample_ceiling and b = None and
        ws = "[sample_worker ''a'' ''1K'']"])
     (simp_all add: sample_ceiling_def declared_memory_def, code_simp)

text \<open>
  Whatever the flags, the environment and the configuration say, the resolved ceiling is
  usable: memory is not negative, a Worker ceiling is positive, the interactive reservation
  is present and not negative, at least one validation suite may run; and a ceiling nobody
  declared, or declared unreadably, is seven tenths of the host's memory.
\<close>

theorem resolved_ceiling_usable:
  assumes "0 \<le> totalMemoryBytes"
    and "resolveHostCeiling env totalMemoryBytes flags config parallelism = (clg, warnings)"
  shows "ceiling_wf clg \<and>
         (source clg = HostFraction \<longrightarrow> memory_bytes clg = Some ((totalMemoryBytes * 7) div 10))"
proof -
  obtain base ws where b: "resolve_base env totalMemoryBytes flags config = (base, ws)"
    by (cases "resolve_base env totalMemoryBytes flags config") auto
  then obtain d more where v: "withValidationCapacity base d parallelism = (clg, more)"
    using assms(2) by (auto simp: resolveHostCeiling_def Let_def split: prod.splits)
  note base = resolve_base_fields[OF b assms(1)]
  from base obtain r where "interactive_reservation base = Some r" "0 \<le> r" by blast
  then have "ceiling_wf clg" by (rule withValidationCapacity_wf[OF v base(1,2)])
  then show ?thesis using base(4) withValidationCapacity_fields(1,4)[OF v] by simp
qed

theorem resolved_ceiling_usable_witness:
  "ceiling_wf (fst (resolveHostCeiling (\<lambda>k. if k = ''REDSKILLED_MEMORY_CEILING'' then Some ''50%'' else None)
     8192 \<lparr>memoryCeiling = None, workerCeiling = Some ''3'', validationCeiling = None\<rparr>
     \<lparr>memoryCeiling = None, workerCeiling = None, validationCeiling = None\<rparr> 4))"
  by (rule resolved_ceiling_usable[THEN conjunct1, OF _ prod.collapse[symmetric]]) simp

end
