(* ===== verification/Engine_Config.thy ===== *)
theory Engine_Config
  imports Prelude
begin

text \<open>
  The Worker engine's configuration: \<open>packages/worker/src/engine/config.ts\<close>. A project's
  \<open>.red/config.yaml\<close> is read as a small block-style YAML into dotted keys, folded over the
  built-in defaults when the project opted in, and overridden by the environment.

  A string-keyed object is the list of its entries in insertion order; an assignment to an
  existing key keeps its place. A malformed document is the error value of the parser. The
  file reader, the warning sink and the path resolver are not modelled: the text read is a
  parameter, and a warning is part of the result.
\<close>

section \<open>Defaults\<close>

type_synonym EngineConfigValues = "(string \<times> string) list"

definition ENGINE_CONFIG_DEFAULTS :: EngineConfigValues where
  "ENGINE_CONFIG_DEFAULTS =
     [(''afk.default_runner'', ''claude''),
      (''afk.sandbox'', ''none''),
      (''afk.max_iterations'', ''12''),
      (''afk.worktree_launches_pull_request'', ''true''),
      (''afk.claim_reaper.refresh_s'', ''300''),
      (''afk.claim_reaper.stale_tolerance'', ''3''),
      (''afk.claim_reaper.grace_s'', ''300''),
      (''afk.claim_reaper.recent_commit_s'', ''2700''),
      (''afk.validation.node_max_old_space_mb'', ''2048''),
      (''afk.validation.vitest_max_workers'', ''1''),
      (''afk.validation.heavy_available_memory_mb'', ''4096''),
      (''afk.labels.ready'', ''ready-for-agent''),
      (''afk.labels.running'', ''running''),
      (''afk.labels.human'', ''ready-for-human''),
      (''afk.labels.dependency_blocked'', ''blocked:dependency''),
      (''afk.labels.needs_triage'', ''needs-triage''),
      (''afk.labels.needs_info'', ''needs-info''),
      (''afk.labels.quarantine'', ''quarantine''),
      (''afk.labels.blocked_prefix'', ''blocked:''),
      (''afk.labels.req_prefix'', ''req:'')]"

definition RED_AFK_ENV_ACCESSORS :: "(string \<times> string) list" where
  "RED_AFK_ENV_ACCESSORS =
     [(''RED_AFK_RUNNER'', ''afk.default_runner''),
      (''RED_AFK_SANDBOX'', ''afk.sandbox''),
      (''RED_AFK_MAX_ITERATIONS'', ''afk.max_iterations''),
      (''RED_AFK_CLAIM_REFRESH_S'', ''afk.claim_reaper.refresh_s''),
      (''RED_AFK_CLAIM_STALE_TOLERANCE'', ''afk.claim_reaper.stale_tolerance''),
      (''RED_AFK_CLAIM_REAPER_GRACE_S'', ''afk.claim_reaper.grace_s''),
      (''RED_AFK_CLAIM_REAPER_RECENT_COMMIT_S'', ''afk.claim_reaper.recent_commit_s'')]"

definition DELETED_CONFIG_KEYS :: "string list" where
  "DELETED_CONFIG_KEYS =
     [''afk.attempt_timeout'', ''plugins.dev.afk.attempt_timeout'',
      ''afk.statusline_cache_ttl'', ''plugins.dev.afk.statusline_cache_ttl'']"

section \<open>The block parser\<close>

datatype MalformedEngineConfigError = MalformedEngineConfigError

definition dquote :: char where "dquote = CHR 0x22"
definition squote :: char where "squote = CHR 0x27"
definition backslash :: char where "backslash = CHR 0x5C"

text \<open>The scan carries the previous character and the open quote.\<close>

fun strip_comment :: "char option \<Rightarrow> char option \<Rightarrow> string \<Rightarrow> string" where
  "strip_comment prev quote [] = []"
| "strip_comment prev quote (c # cs) =
     (if (c = dquote \<or> c = squote) \<and> prev \<noteq> Some backslash
      then c # strip_comment (Some c)
                 (if quote = Some c then None else (case quote of None \<Rightarrow> Some c | Some q \<Rightarrow> Some q)) cs
      else if c = CHR ''#'' \<and> quote = None then []
      else c # strip_comment (Some c) quote cs)"

definition stripCommentOutsideQuotes :: "string \<Rightarrow> string" where
  "stripCommentOutsideQuotes s = strip_comment None None s"

definition unquoteScalar :: "string \<Rightarrow> MalformedEngineConfigError + string" where
  "unquoteScalar v =
     (if v \<noteq> [] \<and> (hd v = dquote \<or> hd v = squote)
      then if last v \<noteq> hd v \<or> length v < 2 then Inl MalformedEngineConfigError
           else Inr (butlast (tl v))
      else Inr v)"

text \<open>
  The parser's variables. \<open>y_stack\<close> pairs the arrays \<open>stack\<close> and \<open>indents\<close>, which are pushed and
  popped together, with the innermost entry first.
\<close>

record yaml_state =
  y_out :: EngineConfigValues
  y_stack :: "(string \<times> nat) list"
  y_seq :: "(string \<times> nat) list"

definition ident_start :: "char \<Rightarrow> bool" where
  "ident_start c \<longleftrightarrow>
     (let n = (of_char c :: nat) in 65 \<le> n \<and> n \<le> 90 \<or> 97 \<le> n \<and> n \<le> 122 \<or> n = 95)"

definition ident_char :: "char \<Rightarrow> bool" where
  "ident_char c \<longleftrightarrow> ident_start c \<or> is_digit c \<or> c = CHR ''-''"

text \<open>A line that opens with an identifier and a colon, split there.\<close>

definition key_line :: "string \<Rightarrow> (string \<times> string) option" where
  "key_line rest =
     (if rest \<noteq> [] \<and> ident_start (hd rest)
      then (let key = takeWhile ident_char rest; t = dropWhile ident_char rest in
            if t \<noteq> [] \<and> hd t = CHR '':'' then Some (key, tl t) else None)
      else None)"

definition seq_line :: "string \<Rightarrow> bool" where
  "seq_line rest \<longleftrightarrow>
     rest \<noteq> [] \<and> hd rest = CHR ''-'' \<and> (tl rest = [] \<or> is_ws (hd (tl rest)))"

definition drop_cr :: "string \<Rightarrow> string" where
  "drop_cr s = (if s \<noteq> [] \<and> last s = CHR 0x0D then butlast s else s)"

definition stack_path :: "(string \<times> nat) list \<Rightarrow> string" where
  "stack_path st = join ''.'' (map fst (rev st))"

definition seq_item :: "yaml_state \<Rightarrow> string \<Rightarrow> MalformedEngineConfigError + yaml_state" where
  "seq_item s item =
     (if y_stack s = [] \<or> item = [] then Inl MalformedEngineConfigError
      else (let parent = stack_path (y_stack s);
                idx = (case map_of (y_seq s) parent of None \<Rightarrow> 0 | Some i \<Rightarrow> i) in
            case unquoteScalar item of
              Inl e \<Rightarrow> Inl e
            | Inr v \<Rightarrow>
                Inr (s\<lparr>y_seq := obj_set (y_seq s) parent (idx + 1),
                       y_out := obj_set (y_out s) (parent @ ''.'' @ show_nat idx) v\<rparr>)))"

definition key_item :: "yaml_state \<Rightarrow> nat \<Rightarrow> string \<Rightarrow> string \<Rightarrow> MalformedEngineConfigError + yaml_state" where
  "key_item s indent key val =
     (if val = [] then Inr (s\<lparr>y_stack := (key, indent) # y_stack s\<rparr>)
      else (case unquoteScalar val of
              Inl e \<Rightarrow> Inl e
            | Inr v \<Rightarrow>
                Inr (s\<lparr>y_out := obj_set (y_out s)
                         (if y_stack s = [] then key else stack_path (y_stack s) @ ''.'' @ key) v\<rparr>)))"

text \<open>One turn of the loop over the lines.\<close>

definition yaml_line :: "yaml_state \<Rightarrow> string \<Rightarrow> MalformedEngineConfigError + yaml_state" where
  "yaml_line s raw =
     (let stripped = trim_end (stripCommentOutsideQuotes (drop_cr raw)) in
      if trim stripped = [] then Inr s
      else (let indent = length (takeWhile is_ws stripped) in
            if indent mod 2 \<noteq> 0 then Inl MalformedEngineConfigError
            else (let rest = drop indent stripped;
                      s' = s\<lparr>y_stack := dropWhile (\<lambda>(k, i). indent \<le> i) (y_stack s)\<rparr> in
                  if seq_line rest then seq_item s' (dropWhile is_ws (tl rest))
                  else (case key_line rest of
                          None \<Rightarrow> Inl MalformedEngineConfigError
                        | Some (key, v) \<Rightarrow> key_item s' indent key (dropWhile is_ws v)))))"

fun yaml_lines :: "yaml_state \<Rightarrow> string list \<Rightarrow> MalformedEngineConfigError + yaml_state" where
  "yaml_lines s [] = Inr s"
| "yaml_lines s (l # ls) =
     (case yaml_line s l of Inl e \<Rightarrow> Inl e | Inr s' \<Rightarrow> yaml_lines s' ls)"

definition parseEngineConfigYaml :: "string \<Rightarrow> MalformedEngineConfigError + EngineConfigValues" where
  "parseEngineConfigYaml text =
     (case yaml_lines \<lparr>y_out = [], y_stack = [], y_seq = []\<rparr> (split_on (CHR 0x0A) text) of
        Inl e \<Rightarrow> Inl e | Inr s \<Rightarrow> Inr (y_out s))"

section \<open>Folding and loading\<close>

definition PLUGINS_DEV :: string where "PLUGINS_DEV = ''plugins.dev.''"

text \<open>\<open>/^plugins\.dev\.(.+)$/\<close>: the dot matches no line terminator.\<close>

definition dev_accessor :: "string \<Rightarrow> string option" where
  "dev_accessor key =
     (let rest = drop (length PLUGINS_DEV) key in
      if starts_with PLUGINS_DEV key \<and> rest \<noteq> [] \<and> CHR 0x0A \<notin> set rest \<and> CHR 0x0D \<notin> set rest
      then Some (if rest = ''afk'' \<or> starts_with ''afk.'' rest then rest else ''dev.'' @ rest)
      else None)"

definition fold_plain :: "EngineConfigValues \<Rightarrow> string \<times> string \<Rightarrow> EngineConfigValues" where
  "fold_plain vals kv =
     (if fst kv \<in> set DELETED_CONFIG_KEYS then vals else obj_set vals (fst kv) (snd kv))"

definition fold_dev :: "EngineConfigValues \<Rightarrow> string \<times> string \<Rightarrow> EngineConfigValues" where
  "fold_dev vals kv =
     (if fst kv \<in> set DELETED_CONFIG_KEYS then vals
      else (case dev_accessor (fst kv) of None \<Rightarrow> vals | Some acc \<Rightarrow> obj_set vals acc (snd kv)))"

definition foldDevNamespace :: "EngineConfigValues \<Rightarrow> EngineConfigValues \<Rightarrow> EngineConfigValues" where
  "foldDevNamespace vals parsed = foldl fold_dev (foldl fold_plain vals parsed) parsed"

definition env_step ::
    "(string \<Rightarrow> string option) \<Rightarrow> EngineConfigValues \<Rightarrow> string \<times> string \<Rightarrow> EngineConfigValues" where
  "env_step env vals ka =
     (case env (fst ka) of
        None \<Rightarrow> vals
      | Some value \<Rightarrow> if trim value \<noteq> [] then obj_set vals (snd ka) value else vals)"

definition applyEnvOverrides :: "EngineConfigValues \<Rightarrow> (string \<Rightarrow> string option) \<Rightarrow> EngineConfigValues" where
  "applyEnvOverrides vals env = foldl (env_step env) vals RED_AFK_ENV_ACCESSORS"

definition pluginDevEnabled :: "EngineConfigValues \<Rightarrow> bool" where
  "pluginDevEnabled vals \<longleftrightarrow> map_of vals ''plugins.dev.enabled'' = Some ''true''"

record EngineConfig =
  enabled :: bool
  vals :: EngineConfigValues
  malformed_warning :: bool

text \<open>\<open>loadEngineConfig\<close> on the text the reader returned, if any.\<close>

definition loadEngineConfig :: "string option \<Rightarrow> (string \<Rightarrow> string option) \<Rightarrow> EngineConfig" where
  "loadEngineConfig text env =
     (let (parsed, warned) =
            (case text of
               None \<Rightarrow> ([], False)
             | Some t \<Rightarrow> (case parseEngineConfigYaml t of Inl _ \<Rightarrow> ([], True) | Inr p \<Rightarrow> (p, False)));
          on = pluginDevEnabled parsed
      in \<lparr>enabled = on,
          vals = (if on then applyEnvOverrides (foldDevNamespace ENGINE_CONFIG_DEFAULTS parsed) env
                  else ENGINE_CONFIG_DEFAULTS),
          malformed_warning = warned\<rparr>)"

definition config_get :: "EngineConfig \<Rightarrow> string \<Rightarrow> string" where
  "config_get config key = (case map_of (vals config) key of None \<Rightarrow> [] | Some v \<Rightarrow> v)"

text \<open>
  The two readers of indexed lists, \<open>afk.backpressure\<close> and \<open>afk.labels.hitl_types\<close>: indices
  from 0 to the first absent one. The loop makes at most one turn more than the configuration
  has entries, which is the bound given to the recursion.
\<close>

fun indexed_from :: "EngineConfigValues \<Rightarrow> string \<Rightarrow> (string \<Rightarrow> string) \<Rightarrow> nat \<Rightarrow> nat \<Rightarrow> string list" where
  "indexed_from m stem f i 0 = []"
| "indexed_from m stem f i (Suc fuel) =
     (case map_of m (stem @ ''.'' @ show_nat i) of
        None \<Rightarrow> []
      | Some value \<Rightarrow>
          (if trim value \<noteq> [] then [f value] else []) @ indexed_from m stem f (i + 1) fuel)"

definition indexed_or_scalar :: "EngineConfigValues \<Rightarrow> string \<Rightarrow> (string \<Rightarrow> string) \<Rightarrow> string list" where
  "indexed_or_scalar m stem f =
     (let indexed = indexed_from m stem f 0 (Suc (length m)) in
      if length indexed > 0 then indexed
      else (case map_of m stem of
              None \<Rightarrow> []
            | Some scalar \<Rightarrow> if trim scalar \<noteq> [] then [f scalar] else []))"

definition readEngineBackpressure :: "EngineConfig \<Rightarrow> string list" where
  "readEngineBackpressure config = indexed_or_scalar (vals config) ''afk.backpressure'' (\<lambda>v. v)"

definition readEngineHitlTypeLabels :: "EngineConfig \<Rightarrow> string list" where
  "readEngineHitlTypeLabels config = indexed_or_scalar (vals config) ''afk.labels.hitl_types'' trim"

section \<open>Lemmas on objects\<close>

text \<open>
  A loop that assigns every entry to the key an accessor gives it: when one entry alone maps
  to \<open>k\<close>, the loop's value at \<open>k\<close> is that entry's, or the one before the loop.
\<close>

lemma foldl_assign:
  assumes "distinct (map fst ps)" and "\<And>key. acc key = Some k \<longleftrightarrow> key = k0"
  shows "map_of (foldl (\<lambda>m kv. case acc (fst kv) of None \<Rightarrow> m | Some a \<Rightarrow> obj_set m a (snd kv)) m ps) k =
         (case map_of ps k0 of None \<Rightarrow> map_of m k | Some v \<Rightarrow> Some v)"
  using assms(1)
proof (induction ps arbitrary: m)
  case (Cons p ps)
  obtain key v where p: "p = (key, v)" by (cases p)
  show ?case
  proof (cases "key = k0")
    case True
    then have "map_of ps k0 = None" using Cons.prems by (simp add: p map_of_eq_None_iff)
    then show ?thesis using Cons assms(2)[of key] True by (simp add: p)
  next
    case False
    then show ?thesis using Cons assms(2)[of key] by (auto simp: p split: option.splits)
  qed
qed simp

section \<open>The parser's output\<close>

lemma distinct_seq_item:
  "seq_item s item = Inr s' \<Longrightarrow> distinct (map fst (y_out s)) \<Longrightarrow> distinct (map fst (y_out s'))"
  by (auto simp: seq_item_def Let_def intro!: distinct_obj_set split: if_splits sum.splits)

lemma distinct_key_item:
  "key_item s i key v = Inr s' \<Longrightarrow> distinct (map fst (y_out s)) \<Longrightarrow> distinct (map fst (y_out s'))"
  by (auto simp: key_item_def Let_def intro!: distinct_obj_set split: if_splits sum.splits)

lemma distinct_yaml_line:
  "yaml_line s raw = Inr s' \<Longrightarrow> distinct (map fst (y_out s)) \<Longrightarrow> distinct (map fst (y_out s'))"
  by (auto simp: yaml_line_def Let_def dest!: distinct_seq_item distinct_key_item
           split: if_splits option.splits)

lemma distinct_yaml_lines:
  "yaml_lines s ls = Inr s' \<Longrightarrow> distinct (map fst (y_out s)) \<Longrightarrow> distinct (map fst (y_out s'))"
  by (induction s ls rule: yaml_lines.induct) (auto intro: distinct_yaml_line split: sum.splits)

lemma distinct_parsed: "parseEngineConfigYaml t = Inr p \<Longrightarrow> distinct (map fst p)"
  by (auto simp: parseEngineConfigYaml_def split: sum.splits dest: distinct_yaml_lines)

section \<open>Precedence\<close>

lemma fold_plain_lookup:
  assumes "distinct (map fst ps)" and "k \<notin> set DELETED_CONFIG_KEYS"
  shows "map_of (foldl fold_plain m ps) k = (case map_of ps k of None \<Rightarrow> map_of m k | Some v \<Rightarrow> Some v)"
proof -
  have "fold_plain = (\<lambda>m kv. case (if fst kv \<in> set DELETED_CONFIG_KEYS then None else Some (fst kv)) of
                        None \<Rightarrow> m | Some a \<Rightarrow> obj_set m a (snd kv))"
    by (intro ext) (simp add: fold_plain_def)
  moreover have "(if key \<in> set DELETED_CONFIG_KEYS then None else Some key) = Some k \<longleftrightarrow> key = k" for key
    using assms(2) by auto
  ultimately show ?thesis
    using foldl_assign[of ps "\<lambda>key. if key \<in> set DELETED_CONFIG_KEYS then None else Some key" k k m] assms(1)
    by simp
qed

lemma dev_accessor_afk:
  assumes "starts_with ''afk.'' k" and "CHR 0x0A \<notin> set k" and "CHR 0x0D \<notin> set k"
  shows "dev_accessor key = Some k \<longleftrightarrow> key = PLUGINS_DEV @ k"
proof
  assume *: "dev_accessor key = Some k"
  then have sw: "starts_with PLUGINS_DEV key" by (auto simp: dev_accessor_def Let_def split: if_splits)
  have "drop (length PLUGINS_DEV) key = k"
    using * assms(1) by (auto simp: dev_accessor_def Let_def starts_with_def split: if_splits)
  then show "key = PLUGINS_DEV @ k" using drop_starts_with[OF sw] by simp
next
  assume "key = PLUGINS_DEV @ k"
  moreover have "k \<noteq> []" using assms(1) by (auto simp: starts_with_def)
  ultimately show "dev_accessor key = Some k" using assms by (simp add: dev_accessor_def)
qed

lemma fold_dev_lookup:
  assumes "distinct (map fst ps)" and "starts_with ''afk.'' k"
    and "CHR 0x0A \<notin> set k" and "CHR 0x0D \<notin> set k" and "PLUGINS_DEV @ k \<notin> set DELETED_CONFIG_KEYS"
  shows "map_of (foldl fold_dev m ps) k =
         (case map_of ps (PLUGINS_DEV @ k) of None \<Rightarrow> map_of m k | Some v \<Rightarrow> Some v)"
proof -
  let ?acc = "\<lambda>key. if key \<in> set DELETED_CONFIG_KEYS then None else dev_accessor key"
  have "fold_dev = (\<lambda>m kv. case ?acc (fst kv) of None \<Rightarrow> m | Some a \<Rightarrow> obj_set m a (snd kv))"
    by (intro ext) (simp add: fold_dev_def)
  moreover have "?acc key = Some k \<longleftrightarrow> key = PLUGINS_DEV @ k" for key
    using dev_accessor_afk[OF assms(2-4)] assms(5) by auto
  ultimately show ?thesis using foldl_assign[of ps ?acc k "PLUGINS_DEV @ k" m] assms(1) by simp
qed

text \<open>The environment's word on a key, if it has one.\<close>

definition env_override :: "(string \<Rightarrow> string option) \<Rightarrow> string \<Rightarrow> string option" where
  "env_override env k =
     (case map_of (map (\<lambda>(e, a). (a, e)) RED_AFK_ENV_ACCESSORS) k of
        None \<Rightarrow> None
      | Some e \<Rightarrow> (case env e of None \<Rightarrow> None | Some v \<Rightarrow> if trim v \<noteq> [] then Some v else None))"

lemma foldl_env:
  assumes "distinct (map snd as)"
  shows "map_of (foldl (env_step env) m as) k =
         (case map_of (map (\<lambda>(e, a). (a, e)) as) k of
            None \<Rightarrow> map_of m k
          | Some e \<Rightarrow> (case env e of None \<Rightarrow> map_of m k
                      | Some v \<Rightarrow> if trim v \<noteq> [] then Some v else map_of m k))"
  using assms
proof (induction as arbitrary: m)
  case (Cons p as)
  obtain e a where p: "p = (e, a)" by (cases p)
  have hit: "map_of (env_step env m (e, a)) k = map_of m k" if "k \<noteq> a"
    using that by (auto simp: env_step_def split: option.splits)
  show ?case
  proof (cases "k = a")
    case True
    then have "map_of (map (\<lambda>(e, a). (a, e)) as) k = None"
      using Cons.prems by (auto simp: p map_of_eq_None_iff image_iff case_prod_beta)
    then show ?thesis using Cons True by (auto simp: p env_step_def split: option.splits)
  next
    case False
    then show ?thesis using Cons hit[OF False] by (simp add: p split: option.splits)
  qed
qed simp

lemma env_lookup:
  "map_of (applyEnvOverrides m env) k =
     (case env_override env k of None \<Rightarrow> map_of m k | Some v \<Rightarrow> Some v)"
proof -
  have "distinct (map snd RED_AFK_ENV_ACCESSORS)" by code_simp
  from foldl_env[OF this, of env m k] show ?thesis
    unfolding applyEnvOverrides_def env_override_def by (auto split: option.splits)
qed

section \<open>Indexed lists\<close>

lemma indexed_keys_bound:
  assumes "\<And>j. j < n \<Longrightarrow> map_of m (stem @ ''.'' @ show_nat j) \<noteq> None"
  shows "n \<le> length m"
proof -
  let ?f = "\<lambda>j. stem @ ''.'' @ show_nat j"
  have "inj_on ?f {..<n}" by (auto simp: inj_on_def show_nat_inj)
  then have "n = card (?f ` {..<n})" by (simp add: card_image)
  also have "\<dots> \<le> card (fst ` set m)"
    using assms by (intro card_mono) (auto simp: map_of_eq_None_iff)
  also have "\<dots> \<le> length m" using card_image_le[of "set m" fst] card_length[of m] by simp
  finally show ?thesis .
qed

lemma indexed_from_run:
  assumes "\<And>j. j < n \<Longrightarrow> map_of m (stem @ ''.'' @ show_nat (i + j)) = Some (xs j)"
    and "map_of m (stem @ ''.'' @ show_nat (i + n)) = None" and "n < fuel"
  shows "indexed_from m stem f i fuel = map f (filter (\<lambda>v. trim v \<noteq> []) (map xs [0..<n]))"
  using assms
proof (induction n arbitrary: i fuel xs)
  case 0
  then show ?case by (cases fuel) auto
next
  case (Suc n)
  from Suc.prems(3) obtain fuel' where fuel: "fuel = Suc fuel'" "n < fuel'" by (cases fuel) auto
  have "indexed_from m stem f (i + 1) fuel' =
        map f (filter (\<lambda>v. trim v \<noteq> []) (map (\<lambda>j. xs (Suc j)) [0..<n]))"
  proof (rule Suc.IH)
    show "map_of m (stem @ ''.'' @ show_nat (i + 1 + j)) = Some (xs (Suc j))" if "j < n" for j
      using Suc.prems(1)[of "Suc j"] that by simp
    show "map_of m (stem @ ''.'' @ show_nat (i + 1 + n)) = None"
      using Suc.prems(2) by simp
  qed (rule fuel(2))
  moreover have "map xs [0..<Suc n] = xs 0 # map (\<lambda>j. xs (Suc j)) [0..<n]"
    by (simp add: upt_conv_Cons map_Suc_upt[symmetric] del: upt_Suc)
  moreover have "map_of m (stem @ ''.'' @ show_nat i) = Some (xs 0)" using Suc.prems(1)[of 0] by simp
  ultimately show ?case using fuel(1) by (simp del: upt_Suc)
qed

section \<open>Properties\<close>

text \<open>
  When the project opted in, an \<open>afk.\<close> key is answered by the environment if it speaks of
  the key, else by the \<open>plugins.dev.\<close> spelling in the file, else by the plain spelling, else
  by the built-in default.
\<close>

theorem config_precedence:
  assumes "parseEngineConfigYaml t = Inr parsed" and "pluginDevEnabled parsed"
    and "starts_with ''afk.'' k" and "CHR 0x0A \<notin> set k" and "CHR 0x0D \<notin> set k"
    and "k \<notin> set DELETED_CONFIG_KEYS" and "PLUGINS_DEV @ k \<notin> set DELETED_CONFIG_KEYS"
  shows "map_of (vals (loadEngineConfig (Some t) env)) k =
         (case env_override env k of
            Some v \<Rightarrow> Some v
          | None \<Rightarrow> (case map_of parsed (PLUGINS_DEV @ k) of
                       Some v \<Rightarrow> Some v
                     | None \<Rightarrow> (case map_of parsed k of
                                  Some v \<Rightarrow> Some v
                                | None \<Rightarrow> map_of ENGINE_CONFIG_DEFAULTS k)))"
proof -
  note d = distinct_parsed[OF assms(1)]
  have "vals (loadEngineConfig (Some t) env) =
        applyEnvOverrides (foldDevNamespace ENGINE_CONFIG_DEFAULTS parsed) env"
    using assms(1,2) by (simp add: loadEngineConfig_def)
  then show ?thesis
    by (simp add: foldDevNamespace_def env_lookup fold_dev_lookup[OF d assms(3-5,7)]
        fold_plain_lookup[OF d assms(6)] split: option.splits)
qed

definition sample_yaml :: string where
  "sample_yaml =
     ''plugins:'' @ newline @ ''  dev:'' @ newline @ ''    enabled: true # opt in'' @ newline @
     ''    afk:'' @ newline @ ''      sandbox: '' @ [squote] @ ''bwrap'' @ [squote] @ newline @
     ''      labels:'' @ newline @ ''        hitl_types:'' @ newline @ ''          - type:grill'' @ newline @
     ''          - type:hitl'' @ newline @
     ''afk:'' @ newline @ ''  sandbox: none'' @ newline @ ''  max_iterations: 20'' @ newline"

definition sample_env :: "string \<Rightarrow> string option" where
  "sample_env k = (if k = ''RED_AFK_MAX_ITERATIONS'' then Some ''7'' else None)"

definition sample_parsed :: EngineConfigValues where
  "sample_parsed =
     [(''plugins.dev.enabled'', ''true''), (''plugins.dev.afk.sandbox'', ''bwrap''),
      (''plugins.dev.afk.labels.hitl_types.0'', ''type:grill''),
      (''plugins.dev.afk.labels.hitl_types.1'', ''type:hitl''),
      (''afk.sandbox'', ''none''), (''afk.max_iterations'', ''20'')]"

lemma sample_parse: "parseEngineConfigYaml sample_yaml = Inr sample_parsed"
  by code_simp

theorem config_precedence_witness:
  "map_of (vals (loadEngineConfig (Some sample_yaml) sample_env)) ''afk.sandbox'' = Some ''bwrap''"
  using config_precedence[OF sample_parse, of "''afk.sandbox''" sample_env]
  by (simp add: pluginDevEnabled_def sample_parsed_def starts_with_def DELETED_CONFIG_KEYS_def
      PLUGINS_DEV_def env_override_def RED_AFK_ENV_ACCESSORS_def sample_env_def)

text \<open>
  A list declared under an indexed key is read whole and in order: entries 0 up to the
  first absent index, blank ones left out and the others trimmed, however many there are; the
  scalar spelling counts only when that leaves nothing.
\<close>

theorem hitl_types_read_whole:
  assumes "\<And>j. j < n \<Longrightarrow> map_of (vals c) (''afk.labels.hitl_types.'' @ show_nat j) = Some (xs j)"
    and "map_of (vals c) (''afk.labels.hitl_types.'' @ show_nat n) = None"
    and "\<exists>j < n. trim (xs j) \<noteq> []"
  shows "readEngineHitlTypeLabels c = map trim (filter (\<lambda>v. trim v \<noteq> []) (map xs [0..<n]))"
proof -
  let ?ys = "map trim (filter (\<lambda>v. trim v \<noteq> []) (map xs [0..<n]))"
  have key: "''afk.labels.hitl_types'' @ ''.'' @ t = ''afk.labels.hitl_types.'' @ t" for t by simp
  have "n \<le> length (vals c)"
    by (rule indexed_keys_bound[where stem = "''afk.labels.hitl_types''"])
       (use assms(1) in \<open>fastforce simp: key\<close>)
  then have "indexed_from (vals c) ''afk.labels.hitl_types'' trim 0 (Suc (length (vals c))) = ?ys"
    using assms(1,2) by (intro indexed_from_run) simp_all
  moreover have "?ys \<noteq> []" using assms(3) by (auto simp: filter_empty_conv)
  ultimately show ?thesis
    by (simp add: readEngineHitlTypeLabels_def indexed_or_scalar_def Let_def)
qed

definition hitl_sample :: "nat \<Rightarrow> string" where
  "hitl_sample j = (if j = 0 then ''type:grill'' else ''type:hitl'')"

theorem hitl_types_read_whole_witness:
  "readEngineHitlTypeLabels (loadEngineConfig (Some sample_yaml) sample_env) = [''type:grill'', ''type:hitl'']"
proof -
  let ?c = "loadEngineConfig (Some sample_yaml) sample_env"
  have "map_of (vals ?c) (''afk.labels.hitl_types.'' @ show_nat j) = Some (hitl_sample j)" if "j < 2" for j
  proof -
    have "j = 0 \<or> j = 1" using that by auto
    moreover have "map_of (vals ?c) (''afk.labels.hitl_types.'' @ show_nat 0) = Some (hitl_sample 0)"
      "map_of (vals ?c) (''afk.labels.hitl_types.'' @ show_nat 1) = Some (hitl_sample 1)" by code_simp+
    ultimately show ?thesis by auto
  qed
  moreover have "map_of (vals ?c) (''afk.labels.hitl_types.'' @ show_nat 2) = None" by code_simp
  moreover have "\<exists>j<2. trim (hitl_sample j) \<noteq> []" by (intro exI[of _ 0]) code_simp
  moreover have "map trim (filter (\<lambda>v. trim v \<noteq> []) (map hitl_sample [0..<2])) = [''type:grill'', ''type:hitl'']"
    by code_simp
  ultimately show ?thesis using hitl_types_read_whole[of 2 ?c hitl_sample] by simp
qed

end
