(* ===== verification/State_Transition.thy ===== *)
theory State_Transition
  imports Engine_Config "HOL-Library.Product_Lexorder"
begin

text \<open>
  The single owner of issue state labels: \<open>packages/worker/src/engine/state-transition.ts\<close>,
  with the label vocabulary of \<open>packages/worker/src/engine/config.ts\<close>.

  An issue is the list of its labels in the order the tracker lists them. A JavaScript
  \<open>Set\<close> of labels is the list of its elements in insertion order, which is the order in which
  the planner emits them. A refusal is the left summand of the planner's result, with its
  sentence; the accepted plan is the right one. The tracker the apply step calls is not part
  of this code: it is a parameter that threads its own state.
\<close>

section \<open>Vocabulary and transitions\<close>

record StateTransitionLabels =
  ready :: string
  running :: string
  human :: string
  needsTriage :: string
  needsInfo :: string
  quarantine :: string
  dependencyBlocked :: string
  blockedPrefix :: string
  reqPrefix :: string
  hitlTypes :: "string list option"

datatype StateTransition =
    Queue
  | Park string
  | Human
  | DependencyBlock "int list"
  | Quarantine string
  | NeedsInfo
  | Triage
  | Promote
  | Close

record TransitionPlan =
  p_add :: "string list"
  p_remove :: "string list"
  appendBody :: "string option"

text \<open>Insertion-ordered sets of labels: \<open>new Set\<close> over a sequence of insertions.\<close>

definition set_add :: "string list \<Rightarrow> string \<Rightarrow> string list" where
  "set_add s x = (if x \<in> set s then s else s @ [x])"

definition new_set :: "string list \<Rightarrow> string list" where
  "new_set xs = foldl set_add [] xs"

section \<open>The planner\<close>

definition hitlTypesIn :: "string list \<Rightarrow> StateTransitionLabels \<Rightarrow> string list" where
  "hitlTypesIn current labels =
     filter (\<lambda>type. type \<in> set current) (case hitlTypes labels of None \<Rightarrow> [] | Some ts \<Rightarrow> ts)"

definition stateRoleLabels :: "StateTransitionLabels \<Rightarrow> string list" where
  "stateRoleLabels labels =
     [ready labels, human labels, needsTriage labels, needsInfo labels, quarantine labels,
      dependencyBlocked labels]"

definition stateRolesOf :: "string list \<Rightarrow> StateTransitionLabels \<Rightarrow> string list" where
  "stateRolesOf current labels = filter (\<lambda>role. role \<in> set current) (stateRoleLabels labels)"

definition targetRole :: "StateTransition \<Rightarrow> StateTransitionLabels \<Rightarrow> string list \<Rightarrow> string option" where
  "targetRole t labels current =
     (case t of
        Close \<Rightarrow> None
      | Promote \<Rightarrow> Some (if length (hitlTypesIn current labels) > 0 then human labels else ready labels)
      | Queue \<Rightarrow> Some (ready labels)
      | Park _ \<Rightarrow> Some (human labels)
      | Human \<Rightarrow> Some (human labels)
      | DependencyBlock _ \<Rightarrow> Some (dependencyBlocked labels)
      | Quarantine _ \<Rightarrow> Some (quarantine labels)
      | NeedsInfo \<Rightarrow> Some (needsInfo labels)
      | Triage \<Rightarrow> Some (needsTriage labels))"

text \<open>
  \<open>Number(suffix) || 0\<close> as a key whose lexicographic order is the numeric one: the comparator
  subtracts, and the difference of two equal infinities is \<open>NaN\<close>, which sorts as equal.
\<close>

definition byIssue :: "StateTransitionLabels \<Rightarrow> string \<Rightarrow> int \<times> rat" where
  "byIssue labels l =
     (case Number (drop (length (reqPrefix labels)) l) of
        NaN \<Rightarrow> (0, 0) | Num r \<Rightarrow> (0, r) | PosInf \<Rightarrow> (1, 0) | NegInf \<Rightarrow> (- 1, 0))"

definition sortedReqLabels :: "string list \<Rightarrow> StateTransitionLabels \<Rightarrow> string list" where
  "sortedReqLabels reqLabels labels = sort_key (byIssue labels) reqLabels"

definition req_labels :: "string list \<Rightarrow> StateTransitionLabels \<Rightarrow> string list" where
  "req_labels current labels = filter (starts_with (reqPrefix labels)) current"

text \<open>The three refusals that precede any planning.\<close>

definition request_refusal :: "string list \<Rightarrow> StateTransition \<Rightarrow> StateTransitionLabels \<Rightarrow> string option" where
  "request_refusal current t labels =
     (case t of
        Park reason \<Rightarrow>
          (if starts_with (blockedPrefix labels) reason then None
           else Some (''park reason must be a '' @ blockedPrefix labels @ ''* label, got '' @
                      [CHR 0x22] @ reason @ [CHR 0x22]))
      | DependencyBlock reqs \<Rightarrow>
          (if length reqs = 0 then Some ''dependency-block requires at least one req issue'' else None)
      | Queue \<Rightarrow>
          (if length (req_labels current labels) > 0
           then Some (''queue refused while dependency edges remain ('' @
                      join '', '' (req_labels current labels) @
                      ''); use promote to consume them or clear the edges first'')
           else None)
      | _ \<Rightarrow> None)"

definition blocked_present :: "string list \<Rightarrow> StateTransitionLabels \<Rightarrow> string list" where
  "blocked_present current labels =
     filter (\<lambda>l. starts_with (blockedPrefix labels) l \<and> l \<noteq> dependencyBlocked labels) current"

text \<open>The set \<open>remove\<close> at the end of planning: other roles, \<open>running\<close>, reasons and edges.\<close>

definition planned_remove :: "string list \<Rightarrow> StateTransition \<Rightarrow> StateTransitionLabels \<Rightarrow> string list" where
  "planned_remove current t labels =
     new_set
       (filter (\<lambda>role. Some role \<noteq> targetRole t labels current \<and> role \<in> set current)
          (stateRoleLabels labels) @
        (if running labels \<in> set current then [running labels] else []) @
        (case t of
           Park reason \<Rightarrow> filter (\<lambda>l. l \<noteq> reason) (blocked_present current labels)
         | Promote \<Rightarrow> blocked_present current labels @ sortedReqLabels (req_labels current labels) labels
         | Close \<Rightarrow> blocked_present current labels @ sortedReqLabels (req_labels current labels) labels
         | _ \<Rightarrow> blocked_present current labels))"

text \<open>The set \<open>add\<close>: the target role, the park reason, the new dependency edges.\<close>

definition planned_add :: "string list \<Rightarrow> StateTransition \<Rightarrow> StateTransitionLabels \<Rightarrow> string list" where
  "planned_add current t labels =
     new_set
       ((case targetRole t labels current of
           None \<Rightarrow> []
         | Some target \<Rightarrow> if target \<in> set current then [] else [target]) @
        (case t of
           Park reason \<Rightarrow> (if reason \<in> set current then [] else [reason])
         | DependencyBlock reqs \<Rightarrow>
             filter (\<lambda>l. l \<notin> set current) (map (\<lambda>req. reqPrefix labels @ show_int req) reqs)
         | _ \<Rightarrow> []))"

text \<open>The replayed mutation, which is also what the tracker does with an edit.\<close>

definition replay :: "string list \<Rightarrow> string list \<Rightarrow> string list \<Rightarrow> string list" where
  "replay current remove add = foldl set_add (filter (\<lambda>l. l \<notin> set remove) (new_set current)) add"

definition expected_roles :: "StateTransition \<Rightarrow> nat" where
  "expected_roles t = (if t = Close then 0 else 1)"

definition append_body :: "StateTransition \<Rightarrow> string option" where
  "append_body t =
     (case t of Quarantine diagnosis \<Rightarrow> if trim diagnosis \<noteq> [] then Some diagnosis else None | _ \<Rightarrow> None)"

definition planTransition ::
    "string list \<Rightarrow> StateTransition \<Rightarrow> StateTransitionLabels \<Rightarrow> string + TransitionPlan" where
  "planTransition current t labels =
     (case request_refusal current t labels of
        Some reason \<Rightarrow> Inl reason
      | None \<Rightarrow>
          (let add = planned_add current t labels;
               remove = planned_remove current t labels;
               roles = stateRolesOf (replay current remove add) labels in
           if length roles \<noteq> expected_roles t
           then Inl (''transition would leave '' @ show_nat (length roles) @ '' state roles ('' @
                     (if join '', '' roles = [] then ''none'' else join '', '' roles) @
                     ''), expected '' @ show_nat (expected_roles t))
           else Inr \<lparr>p_add = add, p_remove = remove, appendBody = append_body t\<rparr>))"

section \<open>The apply step\<close>

record IssueEdit =
  e_add :: "string list"
  e_remove :: "string list"
  e_body :: "string option"

record ApplyTransitionResult =
  ok :: bool
  plan :: TransitionPlan

text \<open>
  One tracker edit per plan; the body is read only when the plan appends a diagnosis. The
  tracker's two calls are parameters on its state \<open>'w\<close>.
\<close>

definition applyTransition ::
    "(int \<Rightarrow> IssueEdit \<Rightarrow> 'w \<Rightarrow> bool \<times> 'w) \<Rightarrow> (int \<Rightarrow> 'w \<Rightarrow> string \<times> 'w) \<Rightarrow>
     int \<Rightarrow> TransitionPlan \<Rightarrow> 'w \<Rightarrow> ApplyTransitionResult \<times> 'w" where
  "applyTransition editIssue readBody issue p w =
     (let (body, w1) =
            (case appendBody p of
               None \<Rightarrow> (None, w)
             | Some diagnosis \<Rightarrow>
                 (let (current, w1) = readBody issue w in
                  (Some (trim_end current @ newline @ newline @ diagnosis @ newline), w1)));
          (done, w2) =
            editIssue issue \<lparr>e_add = p_add p, e_remove = p_remove p, e_body = body\<rparr> w1
      in (\<lparr>ok = done, plan = p\<rparr>, w2))"

section \<open>The vocabulary a project declares\<close>

definition readEngineLabelVocabulary :: "EngineConfig \<Rightarrow> StateTransitionLabels" where
  "readEngineLabelVocabulary config =
     \<lparr>ready = config_get config ''afk.labels.ready'',
      running = config_get config ''afk.labels.running'',
      human = config_get config ''afk.labels.human'',
      needsTriage = config_get config ''afk.labels.needs_triage'',
      needsInfo = config_get config ''afk.labels.needs_info'',
      quarantine = config_get config ''afk.labels.quarantine'',
      dependencyBlocked = config_get config ''afk.labels.dependency_blocked'',
      blockedPrefix = config_get config ''afk.labels.blocked_prefix'',
      reqPrefix = config_get config ''afk.labels.req_prefix'',
      hitlTypes = Some (readEngineHitlTypeLabels config)\<rparr>"

text \<open>The vocabulary of a project that declares nothing.\<close>

definition default_vocabulary :: StateTransitionLabels where
  "default_vocabulary = readEngineLabelVocabulary (loadEngineConfig None (\<lambda>_. None))"

section \<open>Well-formed vocabularies and the specified outcome\<close>

text \<open>
  What the planner relies on of an injected vocabulary: the roles and \<open>running\<close> are different
  labels, only the dependency wait is spelt like a blocked reason, no role is spelt like a
  dependency edge, and a reason is never an edge.
\<close>

definition labels_wf :: "StateTransitionLabels \<Rightarrow> bool" where
  "labels_wf L \<longleftrightarrow>
     distinct (running L # stateRoleLabels L) \<and>
     list_all (\<lambda>l. \<not> starts_with (blockedPrefix L) l)
       [running L, ready L, human L, needsTriage L, needsInfo L, quarantine L] \<and>
     list_all (\<lambda>l. \<not> starts_with (reqPrefix L) l) (running L # stateRoleLabels L) \<and>
     \<not> starts_with (blockedPrefix L) (reqPrefix L) \<and> \<not> starts_with (reqPrefix L) (blockedPrefix L)"

definition is_req :: "StateTransitionLabels \<Rightarrow> string \<Rightarrow> bool" where
  "is_req L l \<longleftrightarrow> starts_with (reqPrefix L) l"

definition is_reason :: "StateTransitionLabels \<Rightarrow> string \<Rightarrow> bool" where
  "is_reason L l \<longleftrightarrow> starts_with (blockedPrefix L) l \<and> l \<noteq> dependencyBlocked L"

text \<open>A label the transition has no business with stays.\<close>

definition stays :: "StateTransitionLabels \<Rightarrow> StateTransition \<Rightarrow> string \<Rightarrow> bool" where
  "stays L t l \<longleftrightarrow>
     l \<notin> set (stateRoleLabels L) \<and> l \<noteq> running L \<and> \<not> is_reason L l \<and>
     (t = Promote \<or> t = Close \<longrightarrow> \<not> is_req L l)"

text \<open>The role each transition names, written out here beside the code's own table \<open>targetRole\<close>.\<close>

fun roles_after :: "StateTransitionLabels \<Rightarrow> string list \<Rightarrow> StateTransition \<Rightarrow> string set" where
  "roles_after L current Queue = {ready L}"
| "roles_after L current (Park reason) = {human L}"
| "roles_after L current Human = {human L}"
| "roles_after L current (DependencyBlock reqs) = {dependencyBlocked L}"
| "roles_after L current (Quarantine diagnosis) = {quarantine L}"
| "roles_after L current NeedsInfo = {needsInfo L}"
| "roles_after L current Triage = {needsTriage L}"
| "roles_after L current Promote =
     (case hitlTypes L of
        None \<Rightarrow> {ready L}
      | Some types \<Rightarrow> if \<exists>type \<in> set types. type \<in> set current then {human L} else {ready L})"
| "roles_after L current Close = {}"

definition arrives :: "StateTransitionLabels \<Rightarrow> string list \<Rightarrow> StateTransition \<Rightarrow> string set" where
  "arrives L current t =
     roles_after L current t \<union>
     (case t of
        Park reason \<Rightarrow> {reason} - {dependencyBlocked L}
      | DependencyBlock reqs \<Rightarrow> (\<lambda>req. reqPrefix L @ show_int req) ` set reqs
      | _ \<Rightarrow> {})"

text \<open>The labels only the engine writes.\<close>

definition engine_owned :: "StateTransitionLabels \<Rightarrow> string \<Rightarrow> bool" where
  "engine_owned L l \<longleftrightarrow> l \<in> set (stateRoleLabels L) \<or> l = running L \<or> is_reason L l \<or> is_req L l"

definition engine_labels :: "StateTransitionLabels \<Rightarrow> string list \<Rightarrow> string set" where
  "engine_labels L ls = {l \<in> set ls. engine_owned L l}"

text \<open>The requests that name an impossible state.\<close>

definition must_refuse :: "StateTransitionLabels \<Rightarrow> string list \<Rightarrow> StateTransition \<Rightarrow> bool" where
  "must_refuse L current t \<longleftrightarrow>
     (case t of
        Park reason \<Rightarrow>
          \<not> starts_with (blockedPrefix L) reason \<or> (reason = dependencyBlocked L \<and> reason \<notin> set current)
      | DependencyBlock reqs \<Rightarrow> reqs = []
      | Queue \<Rightarrow> \<exists>l \<in> set current. is_req L l
      | _ \<Rightarrow> False)"

definition apply_plan :: "TransitionPlan \<Rightarrow> string list \<Rightarrow> string list" where
  "apply_plan p current = replay current (p_remove p) (p_add p)"

section \<open>Lemmas on the planner\<close>

lemma set_add_set [simp]: "set (set_add s x) = insert x (set s)"
  by (auto simp: set_add_def)

lemma foldl_set_add [simp]: "set (foldl set_add s xs) = set s \<union> set xs"
  by (induction xs arbitrary: s) auto

lemma new_set_set [simp]: "set (new_set xs) = set xs"
  by (simp add: new_set_def)

lemma replay_set [simp]: "set (replay current remove add) = set current - set remove \<union> set add"
  by (auto simp: replay_def)

lemma new_set_distinct [simp]: "distinct (new_set xs)"
proof -
  have "distinct s \<Longrightarrow> distinct (foldl set_add s xs)" for s
    by (induction xs arbitrary: s) (auto simp: set_add_def)
  then show ?thesis by (simp add: new_set_def)
qed

lemma sortedReqLabels_set [simp]: "set (sortedReqLabels ls L) = set ls"
  by (simp add: sortedReqLabels_def)

lemma target_is_role: "set_option (targetRole t L current) \<subseteq> set (stateRoleLabels L)"
  by (auto simp: targetRole_def stateRoleLabels_def split: StateTransition.splits if_splits)

lemma target_roles: "set_option (targetRole t L current) = roles_after L current t"
  by (cases t) (auto simp: targetRole_def hitlTypesIn_def filter_empty_conv split: option.splits)

lemma targetRole_None: "targetRole t L current = None \<longleftrightarrow> t = Close"
  by (auto simp: targetRole_def split: StateTransition.splits)

lemma wf_distinct: "labels_wf L \<Longrightarrow> distinct (stateRoleLabels L)"
  by (simp add: labels_wf_def)

lemma wf_not_reason: "labels_wf L \<Longrightarrow> l \<in> set (running L # stateRoleLabels L) \<Longrightarrow> \<not> is_reason L l"
  by (auto simp: labels_wf_def is_reason_def stateRoleLabels_def)

lemma wf_not_req: "labels_wf L \<Longrightarrow> l \<in> set (running L # stateRoleLabels L) \<Longrightarrow> \<not> is_req L l"
  by (auto simp: labels_wf_def is_req_def list_all_iff)

lemma starts_with_either: "starts_with p s \<Longrightarrow> starts_with q s \<Longrightarrow> starts_with p q \<or> starts_with q p"
  by (auto simp: starts_with_iff append_eq_append_conv2)

lemma wf_req_not_reason: "labels_wf L \<Longrightarrow> is_req L l \<Longrightarrow> \<not> is_reason L l"
  using starts_with_either by (auto simp: labels_wf_def is_req_def is_reason_def)

lemma is_req_edge [simp]: "is_req L (reqPrefix L @ s)"
  by (simp add: is_req_def)

lemma set_blocked_present: "set (blocked_present current L) = {l \<in> set current. is_reason L l}"
  by (auto simp: blocked_present_def is_reason_def)

lemma set_req_labels: "set (req_labels current L) = {l \<in> set current. is_req L l}"
  by (auto simp: req_labels_def is_req_def)

lemmas planner_sets = set_blocked_present set_req_labels

lemma set_removed_modifiers:
  "set (case t of
          Park reason \<Rightarrow> filter (\<lambda>l. l \<noteq> reason) (blocked_present current L)
        | Promote \<Rightarrow> blocked_present current L @ sortedReqLabels (req_labels current L) L
        | Close \<Rightarrow> blocked_present current L @ sortedReqLabels (req_labels current L) L
        | _ \<Rightarrow> blocked_present current L) =
     {l \<in> set current. (is_reason L l \<and> t \<noteq> Park l) \<or> ((t = Promote \<or> t = Close) \<and> is_req L l)}"
  by (cases t) (auto simp: planner_sets)

lemma set_planned_remove:
  "set (planned_remove current t L) =
     {l \<in> set current. (l \<in> set (stateRoleLabels L) \<and> Some l \<noteq> targetRole t L current) \<or> l = running L \<or>
        (is_reason L l \<and> t \<noteq> Park l) \<or> ((t = Promote \<or> t = Close) \<and> is_req L l)}"
  unfolding planned_remove_def new_set_set set_append set_removed_modifiers set_filter by auto

lemma set_planned_add:
  "set (planned_add current t L) =
     (set_option (targetRole t L current) \<union>
      (case t of Park reason \<Rightarrow> {reason}
       | DependencyBlock reqs \<Rightarrow> (\<lambda>req. reqPrefix L @ show_int req) ` set reqs | _ \<Rightarrow> {})) - set current"
  unfolding planned_add_def new_set_set set_append
  by (cases t; cases "targetRole t L current") auto

lemma stateRolesOf_set: "set (stateRolesOf current L) = set (stateRoleLabels L) \<inter> set current"
  by (auto simp: stateRolesOf_def)

definition extras :: "StateTransitionLabels \<Rightarrow> StateTransition \<Rightarrow> string set" where
  "extras L t =
     (case t of
        Park reason \<Rightarrow> {reason} - {dependencyBlocked L}
      | DependencyBlock reqs \<Rightarrow> (\<lambda>req. reqPrefix L @ show_int req) ` set reqs
      | _ \<Rightarrow> {})"

lemma arrives_extras: "arrives L current t = set_option (targetRole t L current) \<union> extras L t"
  by (simp add: arrives_def extras_def target_roles)

lemma extras_kind:
  assumes "\<not> must_refuse L current t" and "x \<in> extras L t"
  shows "(is_reason L x \<and> t = Park x) \<or> (is_req L x \<and> t \<noteq> Promote \<and> t \<noteq> Close)"
  using assms by (cases t) (auto simp: extras_def must_refuse_def is_reason_def)

lemma extras_not_engine:
  assumes "labels_wf L" and "\<not> must_refuse L current t" and "x \<in> extras L t"
  shows "x \<notin> set (running L # stateRoleLabels L)"
  using extras_kind[OF assms(2,3)] wf_not_reason[OF assms(1), of x] wf_not_req[OF assms(1), of x] by blast

lemma park_reason_extra: "is_reason L x \<Longrightarrow> t = Park x \<Longrightarrow> x \<in> extras L t"
  by (simp add: extras_def is_reason_def)

lemma set_planned_add_extras:
  assumes "\<not> must_refuse L current t"
  shows "set (planned_add current t L) = arrives L current t - set current"
  unfolding set_planned_add arrives_extras using assms
  by (cases t) (auto simp: extras_def must_refuse_def)

lemma survives:
  assumes wf: "labels_wf L" and nr: "\<not> must_refuse L current t" and cur: "x \<in> set current"
  shows "x \<notin> set (planned_remove current t L) \<longleftrightarrow> stays L t x \<or> x \<in> arrives L current t"
proof -
  note R = wf_not_reason[OF wf, of x] and Q = wf_not_req[OF wf, of x]
  have target: "x \<in> set (stateRoleLabels L)" if "targetRole t L current = Some x"
    using target_is_role[of t L current] that by simp
  consider (role) "x \<in> set (stateRoleLabels L)" | (run) "x = running L"
    | (reason) "is_reason L x" "x \<notin> set (running L # stateRoleLabels L)"
    | (other) "\<not> is_reason L x" "x \<notin> set (running L # stateRoleLabels L)" by auto
  then show ?thesis
  proof cases
    case role
    moreover have "x \<noteq> running L" using wf role by (auto simp: labels_wf_def)
    moreover have "x \<notin> extras L t" using extras_not_engine[OF wf nr] role by auto
    ultimately show ?thesis using R Q cur
      by (auto simp: set_planned_remove stays_def arrives_extras)
  next
    case run
    moreover have "x \<notin> set (stateRoleLabels L)" using wf run by (auto simp: labels_wf_def)
    moreover have "x \<notin> extras L t" using extras_not_engine[OF wf nr] run by auto
    ultimately show ?thesis using cur target
      by (auto simp: set_planned_remove stays_def arrives_extras)
  next
    case reason
    moreover have "x \<in> extras L t \<longleftrightarrow> t = Park x"
      using extras_kind[OF nr, of x] reason wf_req_not_reason[OF wf, of x] park_reason_extra by blast
    moreover have "\<not> is_req L x" using wf_req_not_reason[OF wf, of x] reason by blast
    ultimately show ?thesis using cur target
      by (auto simp: set_planned_remove stays_def arrives_extras)
  next
    case other
    moreover have "x \<in> extras L t \<Longrightarrow> t \<noteq> Promote \<and> t \<noteq> Close"
      using extras_kind[OF nr, of x] other by blast
    ultimately show ?thesis using cur target
      by (auto simp: set_planned_remove stays_def arrives_extras)
  qed
qed

lemma replay_outcome:
  assumes "labels_wf L" and "\<not> must_refuse L current t"
  shows "set (replay current (planned_remove current t L) (planned_add current t L)) =
         {l \<in> set current. stays L t l} \<union> arrives L current t"
  using survives[OF assms] set_planned_add_extras[OF assms(2)] by auto

lemma outcome_roles:
  assumes wf: "labels_wf L" and nr: "\<not> must_refuse L current t"
    and ls: "set ls = {l \<in> set current. stays L t l} \<union> arrives L current t"
  shows "stateRolesOf ls L = (case targetRole t L current of None \<Rightarrow> [] | Some r \<Rightarrow> [r])"
proof -
  have "role \<in> set ls \<longleftrightarrow> Some role = targetRole t L current" if "role \<in> set (stateRoleLabels L)" for role
    using extras_not_engine[OF wf nr, of role] that by (auto simp: ls arrives_extras stays_def)
  then have "stateRolesOf ls L = filter (\<lambda>role. Some role = targetRole t L current) (stateRoleLabels L)"
    unfolding stateRolesOf_def by (rule filter_cong[OF refl])
  also have "\<dots> = (case targetRole t L current of None \<Rightarrow> [] | Some r \<Rightarrow> [r])"
  proof (cases "targetRole t L current")
    case (Some r)
    then have "r \<in> set (stateRoleLabels L)" using target_is_role[of t L current] by simp
    then show ?thesis
      using filter_singleton_distinct[OF wf_distinct[OF wf], of r] by (simp add: Some)
  qed simp
  finally show ?thesis .
qed

lemma request_refusal_None:
  "\<not> must_refuse L current t \<Longrightarrow> request_refusal current t L = None"
  by (cases t) (auto simp: request_refusal_def must_refuse_def req_labels_def is_req_def filter_empty_conv)

lemma accepted_plan:
  assumes wf: "labels_wf L" and nr: "\<not> must_refuse L current t"
  shows "planTransition current t L =
         Inr \<lparr>p_add = planned_add current t L, p_remove = planned_remove current t L, appendBody = append_body t\<rparr>"
proof -
  have "request_refusal current t L = None" using request_refusal_None nr by blast
  moreover have "length (stateRolesOf (replay current (planned_remove current t L) (planned_add current t L)) L)
                 = expected_roles t"
    using outcome_roles[OF wf nr replay_outcome[OF wf nr]] targetRole_None[of t L current]
    by (cases "targetRole t L current") (auto simp: expected_roles_def)
  ultimately show ?thesis by (simp add: planTransition_def Let_def)
qed

lemma planTransition_Inr:
  "planTransition current t L = Inr p \<Longrightarrow>
     p_add p = planned_add current t L \<and> p_remove p = planned_remove current t L \<and>
     appendBody p = append_body t \<and> length (stateRolesOf (apply_plan p current) L) = expected_roles t"
  by (auto simp: planTransition_def Let_def apply_plan_def split: option.splits if_splits)

lemma two_roles:
  assumes "distinct xs" and "a \<in> set xs" and "b \<in> set xs" and "a \<noteq> b" and "P a" and "P b"
  shows "length (filter P xs) \<noteq> 1"
proof
  assume "length (filter P xs) = 1"
  then obtain x where "filter P xs = [x]" by (cases "filter P xs") auto
  moreover have "a \<in> set (filter P xs)" and "b \<in> set (filter P xs)" using assms by auto
  ultimately show False using assms(4) by simp
qed

lemma refused_request:
  assumes wf: "labels_wf L" and mr: "must_refuse L current t"
  shows "\<exists>reason. planTransition current t L = Inl reason"
proof (cases "request_refusal current t L")
  case None
  then obtain reason where t: "t = Park reason" and dep: "reason = dependencyBlocked L" "reason \<notin> set current"
    using mr by (cases t) (auto simp: must_refuse_def request_refusal_def req_labels_def is_req_def
      filter_empty_conv split: if_splits)
  let ?ls = "replay current (planned_remove current t L) (planned_add current t L)"
  have "human L \<in> set ?ls"
    using wf wf_not_reason[OF wf, of "human L"]
    by (auto simp: t set_planned_add set_planned_remove targetRole_def stateRoleLabels_def labels_wf_def)
  moreover have "dependencyBlocked L \<in> set ?ls"
    using dep by (auto simp: t set_planned_add)
  moreover have "human L \<noteq> dependencyBlocked L" using wf by (auto simp: labels_wf_def stateRoleLabels_def)
  ultimately have "length (stateRolesOf ?ls L) \<noteq> 1"
    unfolding stateRolesOf_def
    by (intro two_roles[OF wf_distinct[OF wf], of "human L" "dependencyBlocked L"])
       (simp_all add: stateRoleLabels_def)
  then show ?thesis using None by (simp add: planTransition_def Let_def t expected_roles_def)
qed (simp add: planTransition_def)

section \<open>The interface the planner's clients rely on\<close>

text \<open>
  A client asks for a transition on the labels it has seen, and performs the edit of an accepted
  plan later, on labels that are still the same as far as the planner is concerned. The contract is
  what an accepted edit establishes; the client's lemma is that a batch of such edits establishes it
  on every issue edited and changes no other.
\<close>

locale label_planner =
  fixes plan_for :: "string list \<Rightarrow> 't \<Rightarrow> 'e + 'p"
    and edit :: "'p \<Rightarrow> string list \<Rightarrow> string list"
    and same :: "string list \<Rightarrow> string list \<Rightarrow> bool"
    and good :: "'t \<Rightarrow> string list \<Rightarrow> string list \<Rightarrow> string list \<Rightarrow> bool"
  assumes plan_good: "plan_for seen t = Inr p \<Longrightarrow> same seen current \<Longrightarrow> good t seen current (edit p current)"
begin

definition run_edits :: "(int \<Rightarrow> string list) \<Rightarrow> (int \<times> 'p) list \<Rightarrow> int \<Rightarrow> string list" where
  "run_edits board es = foldl (\<lambda>b (i, p). b(i := edit p (b i))) board es"

lemma run_edits_frame: "i \<notin> fst ` set es \<Longrightarrow> run_edits board es i = board i"
  unfolding run_edits_def by (induction es arbitrary: board) auto

lemma run_edits_snoc:
  "run_edits board (es @ [(i, p)]) = (run_edits board es)(i := edit p (run_edits board es i))"
  by (simp add: run_edits_def)

lemma run_edits_good:
  assumes "distinct (map fst es)" and "(i, p) \<in> set es" and "plan_for seen t = Inr p" and "same seen (board i)"
  shows "good t seen (board i) (run_edits board es i)"
  using assms
proof (induction es arbitrary: board)
  case (Cons e es)
  obtain j q where e: "e = (j, q)" by (cases e)
  have step: "run_edits board (e # es) = run_edits (board(j := edit q (board j))) es"
    by (simp add: run_edits_def e)
  show ?case
  proof (cases "j = i \<and> q = p")
    case True
    then have "run_edits board (e # es) i = edit p (board i)"
      using Cons.prems(1) unfolding step by (subst run_edits_frame) (auto simp: e)
    then show ?thesis using plan_good[OF Cons.prems(3,4)] by simp
  next
    case False
    then have "(i, p) \<in> set es" "j \<noteq> i" using Cons.prems(1,2) by (auto simp: e image_iff)
    moreover have "distinct (map fst es)" using Cons.prems(1) by simp
    moreover have other: "(board(j := edit q (board j))) i = board i" using \<open>j \<noteq> i\<close> by simp
    ultimately have "good t seen ((board(j := edit q (board j))) i) (run_edits (board(j := edit q (board j))) es i)"
      using Cons.prems(3,4) by (intro Cons.IH) (simp_all only: other)
    then show ?thesis unfolding step other .
  qed
qed simp

end

lemma accepted_outcome:
  assumes "labels_wf L" and "planTransition current t L = Inr p"
  shows "\<not> must_refuse L current t"
    and "set (apply_plan p current) = {l \<in> set current. stays L t l} \<union> arrives L current t"
proof -
  show nr: "\<not> must_refuse L current t" using refused_request[OF assms(1)] assms(2) by force
  show "set (apply_plan p current) = {l \<in> set current. stays L t l} \<union> arrives L current t"
    using replay_outcome[OF assms(1) nr] planTransition_Inr[OF assms(2)] by (simp add: apply_plan_def)
qed

text \<open>What an accepted plan does to labels whose engine part is still what was planned on.\<close>

lemma arrives_owned: "\<not> must_refuse L current t \<Longrightarrow> x \<in> arrives L current t \<Longrightarrow> engine_owned L x"
  using extras_kind[of L current t x] target_is_role[of t L current]
  by (auto simp: arrives_extras engine_owned_def)

lemma removed_owned: "x \<in> set (planned_remove current t L) \<Longrightarrow> engine_owned L x"
  by (auto simp: set_planned_remove engine_owned_def)

lemma stays_unowned: "\<not> engine_owned L x \<Longrightarrow> stays L t x"
  by (auto simp: stays_def engine_owned_def)

lemma accepted_on_same:
  assumes wf: "labels_wf L" and plan: "planTransition seen t L = Inr p"
    and same: "engine_labels L current = engine_labels L seen"
  shows "set (apply_plan p current) = {l \<in> set current. stays L t l} \<union> arrives L seen t"
proof -
  note nr = accepted_outcome(1)[OF wf plan] and P = planTransition_Inr[OF plan]
  have own: "x \<in> set current \<longleftrightarrow> x \<in> set seen" if "engine_owned L x" for x
    using same that by (auto simp: engine_labels_def)
  have "x \<notin> set (planned_remove seen t L) \<longleftrightarrow> stays L t x \<or> x \<in> arrives L seen t" if "x \<in> set current" for x
  proof (cases "engine_owned L x")
    case True
    then show ?thesis using survives[OF wf nr] own that by blast
  next
    case False
    then show ?thesis using removed_owned stays_unowned by blast
  qed
  moreover have "arrives L seen t - set seen = arrives L seen t - set current" using own arrives_owned[OF nr] by blast
  ultimately show ?thesis using P set_planned_add_extras[OF nr] by (auto simp: apply_plan_def)
qed

text \<open>
  What an accepted plan establishes: the role count and, over a well-formed vocabulary, exactly the
  labels that stay and those that arrive.
\<close>

definition settled :: "StateTransitionLabels \<Rightarrow> StateTransition \<Rightarrow> string list \<Rightarrow> string list \<Rightarrow> string list \<Rightarrow> bool" where
  "settled L t seen current ls \<longleftrightarrow>
     length (stateRolesOf ls L) = (if t = Close then 0 else 1) \<and>
     (labels_wf L \<longrightarrow> set ls = {l \<in> set current. stays L t l} \<union> arrives L seen t \<and>
        running L \<notin> set ls \<and> (t = Promote \<or> t = Close \<longrightarrow> (\<forall>l \<in> set ls. \<not> is_req L l)))"

lemma settled_parts:
  assumes "labels_wf L" and "settled L t seen current ls"
  shows "length (stateRolesOf ls L) = (if t = Close then 0 else 1)" and "running L \<notin> set ls"
    and "t = Promote \<or> t = Close \<Longrightarrow> l \<in> set ls \<Longrightarrow> \<not> is_req L l"
    and "set ls = {l \<in> set current. stays L t l} \<union> arrives L seen t"
  using assms unfolding settled_def by blast+

definition same_engine :: "StateTransitionLabels \<Rightarrow> string list \<Rightarrow> string list \<Rightarrow> bool" where
  "same_engine L seen current \<longleftrightarrow> engine_labels L current = engine_labels L seen"

lemma accepted_settled:
  assumes plan: "planTransition seen t L = Inr p" and same: "same_engine L seen current"
  shows "settled L t seen current (apply_plan p current)"
proof -
  note same = same[unfolded same_engine_def]
  have "running L \<notin> set (apply_plan p current) \<and>
        (t = Promote \<or> t = Close \<longrightarrow> (\<forall>l \<in> set (apply_plan p current). \<not> is_req L l))" if wf: "labels_wf L"
  proof -
    note nr = accepted_outcome(1)[OF wf plan] and out = accepted_on_same[OF wf plan same]
    have roles: "l \<in> set (stateRoleLabels L)" if "targetRole t L seen = Some l" for l
      using target_is_role[of t L seen] that by simp
    have "running L \<notin> set (stateRoleLabels L)" using wf by (simp add: labels_wf_def)
    then have "running L \<notin> arrives L seen t"
      using extras_not_engine[OF wf nr, of "running L"] roles by (auto simp: arrives_extras)
    moreover have "\<not> is_req L l" if "t = Promote \<or> t = Close" "l \<in> arrives L seen t" for l
      using that wf_not_req[OF wf, of l] roles by (auto simp: arrives_extras extras_def)
    ultimately show ?thesis unfolding out by (auto simp: stays_def)
  qed
  moreover have "stateRolesOf (apply_plan p current) L = stateRolesOf (apply_plan p seen) L"
    unfolding stateRolesOf_def
  proof (rule filter_cong[OF refl])
    fix role assume "role \<in> set (stateRoleLabels L)"
    then have "role \<in> set current \<longleftrightarrow> role \<in> set seen" using same by (auto simp: engine_labels_def engine_owned_def)
    then show "role \<in> set (apply_plan p current) \<longleftrightarrow> role \<in> set (apply_plan p seen)" by (simp add: apply_plan_def)
  qed
  ultimately show ?thesis
    using planTransition_Inr[OF plan] accepted_on_same[OF _ plan same] by (simp add: settled_def expected_roles_def)
qed

interpretation planner: label_planner "\<lambda>seen t. planTransition seen t L" apply_plan "same_engine L" "settled L" for L
  by unfold_locales (rule accepted_settled)

lemma same_engine_refl [simp]: "same_engine L ls ls"
  by (simp add: same_engine_def)

section \<open>The board\<close>

text \<open>
  The issues of one tracker under any number of writers. A writer plans on the labels of a listing
  and edits later: a pending plan keeps the labels it was made on. An edit may fail. Other writers
  add and remove labels the engine does not own: any label that is no role, reason or edge may come,
  and any label at all may go. In a calm run an edit finds no engine label that its plan has not
  seen; without that condition every edit is a step.
\<close>

type_synonym board_state = "(int \<Rightarrow> string list) \<times> (int \<times> string list \<times> TransitionPlan) list"

inductive board_step :: "StateTransitionLabels \<Rightarrow> bool \<Rightarrow> board_state \<Rightarrow> board_state \<Rightarrow> bool" for L calm where
  planned: "planTransition (b i) t L = Inr p \<Longrightarrow> board_step L calm (b, ps) (b, (i, b i, p) # ps)"
| edited: "(i, seen, p) \<in> set ps \<Longrightarrow> (calm \<Longrightarrow> engine_labels L (b i) \<subseteq> engine_labels L seen) \<Longrightarrow>
    board_step L calm (b, ps) (b(i := apply_plan p (b i)), remove1 (i, seen, p) ps)"
| edit_failed: "board_step L calm (b, ps) (b, remove1 e ps)"
| foreign_add: "l \<notin> set (stateRoleLabels L) \<Longrightarrow> \<not> is_reason L l \<Longrightarrow> \<not> is_req L l \<Longrightarrow>
    board_step L calm (b, ps) (b(i := set_add (b i) l), ps)"
| foreign_remove: "board_step L calm (b, ps) (b(i := filter (\<lambda>x. x \<noteq> l) (b i)), ps)"

text \<open>A coherent issue: at most one role, and a queued one has no blocker and no edge.\<close>

definition coherent :: "StateTransitionLabels \<Rightarrow> string list \<Rightarrow> bool" where
  "coherent L ls \<longleftrightarrow>
     length (stateRolesOf ls L) \<le> 1 \<and>
     (ready L \<in> set ls \<longrightarrow> (\<forall>l \<in> set ls. \<not> is_req L l \<and> \<not> is_reason L l))"

lemma ready_target:
  assumes wf: "labels_wf L" and "ready L \<in> {l \<in> set current. stays L t l} \<union> arrives L current t"
    and nr: "\<not> must_refuse L current t"
  shows "t = Queue \<or> t = Promote"
proof -
  have "ready L \<notin> extras L t" using extras_not_engine[OF wf nr, of "ready L"] by (auto simp: stateRoleLabels_def)
  then have "targetRole t L current = Some (ready L)"
    using assms(2) by (auto simp: stays_def arrives_extras stateRoleLabels_def)
  then show ?thesis using wf
    by (cases t) (auto simp: targetRole_def labels_wf_def stateRoleLabels_def split: if_splits)
qed

lemma transition_coherent:
  assumes wf: "labels_wf L" and plan: "planTransition current t L = Inr p"
  shows "coherent L (apply_plan p current)"
proof -
  note nr = accepted_outcome(1)[OF wf plan] and out = accepted_outcome(2)[OF wf plan]
  have "\<not> is_req L l \<and> \<not> is_reason L l"
    if rd: "ready L \<in> set (apply_plan p current)" and l: "l \<in> set (apply_plan p current)" for l
  proof -
    have t: "t = Queue \<or> t = Promote" using ready_target[OF wf _ nr] rd out by blast
    then have "extras L t = {}" by (auto simp: extras_def)
    then consider "stays L t l" "l \<in> set current" | "l \<in> set (stateRoleLabels L)"
      using l target_is_role[of t L current] unfolding out by (auto simp: arrives_extras)
    then show ?thesis
    proof cases
      case 1
      then show ?thesis using t nr by (auto simp: stays_def must_refuse_def)
    next
      case 2
      then show ?thesis using wf_not_req[OF wf, of l] wf_not_reason[OF wf, of l] by simp
    qed
  qed
  moreover have "length (stateRolesOf (apply_plan p current) L) \<le> 1"
    using planTransition_Inr[OF plan] by (simp add: expected_roles_def)
  ultimately show ?thesis by (simp add: coherent_def)
qed

lemma coherent_engine:
  assumes "coherent L ls" and "engine_labels L ls' \<subseteq> engine_labels L ls"
  shows "coherent L ls'"
proof -
  have own: "x \<in> set ls" if "x \<in> set ls'" "engine_owned L x" for x
    using assms(2) that by (auto simp: engine_labels_def)
  have "length (stateRolesOf ls' L) \<le> length (stateRolesOf ls L)"
    unfolding stateRolesOf_def
  proof -
    have "filter (\<lambda>role. role \<in> set ls') (stateRoleLabels L) =
        filter (\<lambda>role. role \<in> set ls') (filter (\<lambda>role. role \<in> set ls) (stateRoleLabels L))"
      unfolding filter_filter by (rule filter_cong[OF refl]) (use own in \<open>auto simp: engine_owned_def\<close>)
    then show "length (filter (\<lambda>role. role \<in> set ls') (stateRoleLabels L)) \<le>
        length (filter (\<lambda>role. role \<in> set ls) (stateRoleLabels L))" using length_filter_le by metis
  qed
  moreover have "ready L \<in> set ls" if "ready L \<in> set ls'"
    using own that by (auto simp: engine_owned_def stateRoleLabels_def)
  ultimately show ?thesis using assms(1) own unfolding coherent_def engine_owned_def by (meson le_trans)
qed

lemma coherent_subset:
  assumes "coherent L ls" and "set ls' \<subseteq> set ls"
  shows "coherent L ls'"
  by (rule coherent_engine[OF assms(1)]) (use assms(2) in \<open>auto simp: engine_labels_def\<close>)

text \<open>A plan made on other labels leaves no more engine labels than it leaves of those.\<close>

lemma edit_engine:
  "engine_labels L current \<subseteq> engine_labels L seen \<Longrightarrow>
     engine_labels L (apply_plan p current) \<subseteq> engine_labels L (apply_plan p seen)"
  by (auto simp: engine_labels_def apply_plan_def)

lemma coherent_foreign:
  assumes "coherent L ls" and "l \<notin> set (stateRoleLabels L)" "\<not> is_reason L l" "\<not> is_req L l"
  shows "coherent L (set_add ls l)"
proof -
  have "stateRolesOf (set_add ls l) L = stateRolesOf ls L"
    unfolding stateRolesOf_def by (rule filter_cong) (use assms(2) in auto)
  moreover have "ready L \<noteq> l" using assms(2) by (auto simp: stateRoleLabels_def)
  ultimately show ?thesis using assms by (auto simp: coherent_def)
qed

definition coherent_board :: "StateTransitionLabels \<Rightarrow> board_state \<Rightarrow> bool" where
  "coherent_board L s \<longleftrightarrow>
     (\<forall>i. coherent L (fst s i)) \<and> (\<forall>(i, seen, p) \<in> set (snd s). \<exists>t. planTransition seen t L = Inr p)"

lemma board_step_coherent:
  assumes "labels_wf L" and "coherent_board L s" and "board_step L True s s'"
  shows "coherent_board L s'"
  using assms(3,2)
proof cases
  case (edited i seen p ps b)
  then obtain t where "planTransition seen t L = Inr p" using assms(2) by (auto simp: coherent_board_def)
  then have "coherent L (apply_plan p (b i))"
    using coherent_engine[OF transition_coherent[OF assms(1)] edit_engine] edited(4) by blast
  then show ?thesis using assms(2) edited(1,2) set_remove1_subset[of "(i, seen, p)" ps]
    by (auto simp: coherent_board_def)
next
  case (edit_failed b ps e)
  then show ?thesis using assms(2) set_remove1_subset[of e ps] by (auto simp: coherent_board_def)
next
  case (foreign_add l b ps i)
  then show ?thesis using assms(2) coherent_foreign by (simp add: coherent_board_def)
next
  case (foreign_remove b ps i l)
  moreover have "coherent L (filter (\<lambda>x. x \<noteq> l) (b i))"
    using assms(2) foreign_remove by (auto simp: coherent_board_def intro: coherent_subset)
  ultimately show ?thesis using assms(2) by (simp add: coherent_board_def)
qed (auto simp: coherent_board_def)

interpretation board: stepwise_invariant "coherent_board L" "board_step L True"
    "\<lambda>s. labels_wf L \<longrightarrow> coherent_board L s" for L
  by unfold_locales (use board_step_coherent in blast)+

section \<open>Properties\<close>

text \<open>
  C6. On a board that starts coherent, under a well-formed vocabulary, whatever transitions are
  planned and later edited, on whatever issues and in whatever order, whatever edits fail, and
  whatever labels of their own other writers add or remove in between: an issue never carries two
  state roles, and an issue in the executable queue never carries a blocked reason or a dependency
  edge, as long as each edit finds no engine label on its issue that its plan has not seen. What
  happens otherwise is \<open>overlapping_edits_leave_two_roles\<close>.
\<close>

theorem board_stays_coherent:
  assumes "labels_wf L"
    and "\<And>j. length (stateRolesOf (b j) L) \<le> 1 \<and> (ready L \<in> set (b j) \<longrightarrow> (\<forall>l \<in> set (b j). \<not> is_req L l \<and> \<not> is_reason L l))"
    and "(board_step L True)\<^sup>*\<^sup>* (b, []) (b', ps)"
  shows "length (stateRolesOf (b' i) L) \<le> 1 \<and>
         (ready L \<in> set (b' i) \<longrightarrow> (\<forall>l \<in> set (b' i). \<not> is_req L l \<and> \<not> is_reason L l))"
  using board.reachable_inv[of L "(b, [])" "(b', ps)"] assms by (auto simp: coherent_board_def coherent_def)

text \<open>The plans two writers make on one listing, both edited.\<close>

lemma both_edited:
  assumes "planTransition (b i) t L = Inr p" and "planTransition (b i) u L = Inr q" and "p \<noteq> q"
  shows "(board_step L False)\<^sup>*\<^sup>* (b, []) (b(i := apply_plan q (apply_plan p (b i))), [])"
proof -
  let ?e = "(i, b i, p)" and ?f = "(i, b i, q)" and ?b1 = "b(i := apply_plan p (b i))"
  have s1: "board_step L False (b, []) (b, [?e])" and s2: "board_step L False (b, [?e]) (b, [?f, ?e])"
    using assms(1,2) by (auto intro: board_step.planned)
  have s3: "board_step L False (b, [?f, ?e]) (?b1, [?f])"
    using board_step.edited[of i "b i" p "[?f, ?e]" False L b] assms(3) by simp
  have s4: "board_step L False (?b1, [?f]) (b(i := apply_plan q (apply_plan p (b i))), [])"
    using board_step.edited[of i "b i" q "[?f]" False L ?b1] by simp
  have "(board_step L False)\<^sup>*\<^sup>* (b, []) (b, [?f, ?e])" using s1 s2 by (simp add: rtranclp.rtrancl_into_rtrancl)
  from rtranclp.rtrancl_into_rtrancl[OF rtranclp.rtrancl_into_rtrancl[OF this s3] s4] show ?thesis .
qed

text \<open>
  Two writers that plan on the same listing of an issue no engine label is on, for transitions into
  different roles, and then both edit leave it in both roles: nothing between a plan and its edit
  looks at the labels again.
\<close>

theorem overlapping_edits_leave_two_roles:
  assumes "labels_wf L" and "\<forall>l \<in> set (b i). \<not> engine_owned L l"
    and "planTransition (b i) t L = Inr p" and "planTransition (b i) u L = Inr q"
    and "targetRole t L (b i) = Some r" and "targetRole u L (b i) = Some r'" and "r \<noteq> r'"
  shows "\<exists>b'. (board_step L False)\<^sup>*\<^sup>* (b, []) (b', []) \<and> set (stateRolesOf (b' i) L) = {r, r'}"
proof -
  note P = planTransition_Inr[OF assms(3)] planTransition_Inr[OF assms(4)]
    and nr = accepted_outcome(1)[OF assms(1,3)] accepted_outcome(1)[OF assms(1,4)]
  have roles: "r \<in> set (stateRoleLabels L)" "r' \<in> set (stateRoleLabels L)"
    using target_is_role[of t L "b i"] target_is_role[of u L "b i"] assms(5,6) by simp_all
  have fresh: "x \<notin> set (b i)" if "x \<in> set (stateRoleLabels L)" for x
    using assms(2) that by (auto simp: engine_owned_def)
  have add: "x \<in> set (p_add p) \<longleftrightarrow> x = r" "x \<in> set (p_add q) \<longleftrightarrow> x = r'" if "x \<in> set (stateRoleLabels L)" for x
    using that fresh extras_not_engine[OF assms(1) nr(1), of x] extras_not_engine[OF assms(1) nr(2), of x] P
    by (auto simp: set_planned_add_extras[OF nr(1)] set_planned_add_extras[OF nr(2)] arrives_extras assms(5,6))
  have rem: "x \<notin> set (p_remove p)" "x \<notin> set (p_remove q)" if "x \<in> set (stateRoleLabels L)" for x
    using P fresh[OF that] by (auto simp: set_planned_remove)
  have "set (stateRolesOf (apply_plan q (apply_plan p (b i))) L) = {r, r'}"
    unfolding stateRolesOf_set using add rem fresh roles by (auto simp: apply_plan_def)
  moreover have "p \<noteq> q" using add[OF roles(1)] assms(7) by auto
  ultimately show ?thesis using both_edited[where b = b and i = i, OF assms(3,4)] by (intro exI[of _ "b(i := apply_plan q (apply_plan p (b i)))"]) simp
qed


text \<open>
  C17. A request is refused exactly when it names an impossible state: a park whose reason is
  no blocked label or names the dependency wait of an issue that has none, a dependency block
  without a blocker, a queue request while dependency edges remain.
\<close>

theorem refused_exactly:
  assumes "labels_wf L"
  shows "(\<exists>reason. planTransition current t L = Inl reason) \<longleftrightarrow>
         (case t of
            Park reason \<Rightarrow>
              \<not> starts_with (blockedPrefix L) reason \<or> (reason = dependencyBlocked L \<and> reason \<notin> set current)
          | DependencyBlock reqs \<Rightarrow> reqs = []
          | Queue \<Rightarrow> (\<exists>l \<in> set current. starts_with (reqPrefix L) l)
          | _ \<Rightarrow> False)"
proof -
  have "(\<exists>reason. planTransition current t L = Inl reason) \<longleftrightarrow> must_refuse L current t"
    using refused_request[OF assms, of current t] accepted_plan[OF assms, of current t]
    by (cases "must_refuse L current t") auto
  then show ?thesis by (cases t) (simp_all add: must_refuse_def is_req_def)
qed

definition sample_labels :: "string list" where
  "sample_labels = [''spec:12'', ''blocked:dependency'', ''req:7'', ''req:3'', ''running'']"

lemma default_wf: "labels_wf default_vocabulary"
  by code_simp

lemma sample_promote:
  "planTransition sample_labels Promote default_vocabulary =
     Inr \<lparr>p_add = [''ready-for-agent''],
          p_remove = [''blocked:dependency'', ''running'', ''req:3'', ''req:7''], appendBody = None\<rparr>"
  by code_simp

definition sample_board :: "int \<Rightarrow> string list" where
  "sample_board i = (if i = 4 then sample_labels else [])"

lemma sample_board_coherent: "\<forall>i. coherent default_vocabulary (sample_board i)"
proof -
  have "coherent default_vocabulary sample_labels" and "coherent default_vocabulary []" by code_simp+
  then show ?thesis by (simp add: sample_board_def)
qed

theorem board_stays_coherent_witness:
  "\<exists>b'. (board_step default_vocabulary True)\<^sup>*\<^sup>* (sample_board, []) (b', []) \<and> ''ready-for-agent'' \<in> set (b' 4) \<and>
        length (stateRolesOf (b' 4) default_vocabulary) \<le> 1"
proof -
  let ?p = "\<lparr>p_add = [''ready-for-agent''],
             p_remove = [''blocked:dependency'', ''running'', ''req:3'', ''req:7''], appendBody = None\<rparr>"
  let ?b = "sample_board(4 := apply_plan ?p (sample_board 4))"
  have "board_step default_vocabulary True (sample_board, []) (sample_board, [(4, sample_board 4, ?p)])"
    using sample_promote by (intro board_step.planned[of sample_board 4 Promote]) (simp add: sample_board_def)
  moreover have "board_step default_vocabulary True (sample_board, [(4, sample_board 4, ?p)]) (?b, [])"
    using board_step.edited[of 4 "sample_board 4" ?p "[(4, sample_board 4, ?p)]" True default_vocabulary sample_board] by simp
  ultimately have steps: "(board_step default_vocabulary True)\<^sup>*\<^sup>* (sample_board, []) (?b, [])"
    by (meson r_into_rtranclp rtranclp_trans)
  moreover have "''ready-for-agent'' \<in> set (?b 4)" by (simp add: apply_plan_def)
  moreover have "length (stateRolesOf (?b 4) default_vocabulary) \<le> 1"
    using board_stays_coherent[OF default_wf _ steps, of 4] sample_board_coherent by (simp add: coherent_def)
  ultimately show ?thesis by blast
qed

theorem overlapping_edits_leave_two_roles_witness:
  "\<exists>b'. (board_step default_vocabulary False)\<^sup>*\<^sup>* (\<lambda>_. [], []) (b', []) \<and>
     set (stateRolesOf (b' 4) default_vocabulary) = {''ready-for-agent'', ''needs-info''}"
proof -
  have "planTransition [] Queue default_vocabulary = Inr \<lparr>p_add = [''ready-for-agent''], p_remove = [], appendBody = None\<rparr>"
    "planTransition [] NeedsInfo default_vocabulary = Inr \<lparr>p_add = [''needs-info''], p_remove = [], appendBody = None\<rparr>"
    "targetRole Queue default_vocabulary [] = Some ''ready-for-agent''"
    "targetRole NeedsInfo default_vocabulary [] = Some ''needs-info''" by code_simp+
  then show ?thesis using overlapping_edits_leave_two_roles[OF default_wf, of "\<lambda>_. []" 4 Queue _ NeedsInfo] by simp
qed


theorem refused_exactly_witness:
  "\<exists>reason. planTransition sample_labels Queue default_vocabulary = Inl reason"
  unfolding refused_exactly[OF default_wf] by code_simp

text \<open>
  Re-planning is idle: a transition planned again against the labels it left is accepted
  with nothing to add and nothing to remove, so a repeated sweep writes nothing.
\<close>

theorem transition_idempotent:
  assumes "labels_wf L" and "planTransition current t L = Inr p" and "t \<noteq> Park (dependencyBlocked L)"
    and "hitlTypesIn (apply_plan p current) L = hitlTypesIn current L"
  shows "\<exists>q. planTransition (apply_plan p current) t L = Inr q \<and> p_add q = [] \<and> p_remove q = []"
proof -
  let ?ls = "apply_plan p current"
  note wf = assms(1) and out = accepted_outcome[OF assms(1,2)]
  have tgt: "targetRole t L ?ls = targetRole t L current"
    using assms(4) by (simp add: targetRole_def split: StateTransition.splits)
  then have arr: "arrives L ?ls t = arrives L current t" by (simp add: arrives_extras)
  have nr: "\<not> must_refuse L ?ls t"
  proof (cases "t = Queue")
    case True
    then have "ready L \<in> set ?ls" unfolding out(2) by (auto simp: arrives_def)
    then have "\<forall>l \<in> set ?ls. \<not> is_req L l"
      using transition_coherent[OF assms(1,2)] by (auto simp: coherent_def)
    then show ?thesis using True by (simp add: must_refuse_def)
  next
    case False
    then show ?thesis using out(1) assms(3) by (cases t) (auto simp: must_refuse_def)
  qed
  have "set (planned_add ?ls t L) = {}"
    unfolding set_planned_add_extras[OF nr] arr out(2) by blast
  moreover have "set (planned_remove ?ls t L) = {}"
  proof -
    have "x \<notin> set (planned_remove ?ls t L)" if "x \<in> set ?ls" for x
      using survives[OF wf nr that] that unfolding arr out(2) by blast
    then show ?thesis by (auto simp: set_planned_remove)
  qed
  ultimately show ?thesis using accepted_plan[OF wf nr] by simp
qed

theorem transition_idempotent_witness:
  "\<exists>q. planTransition [''spec:12'', ''ready-for-agent''] Promote default_vocabulary = Inr q \<and>
       p_add q = [] \<and> p_remove q = []"
proof -
  let ?p = "\<lparr>p_add = [''ready-for-agent''],
             p_remove = [''blocked:dependency'', ''running'', ''req:3'', ''req:7''], appendBody = None\<rparr>"
  have "apply_plan ?p sample_labels = [''spec:12'', ''ready-for-agent'']" by code_simp
  moreover have "hitlTypesIn [''spec:12'', ''ready-for-agent''] default_vocabulary =
                 hitlTypesIn sample_labels default_vocabulary" by code_simp
  ultimately show ?thesis using transition_idempotent[OF default_wf sample_promote] by simp
qed

text \<open>
  A dependent that carries a type label declared human-only is promoted into the human
  lane: no promotion puts it in the executable queue.
\<close>

theorem human_only_never_queued:
  assumes "labels_wf L" and "hitlTypes L = Some ts" and "type \<in> set ts" and "type \<in> set current"
    and "planTransition current Promote L = Inr p"
  shows "human L \<in> set (apply_plan p current) \<and> ready L \<notin> set (apply_plan p current)"
proof -
  have "hitlTypesIn current L \<noteq> []"
    using assms(2-4) by (auto simp: hitlTypesIn_def filter_empty_conv)
  then have "targetRole Promote L current = Some (human L)" by (simp add: targetRole_def)
  then have "stateRolesOf (apply_plan p current) L = [human L]"
    using outcome_roles[OF assms(1) accepted_outcome[OF assms(1,5)]] by simp
  then have "set (stateRoleLabels L) \<inter> set (apply_plan p current) = {human L}"
    by (metis list.set(1,2) stateRolesOf_set)
  moreover have "ready L \<noteq> human L" using assms(1) by (simp add: labels_wf_def stateRoleLabels_def)
  ultimately show ?thesis by (auto simp: stateRoleLabels_def)
qed

theorem human_only_never_queued_witness:
  "human (default_vocabulary\<lparr>hitlTypes := Some [''type:grill'']\<rparr>) \<in>
     set (apply_plan \<lparr>p_add = [''ready-for-human''], p_remove = [''blocked:dependency'', ''req:3''],
                      appendBody = None\<rparr> [''type:grill'', ''blocked:dependency'', ''req:3''])"
proof -
  let ?L = "default_vocabulary\<lparr>hitlTypes := Some [''type:grill'']\<rparr>"
  have "planTransition [''type:grill'', ''blocked:dependency'', ''req:3''] Promote ?L =
        Inr \<lparr>p_add = [''ready-for-human''], p_remove = [''blocked:dependency'', ''req:3''],
             appendBody = None\<rparr>" by code_simp
  moreover have "labels_wf ?L" by code_simp
  ultimately show ?thesis using human_only_never_queued[of ?L "[''type:grill'']" "''type:grill''"] by simp
qed

text \<open>
  A park whose reason is the dependency wait itself, on an issue that waits, is accepted,
  and the issue ends in the human lane with no reason at all: the label meant to say why is
  removed as a role and not added back.
\<close>

theorem park_loses_reason:
  assumes "labels_wf L" and "starts_with (blockedPrefix L) (dependencyBlocked L)"
    and "dependencyBlocked L \<in> set current"
  shows "\<exists>p. planTransition current (Park (dependencyBlocked L)) L = Inr p \<and>
             human L \<in> set (apply_plan p current) \<and>
             (\<forall>l \<in> set (apply_plan p current). \<not> starts_with (blockedPrefix L) l)"
proof -
  let ?t = "Park (dependencyBlocked L)"
  have nr: "\<not> must_refuse L current ?t" using assms(2,3) by (simp add: must_refuse_def)
  obtain p where p: "planTransition current ?t L = Inr p" using accepted_plan[OF assms(1) nr] by blast
  have "set (apply_plan p current) = {l \<in> set current. stays L ?t l} \<union> {human L}"
    unfolding accepted_outcome(2)[OF assms(1) p] by (simp add: arrives_def targetRole_def)
  moreover have "\<not> starts_with (blockedPrefix L) (human L)" using assms(1) by (simp add: labels_wf_def)
  ultimately show ?thesis using p by (auto simp: stays_def is_reason_def stateRoleLabels_def)
qed

theorem park_loses_reason_witness:
  "\<exists>p. planTransition sample_labels (Park ''blocked:dependency'') default_vocabulary = Inr p \<and>
       ''ready-for-human'' \<in> set (apply_plan p sample_labels) \<and>
       (\<forall>l \<in> set (apply_plan p sample_labels). \<not> starts_with ''blocked:'' l)"
proof -
  have v: "dependencyBlocked default_vocabulary = ''blocked:dependency''"
    "human default_vocabulary = ''ready-for-human''" "blockedPrefix default_vocabulary = ''blocked:''"
    by code_simp+
  show ?thesis
    using park_loses_reason[OF default_wf, of sample_labels]
    unfolding v by (simp add: sample_labels_def starts_with_def)
qed

end
