(* ===== verification/Demand_Park.thy ===== *)
theory Demand_Park
  imports State_Transition
begin

text \<open>
  The demand park: \<open>apps/redskilled/src/demand-park.ts\<close>. A turn whose verdict is terminal moves
  its Ticket out of the executable queue through the planner, with one authorized write.

  The Worker's response and the Ticket are untrusted values. The project's configuration text
  and the environment are parameters, and the gateway that performs the write is a parameter
  that answers or fails. The 800 units kept of the detail are bytes here, which is what the
  source keeps of an ASCII detail.
\<close>

section \<open>Verdicts\<close>

datatype ParkVerdict =
    GateBlocked string "string option"
  | BriefRefused string

definition BRIEF_REFUSAL_STAGE :: string where
  "BRIEF_REFUSAL_STAGE = ''brief''"

definition is_object :: "jsval \<Rightarrow> bool" where
  "is_object v \<longleftrightarrow> is_record v \<or> is_arr v"

definition parkVerdictOf :: "jsval \<Rightarrow> ParkVerdict option" where
  "parkVerdictOf meta =
     (let ticket = get_prop (get_prop meta ''redskills'') ''ticket'' in
      if \<not> is_object ticket then None
      else if get_prop ticket ''outcome'' = JStr ''gate-blocked''
      then Some (GateBlocked
             (case get_prop ticket ''failedStage'' of JStr s \<Rightarrow> s | _ \<Rightarrow> ''feedback'')
             (case get_prop ticket ''detail'' of JStr s \<Rightarrow> Some s | _ \<Rightarrow> None))
      else if get_prop ticket ''outcome'' = JStr ''refused'' \<and>
              get_prop ticket ''stage'' = JStr BRIEF_REFUSAL_STAGE \<and>
              is_nonempty_str (get_prop ticket ''detail'')
      then Some (BriefRefused (str_of (get_prop ticket ''detail'')))
      else None)"

record park_reason =
  pr_reason :: string
  pr_headline :: string
  pr_detail :: "string option"

definition parkReasonFor :: "ParkVerdict \<Rightarrow> string \<Rightarrow> park_reason" where
  "parkReasonFor verdict prefix =
     (case verdict of
        GateBlocked failedStage detail \<Rightarrow>
          \<lparr>pr_reason = prefix @ ''validation'',
           pr_headline = ''the local gate blocked at '' @ ticked failedStage,
           pr_detail = detail\<rparr>
      | BriefRefused detail \<Rightarrow>
          \<lparr>pr_reason = prefix @ ''spec'',
           pr_headline =
             ''this Ticket'' @ [CHR 0x27] @ ''s brief cannot be executed as written, so no Worker claimed it '' @
             ''and no work was done'',
           pr_detail = Some detail\<rparr>)"

section \<open>The write\<close>

text \<open>An authorized \<open>issue-transition\<close> mutation.\<close>

record RedskilledGithubWriteRequest =
  idempotency_key :: string
  w_issue :: int
  w_add :: "string list"
  w_remove :: "string list"
  w_comment :: string

definition detail_block :: "string option \<Rightarrow> string" where
  "detail_block detail =
     (case detail of
        None \<Rightarrow> []
      | Some d \<Rightarrow>
          newline @ newline @ replicate 3 (CHR 0x60) @ newline @ take 800 d @ newline @
          replicate 3 (CHR 0x60))"

definition parkWrite ::
    "StateTransitionLabels \<Rightarrow> int \<Rightarrow> string list \<Rightarrow> string \<Rightarrow> ParkVerdict \<Rightarrow>
     string + RedskilledGithubWriteRequest \<times> string" where
  "parkWrite vocabulary number labels workerId verdict =
     (let parked = parkReasonFor verdict (blockedPrefix vocabulary) in
      case planTransition labels (Park (pr_reason parked)) vocabulary of
        Inl refusal \<Rightarrow> Inl refusal
      | Inr p \<Rightarrow>
          Inr (\<lparr>idempotency_key = ''park:'' @ show_int number @ '':'' @ workerId,
                w_issue = number,
                w_add = p_add p,
                w_remove = p_remove p,
                w_comment =
                  robot @ '' AFK park by worker '' @ ticked workerId @ '': '' @ pr_headline parked @ ''.'' @
                  detail_block (pr_detail parked) @ newline @ newline @
                  ''Requeue with '' @ ticked (''/retake '' @ show_int number) @
                  '' once the blocker is repaired.''\<rparr>,
               ''parked #'' @ show_int number @ '': +['' @ join '', '' (p_add p) @ ''] -['' @
               join '', '' (p_remove p) @ '']''))"

section \<open>The executor\<close>

text \<open>\<open>Number\<close> on an untrusted value; an array is read through its text, so only one of at most
  one element can be a number.\<close>

fun to_number :: "jsval \<Rightarrow> jsnum" where
  "to_number JUndefined = NaN"
| "to_number JNull = Num 0"
| "to_number (JBool b) = Num (if b then 1 else 0)"
| "to_number (JNum x) = x"
| "to_number (JStr s) = Number s"
| "to_number (JArr []) = Num 0"
| "to_number (JArr [v]) =
     (case v of JUndefined \<Rightarrow> Num 0 | JNull \<Rightarrow> Num 0 | JBool _ \<Rightarrow> NaN | JObj _ \<Rightarrow> NaN | _ \<Rightarrow> to_number v)"
| "to_number (JArr (_ # _ # _)) = NaN"
| "to_number (JObj _) = NaN"

definition ticket_labels :: "jsval \<Rightarrow> string list" where
  "ticket_labels ticket =
     (case get_prop ticket ''labels'' of JArr vs \<Rightarrow> map str_of (filter is_str vs) | _ \<Rightarrow> [])"

text \<open>The result is the record of the demand, or the failure of the gateway; with the writes made.\<close>

definition parkTerminalTurn ::
    "(RedskilledGithubWriteRequest \<Rightarrow> 'e option) \<Rightarrow> string option \<Rightarrow> (string \<Rightarrow> string option) \<Rightarrow>
     jsval \<Rightarrow> jsval \<Rightarrow> string \<Rightarrow> ('e + string option) \<times> RedskilledGithubWriteRequest list" where
  "parkTerminalTurn write config env ticket meta workerId =
     (case parkVerdictOf meta of
        None \<Rightarrow> (Inr None, [])
      | Some verdict \<Rightarrow>
          (let n = to_number (get_prop ticket ''number''); number = int_of_num n in
           if \<not> isInteger n \<or> number \<le> 0
           then (Inr (Some (''park refused: the turn'' @ [CHR 0x27] @ ''s ticket names no issue number'')), [])
           else (case parkWrite (readEngineLabelVocabulary (loadEngineConfig config env)) number
                        (ticket_labels ticket) workerId verdict of
                   Inl refusal \<Rightarrow>
                     (Inr (Some (''park refused for #'' @ show_int number @ '': '' @ refusal)), [])
                 | Inr (request, summary) \<Rightarrow>
                     (case write request of
                        Some e \<Rightarrow> (Inl e, [request])
                      | None \<Rightarrow> (Inr (Some summary), [request])))))"

section \<open>Lemmas\<close>

lemma reason_prefixed: "starts_with prefix (pr_reason (parkReasonFor verdict prefix))"
  by (cases verdict) (simp_all add: parkReasonFor_def)

lemma reason_suffix:
  "pr_reason (parkReasonFor verdict prefix) = prefix @ ''validation'' \<or>
   pr_reason (parkReasonFor verdict prefix) = prefix @ ''spec''"
  by (cases verdict) (simp_all add: parkReasonFor_def)

text \<open>A vocabulary under which both park reasons are reasons and not the dependency wait.\<close>

definition parkable :: "StateTransitionLabels \<Rightarrow> bool" where
  "parkable L \<longleftrightarrow>
     labels_wf L \<and> dependencyBlocked L \<noteq> blockedPrefix L @ ''validation'' \<and>
     dependencyBlocked L \<noteq> blockedPrefix L @ ''spec''"

lemma park_accepted:
  assumes "parkable L"
  shows "\<exists>p. planTransition ls (Park (pr_reason (parkReasonFor v (blockedPrefix L)))) L = Inr p"
proof -
  have "\<not> must_refuse L ls (Park (pr_reason (parkReasonFor v (blockedPrefix L))))"
    using assms reason_prefixed reason_suffix[of v "blockedPrefix L"] by (auto simp: must_refuse_def parkable_def)
  then show ?thesis using accepted_plan assms by (auto simp: parkable_def)
qed

lemma parked_labels:
  assumes L: "parkable L" and p: "planTransition ls (Park (pr_reason (parkReasonFor v (blockedPrefix L)))) L = Inr p"
  shows "ready L \<notin> set (apply_plan p ls) \<and> running L \<notin> set (apply_plan p ls) \<and>
         human L \<in> set (apply_plan p ls) \<and>
         pr_reason (parkReasonFor v (blockedPrefix L)) \<in> set (apply_plan p ls)"
proof -
  let ?r = "pr_reason (parkReasonFor v (blockedPrefix L))"
  have wf: "labels_wf L" using L by (simp add: parkable_def)
  have r: "?r \<noteq> dependencyBlocked L" using L reason_suffix[of v "blockedPrefix L"] by (auto simp: parkable_def)
  have out: "set (apply_plan p ls) = {l \<in> set ls. stays L (Park ?r) l} \<union> {human L, ?r}"
    using accepted_outcome(2)[OF wf p] r by (auto simp: arrives_def)
  have "is_reason L ?r" using r reason_prefixed by (simp add: is_reason_def)
  then have "?r \<noteq> ready L" "?r \<noteq> running L"
    using wf_not_reason[OF wf, of ?r] by (auto simp: stateRoleLabels_def)
  moreover have "ready L \<noteq> human L" "running L \<noteq> human L"
    using wf by (auto simp: labels_wf_def stateRoleLabels_def)
  ultimately show ?thesis by (auto simp: out stays_def stateRoleLabels_def)
qed

section \<open>Properties\<close>

text \<open>
  A terminal verdict moves the Ticket out of the queue: for a turn that ended gate-blocked
  or brief-refused on a Ticket with a positive issue number, whatever labels the Ticket
  carries, the executor makes exactly one write, for that issue, and the labels it leaves are
  in the human lane with the verdict's reason and neither queued nor running.
\<close>

theorem terminal_turn_leaves_queue:
  assumes "parkVerdictOf meta = Some verdict"
    and "isInteger (to_number (get_prop ticket ''number''))"
    and "0 < int_of_num (to_number (get_prop ticket ''number''))"
    and "L = readEngineLabelVocabulary (loadEngineConfig config env)" and "parkable L"
  shows "\<exists>request. snd (parkTerminalTurn write config env ticket meta workerId) = [request] \<and>
           w_issue request = int_of_num (to_number (get_prop ticket ''number'')) \<and>
           (let ls = replay (ticket_labels ticket) (w_remove request) (w_add request) in
            ready L \<notin> set ls \<and> running L \<notin> set ls \<and> human L \<in> set ls \<and>
            pr_reason (parkReasonFor verdict (blockedPrefix L)) \<in> set ls)"
proof -
  obtain p where p: "planTransition (ticket_labels ticket)
      (Park (pr_reason (parkReasonFor verdict (blockedPrefix L)))) L = Inr p"
    using park_accepted[OF assms(5)] by blast
  from parked_labels[OF assms(5) p] show ?thesis
    using assms(1-3) p unfolding assms(4)
    by (auto simp: parkTerminalTurn_def parkWrite_def Let_def apply_plan_def split: option.splits)
qed

definition sample_meta :: jsval where
  "sample_meta =
     JObj [(''redskills'', JObj [(''ticket'',
       JObj [(''outcome'', JStr ''refused''), (''stage'', JStr ''brief''), (''detail'', JStr ''no criteria'')])])]"

definition sample_ticket :: jsval where
  "sample_ticket =
     JObj [(''number'', JNum (Num 41)), (''labels'', JArr [JStr ''ready-for-agent'', JNull, JStr ''running''])]"

theorem terminal_turn_leaves_queue_witness:
  "\<exists>request. snd (parkTerminalTurn (\<lambda>_. None :: string option) None (\<lambda>_. None) sample_ticket sample_meta ''w1'') = [request] \<and>
     w_issue request = 41"
proof -
  have "parkVerdictOf sample_meta = Some (BriefRefused ''no criteria'')" by code_simp
  moreover have "to_number (get_prop sample_ticket ''number'') = IntNum 41" by code_simp
  moreover have "parkable (readEngineLabelVocabulary (loadEngineConfig None (\<lambda>_. None)))" by code_simp
  ultimately show ?thesis
    using terminal_turn_leaves_queue[of sample_meta "BriefRefused ''no criteria''" sample_ticket
      "readEngineLabelVocabulary (loadEngineConfig None (\<lambda>_. None))" None "\<lambda>_. None" "\<lambda>_. None" "''w1''"]
    by (metis int_of_num_Int isInteger_Int zero_less_numeral)
qed

end
