(* ===== verification/Dependencies.thy ===== *)
theory Dependencies
  imports State_Transition
begin

text \<open>
  Dependency edges and their promotion: \<open>packages/worker/src/engine/tracker/dependencies.ts\<close>,
  over the tracker port of \<open>tracker/port.ts\<close>.

  The tracker is a service. Its reads are parameters, \<open>None\<close> for a read that fails; its writes
  are the trace of the calls that were performed, and \<open>fails\<close> says which call fails after which
  trace. A failed call ends the operation with the value \<open>None\<close> and the trace so far; a failed
  lookup of a reference for the audit comment has the effect of that comment failing.
\<close>

section \<open>The tracker port\<close>

record TrackerIssue =
  i_number :: int
  i_body :: string
  i_labels :: "string list"

record TrackerIssueReference =
  r_number :: int
  r_title :: "string option"
  r_url :: "string option"

datatype TrackerCall =
    EditIssueLabels int "string list" "string list"
  | EditIssueBody int string
  | CommentOnIssue int string

type_synonym call_faults = "TrackerCall list \<Rightarrow> TrackerCall \<Rightarrow> bool"

text \<open>The labels of the board after the performed calls.\<close>

fun perform :: "(int \<Rightarrow> string list) \<Rightarrow> TrackerCall \<Rightarrow> int \<Rightarrow> string list" where
  "perform b (EditIssueLabels i remove add) = b(i := replay (b i) remove add)"
| "perform b _ = b"

definition board_after :: "(int \<Rightarrow> string list) \<Rightarrow> TrackerCall list \<Rightarrow> int \<Rightarrow> string list" where
  "board_after b calls = foldl perform b calls"

section \<open>Edges\<close>

definition labelForDependency :: "int \<Rightarrow> StateTransitionLabels \<Rightarrow> string" where
  "labelForDependency issue labels = reqPrefix labels @ show_int issue"

text \<open>The escaped prefix followed by decimal digits to the end of the label.\<close>

definition dependency_match :: "StateTransitionLabels \<Rightarrow> string \<Rightarrow> int option" where
  "dependency_match labels l =
     (let ds = drop (length (reqPrefix labels)) l in
      if starts_with (reqPrefix labels) l \<and> ds \<noteq> [] \<and> list_all is_digit ds
      then Some (int (nat_of_digits ds)) else None)"

text \<open>A set of numbers, sorted as it leaves.\<close>

definition sorted_set :: "int list \<Rightarrow> int list" where
  "sorted_set ns = sort (remdups ns)"

definition parseDependencyLabels :: "string list \<Rightarrow> StateTransitionLabels \<Rightarrow> int list" where
  "parseDependencyLabels issueLabels labels =
     sorted_set (List.map_filter (\<lambda>l. dependency_match labels (trim l)) issueLabels)"

text \<open>\<open>/#[0-9]+/g\<close>: the references of one line, from left to right.\<close>

function ref_tokens :: "string \<Rightarrow> int list" where
  "ref_tokens [] = []"
| "ref_tokens (c # cs) =
     (let ds = takeWhile is_digit cs in
      if c = CHR ''#'' \<and> ds \<noteq> [] then int (nat_of_digits ds) # ref_tokens (dropWhile is_digit cs)
      else ref_tokens cs)"
  by pat_completeness auto
termination
  by (relation "measure length") (auto simp: le_imp_less_Suc length_dropWhile_le)

definition BLOCKED_BY :: string where "BLOCKED_BY = ''## Blocked by''"

definition blocked_by_heading :: "string \<Rightarrow> bool" where
  "blocked_by_heading line \<longleftrightarrow>
     starts_with BLOCKED_BY line \<and>
     list_all (\<lambda>c. c = CHR '' '' \<or> c = CHR 0x09) (drop (length BLOCKED_BY) line)"

fun blocked_refs :: "bool \<Rightarrow> string list \<Rightarrow> int list" where
  "blocked_refs inSection [] = []"
| "blocked_refs inSection (line # lines) =
     (if inSection
      then if starts_with ''## '' line then blocked_refs False lines
           else ref_tokens line @ blocked_refs True lines
      else blocked_refs (blocked_by_heading line) lines)"

definition parseBlockedBy :: "string \<Rightarrow> int list" where
  "parseBlockedBy body = sorted_set (blocked_refs False (split_on (CHR 0x0A) body))"

section \<open>Promotion\<close>

record DependencyPromotionPlan =
  d_issue :: int
  d_dependencies :: "int list"
  d_removeLabels :: "string list"
  d_addLabels :: "string list"

definition candidate_dependencies :: "TrackerIssue \<Rightarrow> StateTransitionLabels \<Rightarrow> int list" where
  "candidate_dependencies c labels =
     (let labelDeps = parseDependencyLabels (i_labels c) labels in
      if length labelDeps > 0 then labelDeps else parseBlockedBy (i_body c))"

text \<open>The loop over the dependencies stops at the first one still open.\<close>

fun all_closed :: "(int \<Rightarrow> bool option) \<Rightarrow> int option \<Rightarrow> int list \<Rightarrow> bool option" where
  "all_closed isIssueClosed justClosed [] = Some True"
| "all_closed isIssueClosed justClosed (d # ds) =
     (if Some d = justClosed then all_closed isIssueClosed justClosed ds
      else (case isIssueClosed d of
              None \<Rightarrow> None
            | Some False \<Rightarrow> Some False
            | Some True \<Rightarrow> all_closed isIssueClosed justClosed ds))"

definition promotion_of :: "StateTransitionLabels \<Rightarrow> TrackerIssue \<Rightarrow> DependencyPromotionPlan list" where
  "promotion_of labels c =
     (case planTransition (i_labels c) Promote labels of
        Inl _ \<Rightarrow> []
      | Inr p \<Rightarrow> [\<lparr>d_issue = i_number c, d_dependencies = candidate_dependencies c labels,
                   d_removeLabels = p_remove p, d_addLabels = p_add p\<rparr>])"

fun planPromotions ::
    "TrackerIssue list \<Rightarrow> (int \<Rightarrow> bool option) \<Rightarrow> StateTransitionLabels \<Rightarrow> int option \<Rightarrow>
     DependencyPromotionPlan list option" where
  "planPromotions [] isIssueClosed labels justClosed = Some []"
| "planPromotions (c # cs) isIssueClosed labels justClosed =
     (if dependencyBlocked labels \<notin> set (i_labels c) \<or> candidate_dependencies c labels = []
      then planPromotions cs isIssueClosed labels justClosed
      else (case all_closed isIssueClosed justClosed (candidate_dependencies c labels) of
              None \<Rightarrow> None
            | Some False \<Rightarrow> planPromotions cs isIssueClosed labels justClosed
            | Some True \<Rightarrow>
                map_option (\<lambda>plans. promotion_of labels c @ plans)
                  (planPromotions cs isIssueClosed labels justClosed)))"

definition renderIssueReference :: "TrackerIssueReference \<Rightarrow> string" where
  "renderIssueReference ref =
     (let plain = ''#'' @ show_int (r_number ref) in
      case (r_title ref, r_url ref) of
        (Some title, Some url) \<Rightarrow>
          if title = [] \<or> url = [] then plain
          else ''['' @ title @ '' ('' @ plain @ '')]('' @ url @ '')''
      | _ \<Rightarrow> plain)"

definition dependencyAuditComment :: "(int \<Rightarrow> TrackerIssueReference option) \<Rightarrow> int list \<Rightarrow> string" where
  "dependencyAuditComment lookup dependencies =
     robot @ '' /afk unblocked: all dependencies closed ('' @
     join '', ''
       (map (\<lambda>n. renderIssueReference
                  (case lookup n of None \<Rightarrow> \<lparr>r_number = n, r_title = None, r_url = None\<rparr> | Some r \<Rightarrow> r))
          dependencies) @ '').''"

text \<open>Two calls per plan, the first failure ends the loop.\<close>

fun executePromotions ::
    "call_faults \<Rightarrow> (int \<Rightarrow> TrackerIssueReference option) \<Rightarrow> TrackerCall list \<Rightarrow>
     DependencyPromotionPlan list \<Rightarrow> int list option \<times> TrackerCall list" where
  "executePromotions fails lookup trace [] = (Some [], trace)"
| "executePromotions fails lookup trace (p # ps) =
     (let edit = EditIssueLabels (d_issue p) (d_removeLabels p) (d_addLabels p);
          note = CommentOnIssue (d_issue p) (dependencyAuditComment lookup (d_dependencies p)) in
      if fails trace edit then (None, trace)
      else if fails (trace @ [edit]) note then (None, trace @ [edit])
      else (let (r, t) = executePromotions fails lookup (trace @ [edit, note]) ps in
            (map_option (\<lambda>is. d_issue p # is) r, t)))"

definition promote_listed ::
    "call_faults \<Rightarrow> (int \<Rightarrow> TrackerIssueReference option) \<Rightarrow> (int \<Rightarrow> bool option) \<Rightarrow>
     TrackerIssue list option \<Rightarrow> StateTransitionLabels \<Rightarrow> int option \<Rightarrow> int list option \<times> TrackerCall list" where
  "promote_listed fails lookup isIssueClosed listed labels justClosed =
     (case listed of
        None \<Rightarrow> (None, [])
      | Some candidates \<Rightarrow>
          (case planPromotions candidates isIssueClosed labels justClosed of
             None \<Rightarrow> (None, [])
           | Some plans \<Rightarrow> executePromotions fails lookup [] plans))"

definition executeCloseCascade ::
    "call_faults \<Rightarrow> (int \<Rightarrow> TrackerIssueReference option) \<Rightarrow> (int \<Rightarrow> bool option) \<Rightarrow>
     (string \<Rightarrow> TrackerIssue list option) \<Rightarrow> StateTransitionLabels \<Rightarrow> int \<Rightarrow>
     int list option \<times> TrackerCall list" where
  "executeCloseCascade fails lookup isIssueClosed listOpenIssuesByLabel labels closedIssue =
     promote_listed fails lookup isIssueClosed
       (listOpenIssuesByLabel (labelForDependency closedIssue labels)) labels (Some closedIssue)"

definition executeUnblockSweep ::
    "call_faults \<Rightarrow> (int \<Rightarrow> TrackerIssueReference option) \<Rightarrow> (int \<Rightarrow> bool option) \<Rightarrow>
     (string \<Rightarrow> TrackerIssue list option) \<Rightarrow> StateTransitionLabels \<Rightarrow>
     int list option \<times> TrackerCall list" where
  "executeUnblockSweep fails lookup isIssueClosed listOpenIssuesByLabel labels =
     promote_listed fails lookup isIssueClosed
       (listOpenIssuesByLabel (dependencyBlocked labels)) labels None"

section \<open>Lemmas on edges\<close>

lemma sorted_set_props [simp]:
  "set (sorted_set ns) = set ns" "sorted (sorted_set ns)" "distinct (sorted_set ns)"
  by (simp_all add: sorted_set_def)

lemma set_parseDependencyLabels:
  "set (parseDependencyLabels ls L) = {n. \<exists>l \<in> set ls. dependency_match L (trim l) = Some n}"
  by (simp add: parseDependencyLabels_def set_map_filter)

lemma dependency_match_req: "dependency_match L l = Some n \<Longrightarrow> is_req L l"
  by (auto simp: dependency_match_def is_req_def Let_def split: if_splits)

lemma dependency_match_label: "0 \<le> n \<Longrightarrow> dependency_match L (labelForDependency n L) = Some n"
  by (simp add: dependency_match_def labelForDependency_def show_int_nonneg show_simps)

lemma trim_label:
  assumes "reqPrefix L \<noteq> [] \<longrightarrow> \<not> is_ws (hd (reqPrefix L))" and "0 \<le> n"
  shows "trim (labelForDependency n L) = labelForDependency n L"
proof -
  have d: "\<forall>c \<in> set (show_nat (nat n)). \<not> is_ws c" using show_nat_no_ws by (simp add: list_all_iff)
  then have "\<not> is_ws (hd (show_nat (nat n)))" "\<not> is_ws (last (show_nat (nat n)))" by simp_all
  then show ?thesis
    using assms by (intro trim_id) (auto simp: labelForDependency_def show_int_nonneg hd_append)
qed

section \<open>Lemmas on promotion\<close>

text \<open>An issue the promotion is for: it waits, it names its blockers, and every one is closed.\<close>

definition eligible :: "(int \<Rightarrow> bool option) \<Rightarrow> StateTransitionLabels \<Rightarrow> int option \<Rightarrow> TrackerIssue \<Rightarrow> bool" where
  "eligible isIssueClosed L justClosed c \<longleftrightarrow>
     dependencyBlocked L \<in> set (i_labels c) \<and> candidate_dependencies c L \<noteq> [] \<and>
     (\<forall>d \<in> set (candidate_dependencies c L). Some d = justClosed \<or> isIssueClosed d = Some True)"

lemma all_closed_iff: "all_closed f j ds = Some b \<Longrightarrow> b \<longleftrightarrow> (\<forall>d \<in> set ds. Some d = j \<or> f d = Some True)"
  by (induction f j ds rule: all_closed.induct) (auto split: if_splits option.splits bool.splits)

lemma planPromotions_eligible:
  "planPromotions cs f L j = Some plans \<Longrightarrow>
     plans = concat (map (promotion_of L) (filter (eligible f L j) cs))"
proof (induction cs f L j arbitrary: plans rule: planPromotions.induct)
  case (2 c cs f L j)
  then show ?case
    by (auto simp: eligible_def split: if_splits option.splits bool.splits dest: all_closed_iff)
qed simp

lemma promote_accepted:
  assumes "labels_wf L"
  shows "\<exists>p. planTransition ls Promote L = Inr p"
  using accepted_plan[OF assms, of ls Promote] by (simp add: must_refuse_def)

lemma promotion_of_single:
  assumes "labels_wf L"
  shows "\<exists>p. planTransition (i_labels c) Promote L = Inr p \<and>
             promotion_of L c = [\<lparr>d_issue = i_number c, d_dependencies = candidate_dependencies c L,
                                  d_removeLabels = p_remove p, d_addLabels = p_add p\<rparr>]"
  using promote_accepted[OF assms, of "i_labels c"] by (auto simp: promotion_of_def)

lemma promoted_numbers:
  assumes "labels_wf L"
  shows "map d_issue (concat (map (promotion_of L) cs)) = map i_number cs"
proof (induction cs)
  case (Cons c cs)
  then show ?case using promotion_of_single[OF assms, of c] by auto
qed simp

lemma executePromotions_done:
  "executePromotions fails lookup trace ps = (Some is, t) \<Longrightarrow> is = map d_issue ps"
  by (induction fails lookup trace ps arbitrary: "is" rule: executePromotions.induct)
     (auto simp: Let_def split: if_splits prod.splits)

definition plan_edit :: "DependencyPromotionPlan \<Rightarrow> int \<times> TransitionPlan" where
  "plan_edit p = (d_issue p, \<lparr>p_add = d_addLabels p, p_remove = d_removeLabels p, appendBody = None\<rparr>)"

lemma board_after_append: "board_after b (xs @ ys) = board_after (board_after b xs) ys"
  by (simp add: board_after_def)

text \<open>Whatever fails, the edits performed are a prefix of the planned ones.\<close>

lemma executePromotions_prefix:
  "\<exists>k. board_after b (snd (executePromotions fails lookup trace ps)) =
       planner.run_edits (board_after b trace) (map plan_edit (take k ps))"
proof (induction fails lookup trace ps rule: executePromotions.induct)
  case (1 fails lookup trace)
  then show ?case by (simp add: planner.run_edits_def)
next
  case (2 fails lookup trace p ps)
  let ?edit = "EditIssueLabels (d_issue p) (d_removeLabels p) (d_addLabels p)"
  let ?note = "CommentOnIssue (d_issue p) (dependencyAuditComment lookup (d_dependencies p))"
  have one: "board_after b (trace @ [?edit]) = planner.run_edits (board_after b trace) [plan_edit p]"
    by (simp add: board_after_append board_after_def planner.run_edits_def plan_edit_def apply_plan_def)
  have com: "board_after b (trace @ [?edit, ?note]) = board_after b (trace @ [?edit])"
    by (simp add: board_after_def)
  show ?case
  proof (cases "fails trace ?edit")
    case True
    then show ?thesis by (intro exI[of _ 0]) (simp add: planner.run_edits_def)
  next
    case ok: False
    show ?thesis
    proof (cases "fails (trace @ [?edit]) ?note")
      case True
      then show ?thesis using ok one by (intro exI[of _ 1]) (simp add: Let_def)
    next
      case False
      with 2[OF refl refl ok False] obtain k where
        "board_after b (snd (executePromotions fails lookup (trace @ [?edit, ?note]) ps)) =
         planner.run_edits (board_after b (trace @ [?edit])) (map plan_edit (take k ps))"
        unfolding com by blast
      then show ?thesis using ok False one
        by (intro exI[of _ "Suc k"]) (simp add: Let_def case_prod_beta planner.run_edits_def)
    qed
  qed
qed

lemma planned_edits:
  "(i, q) \<in> set (map plan_edit (concat (map (promotion_of L) cs))) \<Longrightarrow>
     \<exists>c \<in> set cs. i_number c = i \<and> planTransition (i_labels c) Promote L = Inr q"
proof -
  assume "(i, q) \<in> set (map plan_edit (concat (map (promotion_of L) cs)))"
  then obtain c d where cd: "c \<in> set cs" "d \<in> set (promotion_of L c)" "(i, q) = plan_edit d" by auto
  then obtain p where p: "planTransition (i_labels c) Promote L = Inr p"
    by (cases "planTransition (i_labels c) Promote L") (simp_all add: promotion_of_def)
  with cd have c: "c \<in> set cs" "planTransition (i_labels c) Promote L = Inr p" and i: "i = i_number c"
    and q: "q = \<lparr>p_add = p_add p, p_remove = p_remove p, appendBody = None\<rparr>"
    by (simp_all add: promotion_of_def plan_edit_def)
  have "q = p" using planTransition_Inr[OF c(2)] by (simp add: q append_body_def)
  then show ?thesis using c i by blast
qed

lemma fst_plan_edit: "map fst (map plan_edit ps) = map d_issue ps"
  by (simp add: plan_edit_def)

text \<open>After any prefix of the planned edits an issue is as it was, or promoted.\<close>

lemma promotions_all_or_nothing:
  assumes wf: "labels_wf L" and dist: "distinct (map i_number cs)"
    and read: "\<forall>c \<in> set cs. same_engine L (i_labels c) (b (i_number c))"
    and plans: "planPromotions cs f L j = Some plans"
  shows "planner.run_edits b (map plan_edit (take k plans)) i = b i \<or>
         (\<exists>c \<in> set cs. i_number c = i \<and> eligible f L j c \<and>
            settled L Promote (i_labels c) (b i) (planner.run_edits b (map plan_edit (take k plans)) i))"
proof -
  let ?es = "map plan_edit (take k plans)" and ?el = "filter (eligible f L j) cs"
  note plans = planPromotions_eligible[OF plans]
  have "map d_issue plans = map i_number ?el" using promoted_numbers[OF wf] by (simp add: plans)
  then have d: "distinct (map fst ?es)"
    unfolding fst_plan_edit take_map[symmetric] using dist by (simp add: distinct_map_filter)
  show ?thesis
  proof (cases "i \<in> fst ` set ?es")
    case False
    then show ?thesis using planner.run_edits_frame by blast
  next
    case True
    then obtain q where q: "(i, q) \<in> set ?es" by (metis imageE prod.collapse)
    then have "(i, q) \<in> set (map plan_edit plans)" using set_take_subset[of k plans] by auto
    from planned_edits[OF this[unfolded plans]] obtain c where
      c: "c \<in> set ?el" "i_number c = i" "planTransition (i_labels c) Promote L = Inr q" by blast
    have "same_engine L (i_labels c) (b i)" using c read by auto
    from planner.run_edits_good[where board = b, OF d q c(3) this] show ?thesis using c by auto
  qed
qed

lemma planPromotions_total:
  assumes "\<forall>d. f d \<noteq> None"
  shows "\<exists>plans. planPromotions cs f L j = Some plans"
proof -
  have ac: "\<exists>x. all_closed f j ds = Some x" for ds
  proof (induction ds)
    case (Cons d ds)
    obtain y where y: "f d = Some y" using assms by blast
    show ?case using Cons by (cases y) (auto simp: y)
  qed (auto intro: exI[of _ True])
  show ?thesis
  proof (induction cs)
    case (Cons c cs)
    then show ?case using ac[of "candidate_dependencies c L"] by (auto split: bool.splits)
  qed simp
qed

lemma executePromotions_total:
  assumes "\<forall>t c. \<not> fails t c"
  shows "\<exists>is. fst (executePromotions fails lookup trace ps) = Some is"
  using assms by (induction ps arbitrary: trace) (auto simp: Let_def case_prod_beta)

lemma promote_listed_exact:
  assumes wf: "labels_wf L" and "\<forall>d. f d \<noteq> None" and "\<forall>t c. \<not> fails t c"
  shows "fst (promote_listed fails lookup f (Some cs) L j) = Some (map i_number (filter (eligible f L j) cs))"
proof -
  obtain plans where p: "planPromotions cs f L j = Some plans"
    using planPromotions_total[OF assms(2)] by blast
  obtain ns t where e: "executePromotions fails lookup [] plans = (Some ns, t)"
    using executePromotions_total[OF assms(3), of lookup "[]" plans] by (metis prod.collapse)
  have "ns = map i_number (filter (eligible f L j) cs)"
    using executePromotions_done[OF e] promoted_numbers[OF wf] planPromotions_eligible[OF p] by simp
  then show ?thesis by (simp add: promote_listed_def p e)
qed

section \<open>Properties\<close>

text \<open>
  When the tracker answers, both sweeps promote exactly the listed issues that wait on a
  dependency, name at least one blocker, and whose blockers are all closed, counting the issue
  whose close started the cascade; nothing else is promoted and none of these is left behind.
\<close>

theorem sweeps_promote_exactly:
  assumes "labels_wf L" and "\<forall>d. isIssueClosed d \<noteq> None" and "\<forall>t c. \<not> fails t c"
    and "listing (labelForDependency n L) = Some dependents"
    and "listing (dependencyBlocked L) = Some waiting"
  shows "fst (executeCloseCascade fails lookup isIssueClosed listing L n) =
           Some (map i_number (filter (\<lambda>c.
             dependencyBlocked L \<in> set (i_labels c) \<and> candidate_dependencies c L \<noteq> [] \<and>
             (\<forall>d \<in> set (candidate_dependencies c L). Some d = Some n \<or> isIssueClosed d = Some True)) dependents)) \<and>
         fst (executeUnblockSweep fails lookup isIssueClosed listing L) =
           Some (map i_number (filter (\<lambda>c.
             dependencyBlocked L \<in> set (i_labels c) \<and> candidate_dependencies c L \<noteq> [] \<and>
             (\<forall>d \<in> set (candidate_dependencies c L). isIssueClosed d = Some True)) waiting))"
  using promote_listed_exact[OF assms(1-3), of lookup dependents "Some n"]
    promote_listed_exact[OF assms(1-3), of lookup waiting None]
  by (simp add: executeCloseCascade_def executeUnblockSweep_def assms(4,5) eligible_def[abs_def])

text \<open>
  C13. Whichever tracker call fails, an interrupted cascade leaves every issue either exactly as
  it was or fully promoted: its edges, its reasons, its other roles and \<open>running\<close> are gone, every label
  the engine does not own is still there, and its one role is the executable queue or, for an issue
  of a declared human type, the human lane. Only issues that waited on a dependency and whose
  blockers are all closed are promoted. The listed issues are distinct, and between the listing
  and the cascade no one else wrote an engine label of theirs.
\<close>

theorem cascade_all_or_nothing:
  assumes "labels_wf L" and "distinct (map i_number cs)"
    and "\<forall>c \<in> set cs. engine_labels L (b (i_number c)) = engine_labels L (i_labels c)"
    and "listing (labelForDependency n L) = Some cs"
    and "executeCloseCascade fails lookup isIssueClosed listing L n = (r, trace)"
  shows "board_after b trace i = b i \<or>
         (\<exists>c \<in> set cs. i_number c = i \<and> dependencyBlocked L \<in> set (i_labels c) \<and> candidate_dependencies c L \<noteq> [] \<and>
            (\<forall>d \<in> set (candidate_dependencies c L). d = n \<or> isIssueClosed d = Some True) \<and>
            set (board_after b trace i) = {l \<in> set (b i). \<not> engine_owned L l} \<union>
              {if (\<exists>types. hitlTypes L = Some types \<and> (\<exists>type \<in> set types. type \<in> set (i_labels c))) then human L else ready L})"
proof (cases "planPromotions cs isIssueClosed L (Some n)")
  case None
  then have "trace = []" using assms(4,5) by (simp add: executeCloseCascade_def promote_listed_def)
  then show ?thesis by (simp add: board_after_def)
next
  case (Some plans)
  then have "trace = snd (executePromotions fails lookup [] plans)"
    using assms(4,5) by (simp add: executeCloseCascade_def promote_listed_def split: prod.splits)
  then obtain k where k: "board_after b trace = planner.run_edits b (map plan_edit (take k plans))"
    using executePromotions_prefix[of b fails lookup "[]" plans] by (auto simp: board_after_def)
  have same: "\<forall>c \<in> set cs. same_engine L (i_labels c) (b (i_number c))" using assms(3) by (simp add: same_engine_def)
  have promoted: "set ls = {l \<in> set current. \<not> engine_owned L l} \<union>
      {if (\<exists>types. hitlTypes L = Some types \<and> (\<exists>type \<in> set types. type \<in> set seen)) then human L else ready L}"
    if "settled L Promote seen current ls" for seen current ls
  proof -
    have "{l \<in> set current. stays L Promote l} = {l \<in> set current. \<not> engine_owned L l}"
      unfolding stays_def engine_owned_def by auto
    moreover have "arrives L seen Promote =
        {if (\<exists>types. hitlTypes L = Some types \<and> (\<exists>type \<in> set types. type \<in> set seen)) then human L else ready L}"
      unfolding arrives_def by (cases "hitlTypes L") simp_all
    ultimately show ?thesis using settled_parts(4)[OF assms(1) that] by simp
  qed
  from promotions_all_or_nothing[OF assms(1,2) same Some, of k i] show ?thesis
    unfolding k[symmetric]
  proof (rule disjE)
    assume "\<exists>c \<in> set cs. i_number c = i \<and> eligible isIssueClosed L (Some n) c \<and>
      settled L Promote (i_labels c) (b i) (board_after b trace i)"
    then obtain c where c: "c \<in> set cs" "i_number c = i" "eligible isIssueClosed L (Some n) c"
      "settled L Promote (i_labels c) (b i) (board_after b trace i)" by blast
    show ?thesis
      using c(1-3) promoted[OF c(4)] unfolding eligible_def option.inject by blast
  qed simp
qed

text \<open>
  The edges the planner writes are the edges the cascade reads: after a dependency block
  the issue's parsed dependencies are those it had and the blockers of the request.
\<close>

theorem written_edges_are_read:
  assumes "labels_wf L" and "reqPrefix L \<noteq> [] \<longrightarrow> \<not> is_ws (hd (reqPrefix L))"
    and "\<forall>l \<in> insert (dependencyBlocked L) (set current). trim l = l" and "\<forall>n \<in> set reqs. 0 \<le> n"
    and "planTransition current (DependencyBlock reqs) L = Inr p"
  shows "parseDependencyLabels (apply_plan p current) L =
         sort (remdups (parseDependencyLabels current L @ reqs))"
proof -
  let ?D = "DependencyBlock reqs"
  have out: "set (apply_plan p current) =
      {l \<in> set current. stays L ?D l} \<union> {dependencyBlocked L} \<union> (\<lambda>n. labelForDependency n L) ` set reqs"
    unfolding accepted_outcome(2)[OF assms(1,5)]
    by (auto simp: arrives_def labelForDependency_def)
  have keep: "stays L ?D l" if "l \<in> set current" "dependency_match L (trim l) = Some n" for l n
    using that assms(3) dependency_match_req[of L l n] wf_not_req[OF assms(1), of l]
      wf_req_not_reason[OF assms(1), of l] by (auto simp: stays_def)
  have wait: "dependency_match L (trim (dependencyBlocked L)) \<noteq> Some n" for n
    using assms(3) dependency_match_req[of L "dependencyBlocked L" n]
      wf_not_req[OF assms(1), of "dependencyBlocked L"] by (auto simp: stateRoleLabels_def)
  have new: "dependency_match L (trim (labelForDependency n L)) = Some n" if "n \<in> set reqs" for n
    using that assms(4) by (simp add: trim_label[OF assms(2)] dependency_match_label)
  have "n \<in> set (parseDependencyLabels (apply_plan p current) L) \<longleftrightarrow>
        n \<in> set (parseDependencyLabels current L) \<union> set reqs" for n
  proof -
    have "(\<exists>m \<in> set reqs. dependency_match L (trim (labelForDependency m L)) = Some n) \<longleftrightarrow> n \<in> set reqs"
      using new by (metis option.inject)
    moreover have "(\<exists>l \<in> {l \<in> set current. stays L ?D l}. dependency_match L (trim l) = Some n) \<longleftrightarrow>
        (\<exists>l \<in> set current. dependency_match L (trim l) = Some n)"
      using keep by blast
    ultimately show ?thesis
      unfolding set_parseDependencyLabels out mem_Collect_eq Un_iff bex_Un using wait[of n] by blast
  qed
  then have "set (parseDependencyLabels (apply_plan p current) L) = set (parseDependencyLabels current L) \<union> set reqs"
    by blast
  moreover have "sorted (parseDependencyLabels ls L)" "distinct (parseDependencyLabels ls L)" for ls
    by (simp_all add: parseDependencyLabels_def)
  ultimately show ?thesis by (intro sorted_distinct_set_unique) simp_all
qed

text \<open>
  A body whose lines end in carriage return and line feed declares no dependency: the
  heading is not recognised, whatever follows it.
\<close>

theorem crlf_body_has_no_blockers:
  assumes "\<forall>line \<in> set (split_on (CHR 0x0A) body). line \<noteq> [] \<longrightarrow> last line = CHR 0x0D"
  shows "parseBlockedBy body = []"
proof -
  have head: "\<not> blocked_by_heading line" if "line \<noteq> [] \<longrightarrow> last line = CHR 0x0D" for line
  proof
    assume h: "blocked_by_heading line"
    then obtain t where line: "line = BLOCKED_BY @ t" and t: "\<forall>c \<in> set t. c = CHR '' '' \<or> c = CHR 0x09"
      by (auto simp: blocked_by_heading_def starts_with_iff list_all_iff)
    have "last line = CHR ''y'' \<or> last line \<in> set t"
      by (cases "t = []") (simp_all add: line BLOCKED_BY_def)
    moreover have "line \<noteq> []" by (simp add: line BLOCKED_BY_def)
    then have "last line = CHR 0x0D" using that by blast
    ultimately have "CHR 0x0D \<in> set t" by simp
    then show False using t by fastforce
  qed
  have "blocked_refs False lines = []"
    if "\<forall>line \<in> set lines. line \<noteq> [] \<longrightarrow> last line = CHR 0x0D" for lines
    using that head by (induction lines) auto
  then show ?thesis using assms by (simp add: parseBlockedBy_def sorted_set_def)
qed

section \<open>Witnesses\<close>

definition sample_issue :: TrackerIssue where
  "sample_issue = \<lparr>i_number = 4, i_body = ''Blocked'', i_labels = sample_labels\<rparr>"

definition sample_listing :: "string \<Rightarrow> TrackerIssue list option" where
  "sample_listing l = Some [sample_issue]"

definition no_reference :: "int \<Rightarrow> TrackerIssueReference option" where
  "no_reference n = None"

theorem sweeps_promote_exactly_witness:
  "fst (executeCloseCascade (\<lambda>_ _. False) no_reference (\<lambda>d. Some (d = 3)) sample_listing default_vocabulary 7) = Some [4]"
proof -
  have "filter (\<lambda>c. dependencyBlocked default_vocabulary \<in> set (i_labels c) \<and>
           candidate_dependencies c default_vocabulary \<noteq> [] \<and>
           (\<forall>d \<in> set (candidate_dependencies c default_vocabulary). Some d = Some 7 \<or> Some (d = 3) = Some True))
         [sample_issue] = [sample_issue]" by code_simp
  then show ?thesis
    using sweeps_promote_exactly[OF default_wf, of "\<lambda>d. Some (d = 3)" "\<lambda>_ _. False" sample_listing 7
      "[sample_issue]" "[sample_issue]" no_reference]
    by (simp add: sample_listing_def sample_issue_def)
qed

definition comment_fails :: call_faults where
  "comment_fails trace c = (case c of CommentOnIssue _ _ \<Rightarrow> True | _ \<Rightarrow> False)"

theorem cascade_all_or_nothing_witness:
  "set (board_after sample_board
     (snd (executeCloseCascade comment_fails no_reference (\<lambda>d. Some (d = 3)) sample_listing default_vocabulary 7)) 4) =
   {''spec:12'', ''ready-for-agent''}"
proof -
  let ?run = "executeCloseCascade comment_fails no_reference (\<lambda>d. Some (d = 3)) sample_listing default_vocabulary 7"
  have changed: "board_after sample_board (snd ?run) 4 \<noteq> sample_board 4" by code_simp
  have unowned: "{l \<in> set sample_labels. \<not> engine_owned default_vocabulary l} = {''spec:12''}"
  proof -
    have "filter (\<lambda>l. \<not> engine_owned default_vocabulary l) sample_labels = [''spec:12'']" by code_simp
    then show ?thesis by (metis empty_set list.simps(15) set_filter)
  qed
  have role: "(if (\<exists>types. hitlTypes default_vocabulary = Some types \<and> (\<exists>type \<in> set types. type \<in> set sample_labels))
      then human default_vocabulary else ready default_vocabulary) = ''ready-for-agent''"
  proof -
    have "roles_after default_vocabulary sample_labels Promote = {''ready-for-agent''}" by code_simp
    then show ?thesis by (auto split: option.splits if_splits)
  qed
  show ?thesis
    using cascade_all_or_nothing[OF default_wf, of "[sample_issue]" sample_board sample_listing 7
      comment_fails no_reference "\<lambda>d. Some (d = 3)" "fst ?run" "snd ?run" 4] changed
    by (simp add: sample_listing_def sample_issue_def sample_board_def unowned role insert_commute)
qed

theorem written_edges_are_read_witness:
  "parseDependencyLabels [''spec:12'', ''req:7'', ''blocked:dependency'', ''req:3''] default_vocabulary = [3, 7]"
proof -
  let ?p = "\<lparr>p_add = [''blocked:dependency'', ''req:3''], p_remove = [''ready-for-agent''], appendBody = None\<rparr>"
  have "planTransition [''spec:12'', ''req:7'', ''ready-for-agent''] (DependencyBlock [3, 7]) default_vocabulary = Inr ?p"
    by code_simp
  moreover have "apply_plan ?p [''spec:12'', ''req:7'', ''ready-for-agent''] =
      [''spec:12'', ''req:7'', ''blocked:dependency'', ''req:3'']" by code_simp
  moreover have "reqPrefix default_vocabulary \<noteq> [] \<longrightarrow> \<not> is_ws (hd (reqPrefix default_vocabulary))" by code_simp
  moreover have "\<forall>l \<in> insert (dependencyBlocked default_vocabulary) (set [''spec:12'', ''req:7'', ''ready-for-agent'']). trim l = l"
    by code_simp
  moreover have "sort (remdups (parseDependencyLabels [''spec:12'', ''req:7'', ''ready-for-agent''] default_vocabulary @ [3, 7])) = [3, 7]"
    by code_simp
  ultimately show ?thesis
    using written_edges_are_read[OF default_wf, of "[''spec:12'', ''req:7'', ''ready-for-agent'']" "[3, 7]" ?p]
    by (metis (no_types, lifting) empty_iff list.set(1,2) insert_iff zero_le_numeral)
qed

theorem crlf_body_has_no_blockers_witness:
  "parseBlockedBy (BLOCKED_BY @ [CHR 0x0D, CHR 0x0A] @ ''- #12'' @ [CHR 0x0D, CHR 0x0A]) = [] \<and>
   parseBlockedBy (BLOCKED_BY @ [CHR 0x0A] @ ''- #12'' @ [CHR 0x0A]) = [12]"
proof
  show "parseBlockedBy (BLOCKED_BY @ [CHR 0x0D, CHR 0x0A] @ ''- #12'' @ [CHR 0x0D, CHR 0x0A]) = []"
    by (rule crlf_body_has_no_blockers) code_simp
  show "parseBlockedBy (BLOCKED_BY @ [CHR 0x0A] @ ''- #12'' @ [CHR 0x0A]) = [12]" by code_simp
qed

end
