(* ===== verification/Issue_Curator.thy ===== *)
theory Issue_Curator
  imports Dependencies
begin

text \<open>
  The issue curator: \<open>packages/worker/src/engine/issue-state-curator.ts\<close>. A sweep re-checks the
  quarantined issues, releases the coherent ones, parks an issue that failed its check too
  often, and strips the engine state off closed issues.

  The state between sweeps is the object of failed checks. The Park's blocker parser, the
  formatted time, the listings and the tracker's failures are parameters; the store's file
  format is the TOON codec's and is not modelled, its validation is.
\<close>

section \<open>State\<close>

definition ISSUE_CURATOR_RECHECK_LIMIT :: int where
  "ISSUE_CURATOR_RECHECK_LIMIT = 3"

definition ISSUE_CURATOR_CLOSED_RECONCILE_LIMIT :: int where
  "ISSUE_CURATOR_CLOSED_RECONCILE_LIMIT = 25"

record IssueCuratorFailureRecord =
  f_count :: int
  lastCheckedAt :: string

type_synonym IssueCuratorState = "(string \<times> IssueCuratorFailureRecord) list"

definition obj_delete :: "(string \<times> 'a) list \<Rightarrow> string \<Rightarrow> (string \<times> 'a) list" where
  "obj_delete m k = filter (\<lambda>(k', _). k' \<noteq> k) m"

section \<open>Coherence of a quarantined issue\<close>

definition incoherentStateLabels :: "StateTransitionLabels \<Rightarrow> string list" where
  "incoherentStateLabels labels = [ready labels, human labels, running labels, needsTriage labels]"

definition quarantineIncoherence ::
    "TrackerIssue \<Rightarrow> StateTransitionLabels \<Rightarrow> (string \<Rightarrow> bool) \<Rightarrow> string list" where
  "quarantineIncoherence issue labels hasActiveCurrentBlocker =
     (if hasActiveCurrentBlocker (i_body issue) then [''active-current-blocker''] else []) @
     map (\<lambda>l. ''state-label:'' @ l)
       (filter (\<lambda>l. l \<in> set (incoherentStateLabels labels) \<or> starts_with (blockedPrefix labels) l)
          (i_labels issue))"

definition release_marker :: "int \<Rightarrow> string" where
  "release_marker n = ''<!-- afk:quarantine-release v1 issue=#'' @ show_int n @ '' -->''"

definition appendReleaseNote :: "TrackerIssue \<Rightarrow> string \<Rightarrow> string" where
  "appendReleaseNote issue time =
     (let marker = release_marker (i_number issue) in
      if text_includes marker (i_body issue) then i_body issue
      else trim_end (i_body issue) @ newline @ newline @ marker @ newline @ robot @
           '' Quarantine curator auto-released after coherence was restored ('' @ time @ '').'' @ newline)"

section \<open>Reading the stored state\<close>

text \<open>\<open>Object.entries\<close>; the entries of an array are keyed by position.\<close>

fun entries :: "jsval \<Rightarrow> (string \<times> jsval) list" where
  "entries (JObj fs) = fs"
| "entries (JArr vs) = zip (map show_nat [0..<length vs]) vs"
| "entries _ = []"

definition valid_record :: "string \<times> jsval \<Rightarrow> IssueCuratorFailureRecord option" where
  "valid_record kv =
     (let (issue, rec) = kv; cnt = get_prop rec ''count''; seen = get_prop rec ''lastCheckedAt'' in
      if issue = [] \<or> \<not> list_all is_digit issue \<or> \<not> (is_record rec \<or> is_arr rec) then None
      else (case cnt of
              JNum x \<Rightarrow>
                if isSafeInteger x \<and> 1 \<le> int_of_num x \<and> is_str seen
                then Some \<lparr>f_count = int_of_num x, lastCheckedAt = str_of seen\<rparr> else None
            | _ \<Rightarrow> None))"

definition validateState :: "jsval \<Rightarrow> string + IssueCuratorState" where
  "validateState v =
     (if \<not> is_record v then Inl ''issue curator state must be a record''
      else if get_prop v ''version'' \<noteq> JNum (Num 1) \<or>
              \<not> (is_record (get_prop v ''failedChecks'') \<or> is_arr (get_prop v ''failedChecks''))
      then Inl ''issue curator state must be version 1 with failedChecks''
      else Inr (foldl (\<lambda>m (k, rec).
                   case valid_record (k, rec) of None \<Rightarrow> m | Some r \<Rightarrow> obj_set m k r)
                 [] (entries (get_prop v ''failedChecks''))))"

section \<open>The sweep\<close>

record sweep =
  s_failed :: IssueCuratorState
  s_released :: "int list"
  s_parked :: "int list"
  s_trace :: "TrackerCall list"

text \<open>A call in a \<open>try\<close> block: performed, or caught.\<close>

definition label_call :: "int \<Rightarrow> TransitionPlan \<Rightarrow> TrackerCall" where
  "label_call i p = EditIssueLabels i (p_remove p) (p_add p)"

definition release_issue ::
    "call_faults \<Rightarrow> bool \<Rightarrow> StateTransitionLabels \<Rightarrow> string \<Rightarrow> sweep \<Rightarrow> TrackerIssue \<Rightarrow> sweep" where
  "release_issue fails canEditBody labels time s c =
     (case planTransition (i_labels c) Queue labels of
        Inl _ \<Rightarrow> s
      | Inr p \<Rightarrow>
          (let body = EditIssueBody (i_number c) (appendReleaseNote c time);
               edit = label_call (i_number c) p in
           if \<not> canEditBody \<or> fails (s_trace s) body then s
           else if fails (s_trace s @ [body]) edit then s\<lparr>s_trace := s_trace s @ [body]\<rparr>
           else s\<lparr>s_trace := s_trace s @ [body, edit],
                  s_failed := obj_delete (s_failed s) (show_int (i_number c)),
                  s_released := s_released s @ [i_number c]\<rparr>))"

definition failed_count :: "IssueCuratorState \<Rightarrow> int \<Rightarrow> int" where
  "failed_count m n = (case map_of m (show_int n) of None \<Rightarrow> 0 | Some r \<Rightarrow> f_count r)"

definition recheck_issue ::
    "call_faults \<Rightarrow> StateTransitionLabels \<Rightarrow> int \<Rightarrow> string \<Rightarrow> sweep \<Rightarrow> TrackerIssue \<Rightarrow> sweep" where
  "recheck_issue fails labels recheckLimit time s c =
     (let n = failed_count (s_failed s) (i_number c) + 1;
          s' = s\<lparr>s_failed := obj_set (s_failed s) (show_int (i_number c))
                   \<lparr>f_count = n, lastCheckedAt = time\<rparr>\<rparr> in
      if n < recheckLimit then s'
      else (case planTransition (i_labels c) Human labels of
              Inl _ \<Rightarrow> s'
            | Inr p \<Rightarrow>
                (let edit = label_call (i_number c) p in
                 if fails (s_trace s) edit then s'
                 else s'\<lparr>s_trace := s_trace s @ [edit],
                         s_failed := obj_delete (s_failed s') (show_int (i_number c)),
                         s_parked := s_parked s @ [i_number c]\<rparr>)))"

definition curate_issue ::
    "call_faults \<Rightarrow> bool \<Rightarrow> StateTransitionLabels \<Rightarrow> (string \<Rightarrow> bool) \<Rightarrow> int \<Rightarrow> string \<Rightarrow>
     sweep \<Rightarrow> TrackerIssue \<Rightarrow> sweep" where
  "curate_issue fails canEditBody labels blocker recheckLimit time s c =
     (if length (quarantineIncoherence c labels blocker) = 0
      then release_issue fails canEditBody labels time s c
      else recheck_issue fails labels recheckLimit time s c)"

definition reconcile_issue ::
    "call_faults \<Rightarrow> StateTransitionLabels \<Rightarrow> int list \<times> TrackerCall list \<Rightarrow> TrackerIssue \<Rightarrow>
     int list \<times> TrackerCall list" where
  "reconcile_issue fails labels st c =
     (case planTransition (i_labels c) Close labels of
        Inl _ \<Rightarrow> st
      | Inr p \<Rightarrow>
          if (p_remove p = [] \<and> p_add p = []) \<or> fails (snd st) (label_call (i_number c) p) then st
          else (fst st @ [i_number c], snd st @ [label_call (i_number c) p]))"

text \<open>
  \<open>reconcileClosedIssues\<close>: the adapter may have no such listing (the outer \<open>None\<close>), and the
  listing may fail (the inner one); both reconcile nothing.
\<close>

definition reconcileClosedIssues ::
    "call_faults \<Rightarrow> (string list \<Rightarrow> int \<Rightarrow> TrackerIssue list option) option \<Rightarrow> StateTransitionLabels \<Rightarrow>
     int \<Rightarrow> TrackerCall list \<Rightarrow> int list \<times> TrackerCall list" where
  "reconcileClosedIssues fails listing labels limit trace =
     (case listing of
        None \<Rightarrow> ([], trace)
      | Some list_closed \<Rightarrow>
          (case list_closed (stateRoleLabels labels) limit of
             None \<Rightarrow> ([], trace)
           | Some issues \<Rightarrow> foldl (reconcile_issue fails labels) ([], trace) issues))"

record IssueStateCuratorResult =
  checked :: nat
  released :: "int list"
  parked :: "int list"
  reconciled :: "int list"
  written :: IssueCuratorState
  calls :: "TrackerCall list"

definition runIssueStateCurator ::
    "call_faults \<Rightarrow> bool \<Rightarrow> (string list \<Rightarrow> int \<Rightarrow> TrackerIssue list option) option \<Rightarrow>
     StateTransitionLabels \<Rightarrow> (string \<Rightarrow> bool) \<Rightarrow> int \<Rightarrow> int \<Rightarrow> string \<Rightarrow>
     IssueCuratorState \<Rightarrow> TrackerIssue list \<Rightarrow> IssueStateCuratorResult" where
  "runIssueStateCurator fails canEditBody listing labels blocker recheckLimit closedLimit time prior issues =
     (let s = foldl (curate_issue fails canEditBody labels blocker recheckLimit time)
                \<lparr>s_failed = prior, s_released = [], s_parked = [], s_trace = []\<rparr> issues;
          (done, trace) = reconcileClosedIssues fails listing labels closedLimit (s_trace s)
      in \<lparr>checked = length issues, released = s_released s, parked = s_parked s, reconciled = done,
          written = foldl (\<lambda>m n. obj_delete m (show_int n)) (s_failed s) done,
          calls = trace\<rparr>)"

section \<open>Lemmas on the state\<close>

lemma map_of_delete: "map_of (obj_delete m k) k' = (if k' = k then None else map_of m k')"
  by (induction m) (auto simp: obj_delete_def)

lemma failed_count_set [simp]:
  "failed_count (obj_set m (show_int a) r) n = (if n = a then f_count r else failed_count m n)"
  by (simp add: failed_count_def show_int_inj)

lemma failed_count_delete [simp]:
  "failed_count (obj_delete m (show_int a)) n = (if n = a then 0 else failed_count m n)"
  by (simp add: failed_count_def map_of_delete show_int_inj)

lemma failed_count_delete_all:
  "n \<notin> set ns \<Longrightarrow> failed_count (foldl (\<lambda>m n. obj_delete m (show_int n)) m ns) n = failed_count m n"
  by (induction ns arbitrary: m) auto

text \<open>What a sweep says of one issue: its count, and whether it was released or parked.\<close>

definition verdict_on :: "sweep \<Rightarrow> int \<Rightarrow> int \<times> bool \<times> bool" where
  "verdict_on s n = (failed_count (s_failed s) n, n \<in> set (s_released s), n \<in> set (s_parked s))"

lemma curate_frame:
  "n \<noteq> i_number c \<Longrightarrow> verdict_on (curate_issue fails e L bl rl time s c) n = verdict_on s n"
  by (auto simp: curate_issue_def release_issue_def recheck_issue_def verdict_on_def Let_def
           split: sum.splits)

lemma curate_fold_frame:
  "n \<notin> i_number ` set cs \<Longrightarrow>
     verdict_on (foldl (curate_issue fails e L bl rl time) s cs) n = verdict_on s n"
  by (induction cs arbitrary: s) (auto simp: curate_frame)

lemma curate_fold_at:
  assumes "distinct (map i_number cs)" and "c \<in> set cs"
  shows "\<exists>s'. verdict_on s' (i_number c) = verdict_on s (i_number c) \<and>
    verdict_on (foldl (curate_issue fails e L bl rl time) s cs) (i_number c) =
    verdict_on (curate_issue fails e L bl rl time s' c) (i_number c)"
proof -
  obtain xs ys where cs: "cs = xs @ c # ys" using split_list[OF assms(2)] by blast
  have "i_number c \<notin> i_number ` set xs" "i_number c \<notin> i_number ` set ys"
    using assms(1) by (auto simp: cs)
  then show ?thesis
    by (intro exI[of _ "foldl (curate_issue fails e L bl rl time) s xs"]) (simp add: cs curate_fold_frame)
qed

lemma curate_decides:
  assumes wf: "labels_wf L" and ok: "\<forall>t c. \<not> fails t c"
    and s: "verdict_on s (i_number c) = (k, False, False)"
  shows "verdict_on (curate_issue fails True L bl rl time s c) (i_number c) =
         (if quarantineIncoherence c L bl = []
          then if \<exists>l \<in> set (i_labels c). is_req L l then (k, False, False) else (0, True, False)
          else if k + 1 < rl then (k + 1, False, False) else (0, False, True))"
proof (cases "quarantineIncoherence c L bl = []")
  case True
  show ?thesis
  proof (cases "\<exists>l \<in> set (i_labels c). is_req L l")
    case edges: True
    then obtain r where "planTransition (i_labels c) Queue L = Inl r"
      using refused_request[OF wf, of "i_labels c" Queue] by (auto simp: must_refuse_def)
    then show ?thesis using True edges s by (simp add: curate_issue_def release_issue_def)
  next
    case free: False
    then have "\<not> must_refuse L (i_labels c) Queue" by (simp add: must_refuse_def)
    from accepted_plan[OF wf this] show ?thesis
      using True free s ok by (auto simp: curate_issue_def release_issue_def verdict_on_def Let_def)
  qed
next
  case False
  have "\<not> must_refuse L (i_labels c) Human" by (simp add: must_refuse_def)
  from accepted_plan[OF wf this] show ?thesis
    using False s ok by (auto simp: curate_issue_def recheck_issue_def verdict_on_def Let_def)
qed

section \<open>Lemmas on the edits\<close>

text \<open>The label edits a trace holds, each planned against the labels the board had.\<close>

definition planned_trace :: "(int \<Rightarrow> string list) \<Rightarrow> StateTransitionLabels \<Rightarrow> int set \<Rightarrow> TrackerCall list \<Rightarrow> bool" where
  "planned_trace b L N trace \<longleftrightarrow>
     (\<exists>es. board_after b trace = planner.run_edits b es \<and> distinct (map fst es) \<and> fst ` set es \<subseteq> N \<and>
        (\<forall>(i, p) \<in> set es. \<exists>t. t \<in> {Queue, Human, Close} \<and> planTransition (b i) t L = Inr p))"

lemma planned_trace_Nil: "planned_trace b L {} []"
  unfolding planned_trace_def by (intro exI[of _ "[]"]) (simp add: board_after_def planner.run_edits_def)

lemma planned_trace_mono: "planned_trace b L N trace \<Longrightarrow> N \<subseteq> M \<Longrightarrow> planned_trace b L M trace"
  unfolding planned_trace_def by blast

lemma planned_trace_body: "planned_trace b L N trace \<Longrightarrow> planned_trace b L N (trace @ [EditIssueBody i x])"
  by (simp add: planned_trace_def board_after_def)

lemma planned_trace_edit:
  assumes "planned_trace b L N trace" and "n \<notin> N" and "t \<in> {Queue, Human, Close}"
    and "planTransition (b n) t L = Inr p"
  shows "planned_trace b L (insert n N) (trace @ [label_call n p])"
proof -
  obtain es where es: "board_after b trace = planner.run_edits b es" "distinct (map fst es)"
    "fst ` set es \<subseteq> N" "\<forall>(i, p) \<in> set es. \<exists>t. t \<in> {Queue, Human, Close} \<and> planTransition (b i) t L = Inr p"
    using assms(1) by (auto simp: planned_trace_def)
  have "board_after b (trace @ [label_call n p]) = planner.run_edits b (es @ [(n, p)])"
    using es(1) by (simp add: board_after_append board_after_def label_call_def apply_plan_def planner.run_edits_snoc)
  moreover have "distinct (map fst (es @ [(n, p)]))" using es(2,3) assms(2) by auto
  ultimately show ?thesis
    unfolding planned_trace_def using es(3,4) assms(3,4) by (intro exI[of _ "es @ [(n, p)]"]) auto
qed

lemma curate_planned:
  assumes "planned_trace b L N (s_trace s)" and "i_number c \<notin> N" and "b (i_number c) = i_labels c"
  shows "planned_trace b L (insert (i_number c) N) (s_trace (curate_issue fails e L bl rl time s c))"
proof -
  have keep: "planned_trace b L (insert (i_number c) N) (s_trace s)"
    using assms(1) by (rule planned_trace_mono) auto
  have edit: "planned_trace b L (insert (i_number c) N) (tr @ [label_call (i_number c) p])"
    if "planned_trace b L N tr" "t \<in> {Queue, Human, Close}" "planTransition (i_labels c) t L = Inr p" for tr t p
    using planned_trace_edit[OF that(1) assms(2) that(2)] that(3) assms(3) by simp
  have body: "planned_trace b L N (s_trace s @ [EditIssueBody (i_number c) x])" for x
    using assms(1) by (rule planned_trace_body)
  show ?thesis
    using keep planned_trace_body[OF keep] edit[OF assms(1), of Human] edit[OF body, of Queue]
    by (auto simp: curate_issue_def release_issue_def recheck_issue_def Let_def split: sum.splits)
qed

lemma curate_fold_planned:
  assumes "planned_trace b L N (s_trace s)" and "distinct (map i_number cs)"
    and "N \<inter> i_number ` set cs = {}" and "\<forall>c \<in> set cs. b (i_number c) = i_labels c"
  shows "planned_trace b L (N \<union> i_number ` set cs)
           (s_trace (foldl (curate_issue fails e L bl rl time) s cs))"
  using assms
proof (induction cs arbitrary: s N)
  case (Cons c cs)
  have "planned_trace b L (insert (i_number c) N) (s_trace (curate_issue fails e L bl rl time s c))"
    using Cons.prems by (intro curate_planned) auto
  from Cons.IH[OF this] show ?case using Cons.prems by auto
qed simp

lemma reconcile_fold_planned:
  assumes "planned_trace b L N (snd st)" and "distinct (map i_number cs)"
    and "N \<inter> i_number ` set cs = {}" and "\<forall>c \<in> set cs. b (i_number c) = i_labels c"
  shows "planned_trace b L (N \<union> i_number ` set cs) (snd (foldl (reconcile_issue fails L) st cs))"
  using assms
proof (induction cs arbitrary: st N)
  case (Cons c cs)
  have keep: "planned_trace b L (insert (i_number c) N) (snd st)"
    using Cons.prems(1) by (rule planned_trace_mono) auto
  have "planned_trace b L (insert (i_number c) N) (snd st @ [label_call (i_number c) p])"
    if "planTransition (i_labels c) Close L = Inr p" for p
    using Cons.prems that by (intro planned_trace_edit[where t = Close]) auto
  then have "planned_trace b L (insert (i_number c) N) (snd (reconcile_issue fails L st c))"
    using keep by (auto simp: reconcile_issue_def split: sum.splits)
  from Cons.IH[OF this] show ?case using Cons.prems by auto
qed simp

section \<open>Properties\<close>

text \<open>
  On a tracker that answers, one sweep decides every quarantined issue: a coherent one with
  no dependency edge is released and its counter cleared, a coherent one with edges stays held
  and uncounted, an incoherent one is counted, and at the re-check limit it is parked for a
  human and its counter cleared. So an issue that stays incoherent is parked by exactly the
  sweep that completes the limit.
\<close>

theorem sweep_decides:
  assumes "labels_wf L" and "\<forall>t c. \<not> fails t c" and "distinct (map i_number issues)" and "c \<in> set issues"
    and "r = runIssueStateCurator fails True listing L blocker recheckLimit closedLimit time prior issues"
    and "i_number c \<notin> set (reconciled r)"
  shows "(failed_count (written r) (i_number c), i_number c \<in> set (released r), i_number c \<in> set (parked r)) =
         (let k = failed_count prior (i_number c) in
          if quarantineIncoherence c L blocker = []
          then if \<exists>l \<in> set (i_labels c). starts_with (reqPrefix L) l then (k, False, False) else (0, True, False)
          else if k + 1 < recheckLimit then (k + 1, False, False) else (0, False, True))"
proof -
  let ?s = "\<lparr>s_failed = prior, s_released = [], s_parked = [], s_trace = []\<rparr>"
  let ?f = "foldl (curate_issue fails True L blocker recheckLimit time) ?s issues"
  have r: "failed_count (written r) (i_number c) = failed_count (s_failed ?f) (i_number c)"
    "released r = s_released ?f" "parked r = s_parked ?f"
    using assms(6) unfolding assms(5) runIssueStateCurator_def
    by (auto simp: Let_def failed_count_delete_all split: prod.splits)
  obtain s' where s': "verdict_on s' (i_number c) = verdict_on ?s (i_number c)"
    "verdict_on ?f (i_number c) = verdict_on (curate_issue fails True L blocker recheckLimit time s' c) (i_number c)"
    using curate_fold_at[OF assms(3,4)] by blast
  have "verdict_on s' (i_number c) = (failed_count prior (i_number c), False, False)"
    using s'(1) by (simp add: verdict_on_def)
  from curate_decides[OF assms(1,2) this] s'(2) show ?thesis
    by (simp add: verdict_on_def r is_req_def Let_def)
qed

text \<open>
  Whatever tracker calls fail, after a sweep every issue has the labels it had, or is in
  exactly one state role and not running, or is a closed one with no state role and no edge.
\<close>

theorem sweep_all_or_nothing:
  assumes "labels_wf L" and "distinct (map i_number (issues @ gone))"
    and "\<forall>c \<in> set (issues @ gone). b (i_number c) = i_labels c"
    and "list_closed (stateRoleLabels L) closedLimit = Some gone"
    and "r = runIssueStateCurator fails e (Some list_closed) L blocker recheckLimit closedLimit time prior issues"
  shows "board_after b (calls r) i = b i \<or>
         (running L \<notin> set (board_after b (calls r) i) \<and> length (stateRolesOf (board_after b (calls r) i) L) \<le> 1 \<and>
          (stateRolesOf (board_after b (calls r) i) L = [] \<longrightarrow>
             (\<forall>l \<in> set (board_after b (calls r) i). \<not> starts_with (reqPrefix L) l)))"
proof -
  let ?s = "\<lparr>s_failed = prior, s_released = [], s_parked = [], s_trace = []\<rparr>"
  let ?f = "foldl (curate_issue fails e L blocker recheckLimit time) ?s issues"
  have "planned_trace b L ({} \<union> i_number ` set issues) (s_trace ?f)"
    using assms(2,3) by (intro curate_fold_planned) (auto simp: planned_trace_Nil)
  then have "planned_trace b L ({} \<union> i_number ` set issues \<union> i_number ` set gone)
      (snd (foldl (reconcile_issue fails L) ([], s_trace ?f) gone))"
    using assms(2,3) by (intro reconcile_fold_planned) auto
  moreover have "calls r = snd (foldl (reconcile_issue fails L) ([], s_trace ?f) gone)"
    by (simp add: assms(4,5) runIssueStateCurator_def reconcileClosedIssues_def Let_def case_prod_beta)
  ultimately obtain es where es: "board_after b (calls r) = planner.run_edits b es" "distinct (map fst es)"
    "\<forall>(i, p) \<in> set es. \<exists>t. t \<in> {Queue, Human, Close} \<and> planTransition (b i) t L = Inr p"
    unfolding planned_trace_def by auto
  show ?thesis
  proof (cases "i \<in> fst ` set es")
    case False
    then show ?thesis unfolding es(1) using planner.run_edits_frame by metis
  next
    case True
    then obtain p where p: "(i, p) \<in> set es" by (metis imageE prod.collapse)
    then obtain t where t: "t \<in> {Queue, Human, Close}" "planTransition (b i) t L = Inr p" using es(3) by blast
    have ok: "settled L t (b i) (b i) (planner.run_edits b es i)"
      using planner.run_edits_good[where board = b, OF es(2) p t(2) same_engine_refl] .
    have "stateRolesOf (planner.run_edits b es i) L = [] \<Longrightarrow> t = Close"
      using settled_parts(1)[OF assms(1) ok] by (simp split: if_splits)
    then show ?thesis
      using settled_parts(1-3)[OF assms(1) ok] unfolding es(1) is_req_def by (auto split: if_splits)
  qed
qed

section \<open>Witnesses\<close>

definition held_issue :: TrackerIssue where
  "held_issue = \<lparr>i_number = 9, i_body = ''stuck'', i_labels = [''quarantine'', ''ready-for-agent'']\<rparr>"

definition sweep_once :: "IssueCuratorState \<Rightarrow> IssueStateCuratorResult" where
  "sweep_once prior =
     runIssueStateCurator (\<lambda>_ _. False) True None default_vocabulary (\<lambda>_. False)
       ISSUE_CURATOR_RECHECK_LIMIT ISSUE_CURATOR_CLOSED_RECONCILE_LIMIT ''t'' prior [held_issue]"

theorem sweep_decides_witness:
  "9 \<in> set (parked (sweep_once (written (sweep_once (written (sweep_once []))))))"
proof -
  let ?m = "written (sweep_once (written (sweep_once [])))"
  have "failed_count ?m 9 = 2" "quarantineIncoherence held_issue default_vocabulary (\<lambda>_. False) \<noteq> []"
    "reconciled (sweep_once ?m) = []" by code_simp+
  then show ?thesis
    using sweep_decides[OF default_wf, of "\<lambda>_ _. False" "[held_issue]" held_issue "sweep_once ?m" None "\<lambda>_. False"
      ISSUE_CURATOR_RECHECK_LIMIT ISSUE_CURATOR_CLOSED_RECONCILE_LIMIT "''t''" ?m]
    by (simp add: sweep_once_def[of ?m] held_issue_def ISSUE_CURATOR_RECHECK_LIMIT_def Let_def)
qed

definition closed_issue :: TrackerIssue where
  "closed_issue = \<lparr>i_number = 4, i_body = ''done'', i_labels = sample_labels\<rparr>"

theorem sweep_all_or_nothing_witness:
  "length (stateRolesOf
     (board_after sample_board
        (calls (runIssueStateCurator (\<lambda>_ _. False) True (Some (\<lambda>_ _. Some [closed_issue])) default_vocabulary
                 (\<lambda>_. False) 3 25 ''t'' [] [])) 4) default_vocabulary) \<le> 1"
proof -
  let ?r = "runIssueStateCurator (\<lambda>_ _. False) True (Some (\<lambda>_ _. Some [closed_issue])) default_vocabulary
              (\<lambda>_. False) 3 25 ''t'' [] []"
  have changed: "board_after sample_board (calls ?r) 4 \<noteq> sample_board 4" by code_simp
  show ?thesis
    using sweep_all_or_nothing[OF default_wf, of "[]" "[closed_issue]" sample_board "\<lambda>_ _. Some [closed_issue]" 25
      ?r "\<lambda>_ _. False" True "\<lambda>_. False" 3 "''t''" "[]" 4] changed
    by (simp add: closed_issue_def sample_board_def)
qed

end
