(* ===== verification/Claim_Marker.thy ===== *)
theory Claim_Marker
  imports Prelude
begin

text \<open>
  The wire format of a claim: the marker layer of \<open>packages/worker/src/engine/tracker/claim.ts\<close>.
  A claimant posts a comment that opens with an HTML comment of \<open>key=value\<close> fields; the parser
  reads the markers out of arbitrary comments.

  Comment ids are the integers GitHub assigns; an id that is no finite number makes the parser
  skip the comment. The regular expressions are written out as scanners.
\<close>

section \<open>Data\<close>

definition CLAIM_MARKER_VERSION :: nat where
  "CLAIM_MARKER_VERSION = 1"

datatype ClaimKind = Claim | Concede

datatype ConcedeReason = Lost | Released | Stale | Unspecified

record ClaimRecord =
  commentId :: int
  worker :: string
  kind :: ClaimKind
  runner :: "string option"
  createdAt :: "string option"

record RawClaimComment =
  c_id :: jsnum
  c_body :: string
  c_createdAt :: "string option"

text \<open>The identity a marker is rendered for; the last three fields accompany an eviction.\<close>

record marker_self =
  m_worker :: string
  m_runner :: "string option"
  m_createdAt :: "string option"
  concededBy :: "string option"
  lastHeartbeatAt :: "string option"
  heartbeatAgeS :: "int option"

definition claimant :: "string \<Rightarrow> string option \<Rightarrow> string option \<Rightarrow> marker_self" where
  "claimant w r t =
     \<lparr>m_worker = w, m_runner = r, m_createdAt = t, concededBy = None, lastHeartbeatAt = None,
      heartbeatAgeS = None\<rparr>"

section \<open>Rendering\<close>

definition reason_name :: "ConcedeReason \<Rightarrow> string" where
  "reason_name r =
     (case r of Lost \<Rightarrow> ''lost'' | Released \<Rightarrow> ''released'' | Stale \<Rightarrow> ''stale'' | Unspecified \<Rightarrow> ''unspecified'')"

definition CONCEDE_WORDING :: "ConcedeReason \<Rightarrow> string" where
  "CONCEDE_WORDING r =
     (case r of
        Lost \<Rightarrow> ''lost the claim race to an earlier claimant''
      | Released \<Rightarrow> ''released the claim it held''
      | Stale \<Rightarrow> ''was released after its heartbeat exceeded the staleness window''
      | Unspecified \<Rightarrow> ''lost the claim race or released'')"

definition kind_name :: "ClaimKind \<Rightarrow> string" where
  "kind_name k = (case k of Claim \<Rightarrow> ''claim'' | Concede \<Rightarrow> ''concede'')"

definition MARKER_OPEN :: string where
  "MARKER_OPEN = ''<!-- afk:claim''"

definition escapeField :: "string \<Rightarrow> string" where
  "escapeField v = map (\<lambda>c. if is_ws c \<or> c = CHR ''>'' then CHR ''_'' else c) v"

text \<open>A field that is present when its value is a non-empty text.\<close>

definition text_field :: "string \<Rightarrow> string option \<Rightarrow> string list" where
  "text_field key v =
     (case v of None \<Rightarrow> [] | Some s \<Rightarrow> if s = [] then [] else [key @ ''='' @ escapeField s])"

definition marker_fields :: "marker_self \<Rightarrow> ClaimKind \<Rightarrow> ConcedeReason option \<Rightarrow> string list" where
  "marker_fields self k reason =
     [''v'' @ show_nat CLAIM_MARKER_VERSION, ''worker='' @ escapeField (m_worker self), ''kind='' @ kind_name k] @
     (if k = Concede
      then text_field ''reason'' (map_option reason_name reason) @
           text_field ''by'' (concededBy self) @
           text_field ''last-heartbeat'' (lastHeartbeatAt self) @
           (case heartbeatAgeS self of None \<Rightarrow> [] | Some a \<Rightarrow> [''heartbeat-age-s='' @ show_int a])
      else []) @
     text_field ''runner'' (m_runner self) @
     text_field ''ts'' (m_createdAt self)"

definition truthy :: "string option \<Rightarrow> bool" where
  "truthy v \<longleftrightarrow> v \<noteq> None \<and> v \<noteq> Some []"

definition marker_human :: "marker_self \<Rightarrow> ClaimKind \<Rightarrow> ConcedeReason option \<Rightarrow> string" where
  "marker_human self k reason =
     (if k = Claim
      then robot @ '' AFK claim by worker '' @ ticked (m_worker self) @
           (if truthy (m_runner self) then '' (runner '' @ ticked (the (m_runner self)) @ '')'' else []) @ ''.''
      else if reason = Some Stale \<and> truthy (concededBy self)
      then robot @ '' AFK worker '' @ ticked (m_worker self) @ '' was conceded on behalf by '' @
           ticked (the (concededBy self)) @ '' ('' @ CONCEDE_WORDING Stale @
           (if truthy (lastHeartbeatAt self) then ''; last heartbeat '' @ ticked (the (lastHeartbeatAt self)) else []) @
           (case heartbeatAgeS self of None \<Rightarrow> [] | Some a \<Rightarrow> ''; age '' @ show_int a @ ''s'') @ '').''
      else robot @ '' AFK worker '' @ ticked (m_worker self) @ '' conceded this issue ('' @
           CONCEDE_WORDING (case reason of None \<Rightarrow> Unspecified | Some r \<Rightarrow> r) @ '').'')"

definition renderClaimComment :: "marker_self \<Rightarrow> ClaimKind \<Rightarrow> ConcedeReason option \<Rightarrow> string" where
  "renderClaimComment self k reason =
     MARKER_OPEN @ '' '' @ join '' '' (marker_fields self k reason) @ '' -->'' @ newline @
     marker_human self k reason"

definition renderConcedeOnBehalf :: "string \<Rightarrow> string \<Rightarrow> string option \<Rightarrow> int option \<Rightarrow> string" where
  "renderConcedeOnBehalf owner evictor heartbeat age =
     renderClaimComment
       \<lparr>m_worker = owner, m_runner = None, m_createdAt = None, concededBy = Some evictor,
        lastHeartbeatAt = heartbeat, heartbeatAgeS = age\<rparr> Concede (Some Stale)"

definition renderRecoveryAudit :: "string \<Rightarrow> string list \<Rightarrow> (string \<Rightarrow> string option) option \<Rightarrow> string" where
  "renderRecoveryAudit self recovered deathFor =
     (let base =
            robot @ '' AFK cross-host recovery: worker '' @ ticked self @ '' released '' @
            (if length recovered = 1 then ''a stale claim'' else ''stale claims'') @ '' held by '' @
            join '', '' (map ticked recovered) @
            '' (owner stopped refreshing past the staleness window) and re-claimed this issue.'' in
      case deathFor of
        None \<Rightarrow> base
      | Some f \<Rightarrow>
          (let causes = List.map_filter
                 (\<lambda>w. case f w of None \<Rightarrow> None
                      | Some cause \<Rightarrow> if cause = [] then None else Some (ticked w @ '': '' @ cause)) recovered in
           if length causes = 0 then base
           else base @ newline @ newline @ ''Predecessor cause'' @ (if length causes = 1 then [] else ''s'') @
                '' (process-safety diagnostic): '' @ join ''; '' causes @ ''.''))"

section \<open>Parsing\<close>

text \<open>\<open>split(/\s+/)\<close>, without the empty tokens, which carry no field.\<close>

fun ws_tokens :: "string \<Rightarrow> string \<Rightarrow> string list" where
  "ws_tokens cur [] = (if cur = [] then [] else [cur])"
| "ws_tokens cur (c # cs) =
     (if is_ws c then (if cur = [] then [] else [cur]) @ ws_tokens [] cs else ws_tokens (cur @ [c]) cs)"

text \<open>One \<open>key=value\<close> token, split at the first equals sign; an empty key is no field.\<close>

definition field_of :: "string \<Rightarrow> (string \<times> string) option" where
  "field_of tok =
     (let k = takeWhile (\<lambda>c. c \<noteq> CHR ''='') tok; r = dropWhile (\<lambda>c. c \<noteq> CHR ''='') tok in
      if r = [] \<or> k = [] then None else Some (k, tl r))"

text \<open>The map of the fields: the last token of a key decides, as \<open>Map.set\<close> does.\<close>

definition parseFields :: "string \<Rightarrow> string \<Rightarrow> string option" where
  "parseFields raw = map_of (rev (List.map_filter field_of (ws_tokens [] raw)))"

definition ends_with :: "string \<Rightarrow> string \<Rightarrow> bool" where
  "ends_with p s \<longleftrightarrow> length p \<le> length s \<and> drop (length s - length p) s = p"

text \<open>
  \<open>/<!--\s*afk:claim\s+([^>]*?)\s*-->/\<close> at the head of a text: the capture and what follows the
  match. The capture holds no \<open>>\<close>, so the closing arrow is the first one.
\<close>

definition marker_at :: "string \<Rightarrow> (string \<times> string) option" where
  "marker_at s =
     (if \<not> starts_with ''<!--'' s then None
      else (let t = dropWhile is_ws (drop 4 s) in
            if \<not> starts_with ''afk:claim'' t then None
            else (let u = drop 9 t in
                  if u = [] \<or> \<not> is_ws (hd u) then None
                  else (let v = dropWhile is_ws u;
                            w = takeWhile (\<lambda>c. c \<noteq> CHR ''>'') v;
                            r = dropWhile (\<lambda>c. c \<noteq> CHR ''>'') v in
                        if r = [] \<or> \<not> ends_with ''--'' w then None
                        else Some (trim_end (butlast (butlast w)), tl r)))))"

lemma marker_at_shorter: "marker_at s = Some (m, rest) \<Longrightarrow> length rest < length s"
proof -
  assume *: "marker_at s = Some (m, rest)"
  let ?t = "dropWhile is_ws (drop 4 s)"
  let ?r = "dropWhile (\<lambda>c. c \<noteq> CHR ''>'') (dropWhile is_ws (drop 9 ?t))"
  have r: "rest = tl ?r" "?r \<noteq> []" using * by (auto simp: marker_at_def Let_def split: if_splits)
  have "length ?r \<le> length s"
    using length_dropWhile_le[of "\<lambda>c. c \<noteq> CHR ''>''" "dropWhile is_ws (drop 9 ?t)"]
      length_dropWhile_le[of is_ws "drop 9 ?t"] length_dropWhile_le[of is_ws "drop 4 s"] by simp
  moreover have "length rest < length ?r" using r by (cases ?r) auto
  ultimately show ?thesis by simp
qed

text \<open>The global scan: the captures of the successive matches.\<close>

function markers :: "string \<Rightarrow> string list" where
  "markers s =
     (case marker_at s of
        Some (m, rest) \<Rightarrow> m # markers rest
      | None \<Rightarrow> (case s of [] \<Rightarrow> [] | _ # cs \<Rightarrow> markers cs))"
  by auto
termination
  by (relation "measure length") (auto dest: marker_at_shorter)

declare markers.simps [simp del]

definition record_of :: "int \<Rightarrow> string option \<Rightarrow> string \<Rightarrow> ClaimRecord option" where
  "record_of cid created m =
     (let fields = parseFields m in
      case fields ''worker'' of
        None \<Rightarrow> None
      | Some w \<Rightarrow>
          if w = [] then None
          else Some \<lparr>commentId = cid, worker = w,
                     kind = (if fields ''kind'' = Some ''concede'' then Concede else Claim),
                     runner = fields ''runner'',
                     createdAt = (case fields ''ts'' of None \<Rightarrow> created | Some t \<Rightarrow> Some t)\<rparr>)"

definition comment_records :: "RawClaimComment \<Rightarrow> ClaimRecord list" where
  "comment_records c =
     (if isFinite (c_id c)
      then List.map_filter (record_of (int_of_num (c_id c)) (c_createdAt c)) (markers (c_body c))
      else [])"

definition parseClaimRecords :: "RawClaimComment list \<Rightarrow> ClaimRecord list" where
  "parseClaimRecords cs = concat (map comment_records cs)"

section \<open>Lemmas on tokens\<close>

lemma ws_tokens_word: "list_all (\<lambda>c. \<not> is_ws c) t \<Longrightarrow> ws_tokens cur (t @ r) = ws_tokens (cur @ t) r"
  by (induction t arbitrary: cur) auto

lemma space_ws [simp]: "is_ws (CHR '' '')"
  by (simp add: is_ws_def)

lemma ws_tokens_join:
  assumes "\<forall>t \<in> set ts. t \<noteq> [] \<and> list_all (\<lambda>c. \<not> is_ws c) t"
  shows "ws_tokens [] (join '' '' ts) = ts"
  using assms
proof (induction ts rule: induct_list012)
  case (2 x)
  then show ?case using ws_tokens_word[of x "[]" "[]"] by simp
next
  case (3 x y xs)
  then show ?case using ws_tokens_word[of x "[]"] by simp
qed simp

lemma until_append:
  "c \<notin> set m \<Longrightarrow> takeWhile (\<lambda>x. x \<noteq> c) (m @ r) = m @ takeWhile (\<lambda>x. x \<noteq> c) r"
  "c \<notin> set m \<Longrightarrow> dropWhile (\<lambda>x. x \<noteq> c) (m @ r) = dropWhile (\<lambda>x. x \<noteq> c) r"
  by (induction m) auto

lemma field_of_pair:
  "key \<noteq> [] \<Longrightarrow> CHR ''='' \<notin> set key \<Longrightarrow> field_of (key @ CHR ''='' # v) = Some (key, v)"
  by (simp add: field_of_def until_append Let_def)

lemma escapeField_clean: "list_all (\<lambda>c. \<not> is_ws c \<and> c \<noteq> CHR ''>'') (escapeField v)"
  by (auto simp: escapeField_def list_all_iff is_ws_def)

lemma join_nonempty: "ts \<noteq> [] \<Longrightarrow> hd ts \<noteq> [] \<Longrightarrow> join sep ts \<noteq> [] \<and> hd (join sep ts) = hd (hd ts)"
  by (cases ts; cases "tl ts") auto

lemma join_last: "ts \<noteq> [] \<Longrightarrow> last ts \<noteq> [] \<Longrightarrow> join sep ts \<noteq> [] \<and> last (join sep ts) = last (last ts)"
  by (induction ts rule: induct_list012) auto

lemma set_join: "set (join sep ts) \<subseteq> set sep \<union> (\<Union>t \<in> set ts. set t)"
  by (induction ts rule: induct_list012) auto

section \<open>Lemmas on markers\<close>

lemma marker_at_rendered:
  assumes "m \<noteq> []" and "\<not> is_ws (hd m)" and "\<not> is_ws (last m)" and "CHR ''>'' \<notin> set m"
  shows "marker_at (MARKER_OPEN @ '' '' @ m @ '' -->'' @ rest) = Some (m, rest)"
proof -
  let ?s = "MARKER_OPEN @ '' '' @ m @ '' -->'' @ rest"
  have t: "dropWhile is_ws (drop 4 ?s) = ''afk:claim'' @ '' '' @ m @ '' -->'' @ rest"
    by (simp add: MARKER_OPEN_def is_ws_def)
  have v: "dropWhile is_ws ('' '' @ m @ '' -->'' @ rest) = m @ '' -->'' @ rest"
    using assms(1,2) by (cases m) auto
  have w: "takeWhile (\<lambda>c. c \<noteq> CHR ''>'') (m @ '' -->'' @ rest) = m @ '' --''"
    "dropWhile (\<lambda>c. c \<noteq> CHR ''>'') (m @ '' -->'' @ rest) = CHR ''>'' # rest"
    using assms(4) by (simp_all add: until_append)
  have e: "ends_with ''--'' (m @ '' --'')" "butlast (butlast (m @ '' --'')) = m @ '' ''"
    by (simp_all add: ends_with_def butlast_append)
  have tr: "trim_end (m @ '' '') = m"
    using assms(1,3) trim_end_id[of m] by (simp add: trim_end_def)
  have "starts_with ''<!--'' ?s" by (simp add: starts_with_def MARKER_OPEN_def)
  then show ?thesis
    unfolding marker_at_def t Let_def
    by (simp add: starts_with_def v[simplified] w[simplified] e[simplified] tr[simplified])
qed

lemma markers_none: "CHR ''>'' \<notin> set s \<Longrightarrow> markers s = []"
proof (induction s)
  case Nil
  show ?case by (subst markers.simps) (simp add: marker_at_def starts_with_def)
next
  case (Cons c cs)
  have "marker_at (c # cs) = None"
  proof (rule ccontr)
    assume "marker_at (c # cs) \<noteq> None"
    then have "dropWhile (\<lambda>c. c \<noteq> CHR ''>'') (dropWhile is_ws (drop 9 (dropWhile is_ws (drop 4 (c # cs))))) \<noteq> []"
      by (auto simp: marker_at_def Let_def split: if_splits)
    then have "CHR ''>'' \<in> set (dropWhile is_ws (drop 9 (dropWhile is_ws (drop 4 (c # cs)))))"
      by (auto simp: dropWhile_eq_Nil_conv)
    then show False using Cons.prems by (meson in_set_dropD set_dropWhileD)
  qed
  then show ?case using Cons by (subst markers.simps) simp
qed

lemma markers_rendered:
  assumes "m \<noteq> []" and "\<not> is_ws (hd m)" and "\<not> is_ws (last m)" and "CHR ''>'' \<notin> set m"
  shows "markers (MARKER_OPEN @ '' '' @ m @ '' -->'' @ rest) = m # markers rest"
  using marker_at_rendered[OF assms(1-4), of rest]
  by (subst markers.simps) simp

section \<open>Lemmas on fields\<close>

definition field_pair :: "string \<Rightarrow> string option \<Rightarrow> (string \<times> string) list" where
  "field_pair key v = (if truthy v then [(key, escapeField (the v))] else [])"

definition marker_pairs :: "marker_self \<Rightarrow> ClaimKind \<Rightarrow> ConcedeReason option \<Rightarrow> (string \<times> string) list" where
  "marker_pairs self k reason =
     [(''worker'', escapeField (m_worker self)), (''kind'', kind_name k)] @
     (if k = Concede
      then field_pair ''reason'' (map_option reason_name reason) @ field_pair ''by'' (concededBy self) @
           field_pair ''last-heartbeat'' (lastHeartbeatAt self) @
           (case heartbeatAgeS self of None \<Rightarrow> [] | Some a \<Rightarrow> [(''heartbeat-age-s'', show_int a)])
      else []) @
     field_pair ''runner'' (m_runner self) @ field_pair ''ts'' (m_createdAt self)"

lemma map_filter_append: "List.map_filter f (xs @ ys) = List.map_filter f xs @ List.map_filter f ys"
  by (simp add: List.map_filter_def)

lemma map_filter_text_field:
  "key \<noteq> [] \<Longrightarrow> CHR ''='' \<notin> set key \<Longrightarrow> List.map_filter field_of (text_field key v) = field_pair key v"
  by (cases v) (auto simp: text_field_def field_pair_def truthy_def List.map_filter_def field_of_pair)

lemma map_filter_single: "field_of t = Some p \<Longrightarrow> List.map_filter field_of (t # ts) = p # List.map_filter field_of ts"
  by (simp add: List.map_filter_def)

lemma marker_fields_pairs: "List.map_filter field_of (marker_fields self k reason) = marker_pairs self k reason"
proof -
  have v: "field_of (''v'' @ show_nat CLAIM_MARKER_VERSION) = None" by code_simp
  have w: "field_of (''worker='' @ x) = Some (''worker'', x)"
    "field_of (''kind='' @ x) = Some (''kind'', x)"
    "field_of (''heartbeat-age-s='' @ x) = Some (''heartbeat-age-s'', x)" for x
    using field_of_pair[of "''worker''" x] field_of_pair[of "''kind''" x] field_of_pair[of "''heartbeat-age-s''" x]
    by simp_all
  have head: "List.map_filter field_of
      [''v'' @ show_nat CLAIM_MARKER_VERSION, ''worker='' @ escapeField (m_worker self), ''kind='' @ kind_name k] =
      [(''worker'', escapeField (m_worker self)), (''kind'', kind_name k)]"
    using v w by (simp add: List.map_filter_def)
  have age: "List.map_filter field_of
      (case heartbeatAgeS self of None \<Rightarrow> [] | Some a \<Rightarrow> [''heartbeat-age-s='' @ show_int a]) =
      (case heartbeatAgeS self of None \<Rightarrow> [] | Some a \<Rightarrow> [(''heartbeat-age-s'', show_int a)])"
    using w(3) by (cases "heartbeatAgeS self") (simp_all add: List.map_filter_def)
  show ?thesis
    unfolding marker_fields_def marker_pairs_def map_filter_append head
    by (simp add: map_filter_append map_filter_text_field age)
qed

lemma text_field_clean:
  assumes "list_all (\<lambda>c. \<not> is_ws c \<and> c \<noteq> CHR ''>'') key" and "key \<noteq> []"
  shows "\<forall>t \<in> set (text_field key v). t \<noteq> [] \<and> list_all (\<lambda>c. \<not> is_ws c \<and> c \<noteq> CHR ''>'') t"
  using assms escapeField_clean by (auto simp: text_field_def is_ws_def split: option.splits)

lemma show_int_clean: "list_all (\<lambda>c. \<not> is_ws c \<and> c \<noteq> CHR ''>'') (show_int i)"
proof -
  have "\<not> is_digit (CHR ''>'')" by code_simp
  then show ?thesis
    using show_int_no_ws show_nat_set by (auto simp: list_all_iff show_int_def split: if_splits)
qed

lemma marker_fields_clean:
  "\<forall>t \<in> set (marker_fields self k reason). t \<noteq> [] \<and> list_all (\<lambda>c. \<not> is_ws c \<and> c \<noteq> CHR ''>'') t"
proof -
  have k: "list_all (\<lambda>c. \<not> is_ws c \<and> c \<noteq> CHR ''>'') (kind_name k)"
    by (cases k) (simp_all add: kind_name_def is_ws_def)
  have v: "list_all (\<lambda>c. \<not> is_ws c \<and> c \<noteq> CHR ''>'') (''v'' @ show_nat CLAIM_MARKER_VERSION)" by code_simp
  have lit: "list_all (\<lambda>c. \<not> is_ws c \<and> c \<noteq> CHR ''>'') lit"
    if "lit \<in> {''worker='', ''kind='', ''heartbeat-age-s='', ''reason'', ''by'', ''last-heartbeat'', ''runner'', ''ts''}" for lit
    using that by (auto simp: is_ws_def)
  note clean = text_field_clean[OF lit]
  show ?thesis
    unfolding marker_fields_def
    using k v lit[of "''worker=''"] lit[of "''kind=''"] lit[of "''heartbeat-age-s=''"]
      clean[of "''reason''" "map_option reason_name reason"] clean[of "''by''" "concededBy self"]
      clean[of "''last-heartbeat''" "lastHeartbeatAt self"] clean[of "''runner''" "m_runner self"]
      clean[of "''ts''" "m_createdAt self"] escapeField_clean show_int_clean
    by (auto split: option.splits if_splits)
qed

section \<open>Properties\<close>

definition field_value :: "string option \<Rightarrow> string option" where
  "field_value v = (if truthy v then Some (escapeField (the v)) else None)"

lemma parse_rendered_fields:
  "map_of (rev (marker_pairs self k reason)) ''worker'' = Some (escapeField (m_worker self))"
  "map_of (rev (marker_pairs self k reason)) ''kind'' = Some (kind_name k)"
  "map_of (rev (marker_pairs self k reason)) ''runner'' = field_value (m_runner self)"
  "map_of (rev (marker_pairs self k reason)) ''ts'' = field_value (m_createdAt self)"
  by (auto simp: marker_pairs_def field_pair_def field_value_def split: option.splits)

text \<open>No field of the identity holds the character that closes a comment.\<close>

definition arrow_free :: "marker_self \<Rightarrow> bool" where
  "arrow_free self \<longleftrightarrow>
     CHR ''>'' \<notin> set (m_worker self) \<and>
     (\<forall>v \<in> {m_runner self, concededBy self, lastHeartbeatAt self}. case v of None \<Rightarrow> True | Some s \<Rightarrow> CHR ''>'' \<notin> set s)"

lemma human_arrow_free:
  assumes "arrow_free self"
  shows "CHR ''>'' \<notin> set (marker_human self k reason)"
proof -
  have age: "CHR ''>'' \<notin> set (show_int a)" for a using show_int_clean[of a] by (auto simp: list_all_iff)
  have w: "CHR ''>'' \<notin> set (CONCEDE_WORDING r)" for r by (cases r) (simp_all add: CONCEDE_WORDING_def)
  show ?thesis
    using assms age w
    by (auto simp: marker_human_def arrow_free_def robot_def ticked_def truthy_def split: option.splits)
qed

text \<open>What a rendered comment parses to: its own record, then whatever its human line carries.\<close>

lemma rendered_records:
  assumes "m_worker self \<noteq> []"
  shows "parseClaimRecords [\<lparr>c_id = IntNum n, c_body = renderClaimComment self k reason, c_createdAt = posted\<rparr>] =
         \<lparr>commentId = n, worker = escapeField (m_worker self), kind = k,
           runner = field_value (m_runner self),
           createdAt = (case field_value (m_createdAt self) of None \<Rightarrow> posted | Some t \<Rightarrow> Some t)\<rparr> #
         List.map_filter (record_of n posted) (markers (newline @ marker_human self k reason))"
proof -
  let ?fs = "marker_fields self k reason" and ?m = "join '' '' (marker_fields self k reason)"
  note clean = marker_fields_clean[of self k reason]
  have fs: "?fs \<noteq> []" by (simp add: marker_fields_def)
  have m: "?m \<noteq> []" "hd ?m = hd (hd ?fs)" "last ?m = last (last ?fs)"
    using join_nonempty[OF fs] join_last[OF fs] clean fs by (metis hd_in_set last_in_set)+
  have "\<not> is_ws (hd ?m)" "\<not> is_ws (last ?m)"
    unfolding m(2,3) using clean fs by (metis (no_types, lifting) hd_in_set last_in_set list_all_iff)+
  moreover have "CHR ''>'' \<notin> set ?m"
    using set_join[of "'' ''" ?fs] clean by (auto simp: list_all_iff)
  ultimately have mk: "markers (renderClaimComment self k reason) = ?m # markers (newline @ marker_human self k reason)"
    unfolding renderClaimComment_def using m(1) by (intro markers_rendered)
  have "\<forall>t \<in> set ?fs. t \<noteq> [] \<and> list_all (\<lambda>c. \<not> is_ws c) t" using clean by (auto simp: list_all_iff)
  then have "parseFields ?m = map_of (rev (marker_pairs self k reason))"
    by (simp add: parseFields_def ws_tokens_join marker_fields_pairs)
  moreover have "escapeField (m_worker self) \<noteq> []" using assms(1) by (simp add: escapeField_def)
  moreover have "(if kind_name k = ''concede'' then Concede else Claim) = k" by (cases k) (simp_all add: kind_name_def)
  ultimately have "record_of n posted ?m =
      Some \<lparr>commentId = n, worker = escapeField (m_worker self), kind = k, runner = field_value (m_runner self),
           createdAt = (case field_value (m_createdAt self) of None \<Rightarrow> posted | Some t \<Rightarrow> Some t)\<rparr>"
    by (simp add: record_of_def Let_def parse_rendered_fields)
  then show ?thesis by (simp add: parseClaimRecords_def comment_records_def mk List.map_filter_def)
qed

lemma rendered_record:
  assumes "m_worker self \<noteq> []" and "arrow_free self"
  shows "parseClaimRecords [\<lparr>c_id = IntNum n, c_body = renderClaimComment self k reason, c_createdAt = posted\<rparr>] =
         [\<lparr>commentId = n, worker = escapeField (m_worker self), kind = k,
           runner = field_value (m_runner self),
           createdAt = (case field_value (m_createdAt self) of None \<Rightarrow> posted | Some t \<Rightarrow> Some t)\<rparr>]"
  using rendered_records[OF assms(1), of n k reason posted] human_arrow_free[OF assms(2), of k reason]
  by (simp add: markers_none newline_def List.map_filter_def)

text \<open>
  C33. The wire format reads back: the comment a claimant of a non-empty name posts, a claim or a
  concede with any reason and any eviction evidence, parses first to a record of that comment's id
  with the claimant's name, kind, runner and time, in which each white space and each closing angle
  bracket of a name, runner or time stands as an underscore; an empty runner is none and a missing
  or empty time is the comment's own. It parses to nothing else as long as neither the name, the
  runner, the evictor nor the heartbeat holds a closing angle bracket: the human line repeats them
  as they are.
\<close>

theorem marker_roundtrip:
  assumes "m_worker self \<noteq> []"
    and "esc = map (\<lambda>c. if is_ws c \<or> c = CHR ''>'' then CHR ''_'' else c)"
  shows "\<exists>more. parseClaimRecords [\<lparr>c_id = IntNum n, c_body = renderClaimComment self k reason, c_createdAt = posted\<rparr>] =
         \<lparr>commentId = n, worker = esc (m_worker self), kind = k,
           runner = (if m_runner self = Some [] then None else map_option esc (m_runner self)),
           createdAt = (if m_createdAt self = None \<or> m_createdAt self = Some [] then posted
                        else map_option esc (m_createdAt self))\<rparr> # more \<and>
         ((\<forall>v \<in> {Some (m_worker self), m_runner self, concededBy self, lastHeartbeatAt self}.
             \<forall>s. v = Some s \<longrightarrow> CHR ''>'' \<notin> set s) \<longrightarrow> more = [])"
proof -
  have esc: "escapeField = esc" by (simp add: fun_eq_iff escapeField_def assms(2))
  have field: "field_value v = (if v = Some [] then None else map_option esc v)" for v
    by (cases v) (auto simp: field_value_def truthy_def esc)
  have created: "(case field_value (m_createdAt self) of None \<Rightarrow> posted | Some t \<Rightarrow> Some t) =
      (if m_createdAt self = None \<or> m_createdAt self = Some [] then posted else map_option esc (m_createdAt self))"
    by (cases "m_createdAt self") (auto simp: field)
  note first = rendered_records[OF assms(1), of n k reason posted, unfolded created field esc]
  have "List.map_filter (record_of n posted) (markers (newline @ marker_human self k reason)) = []" if "arrow_free self"
    using human_arrow_free[OF that, of k reason] by (simp add: markers_none newline_def List.map_filter_def)
  then show ?thesis using first by (auto simp: arrow_free_def split: option.splits)
qed

text \<open>A text without an opening angle bracket before a marker changes nothing.\<close>

lemma markers_skip: "CHR ''<'' \<notin> set p \<Longrightarrow> markers (p @ s) = markers s"
proof (induction p)
  case (Cons c p)
  then have "marker_at ((c # p) @ s) = None" by (auto simp: marker_at_def starts_with_def)
  then show ?case using Cons by (subst markers.simps) simp
qed simp

text \<open>
  The human line is not escaped: a claimant whose runner is itself a marker posts, with its own
  claim, a second record in the name that marker carries.
\<close>

theorem runner_forges_claim:
  assumes "CHR ''<'' \<notin> set me" and "me \<noteq> []" and "list_all (\<lambda>c. \<not> is_ws c \<and> c \<noteq> CHR ''>'') other" and "other \<noteq> []"
  shows "\<exists>mine more. parseClaimRecords [\<lparr>c_id = IntNum n,
             c_body = renderClaimComment (claimant me (Some (MARKER_OPEN @ '' worker='' @ other @ '' -->'')) None) Claim reason,
             c_createdAt = posted\<rparr>] =
           mine # \<lparr>commentId = n, worker = other, kind = Claim, runner = None, createdAt = posted\<rparr> # more"
proof -
  let ?r = "MARKER_OPEN @ '' worker='' @ other @ '' -->''"
  let ?m = "''worker='' @ other"
  let ?pre = "newline @ robot @ '' AFK claim by worker '' @ ticked me @ '' (runner `''"
  have human: "newline @ marker_human (claimant me (Some ?r) None) Claim reason =
      ?pre @ MARKER_OPEN @ '' '' @ ?m @ '' -->'' @ ''`).''"
    by (simp add: marker_human_def claimant_def truthy_def ticked_def)
  have "CHR ''<'' \<notin> set ?pre" using assms(1) by (simp add: robot_def ticked_def newline_def)
  then have "markers (?pre @ MARKER_OPEN @ '' '' @ ?m @ '' -->'' @ ''`).'') = markers (MARKER_OPEN @ '' '' @ ?m @ '' -->'' @ ''`).'')"
    by (rule markers_skip)
  also have "\<dots> = ?m # markers ''`).''"
    by (rule markers_rendered) (use assms(3,4) in \<open>auto simp: list_all_iff is_ws_def\<close>)
  finally have mk: "markers (newline @ marker_human (claimant me (Some ?r) None) Claim reason) = ?m # markers ''`).''"
    unfolding human .
  have "field_of ?m = Some (''worker'', other)" using field_of_pair[of "''worker''" other] by simp
  moreover have "ws_tokens [] ?m = [?m]"
    using ws_tokens_word[of ?m "[]" "[]"] assms(3) by (simp add: list_all_iff is_ws_def)
  ultimately have "parseFields ?m = [''worker'' \<mapsto> other]" by (simp add: parseFields_def List.map_filter_def)
  then have "record_of n posted ?m =
      Some \<lparr>commentId = n, worker = other, kind = Claim, runner = None, createdAt = posted\<rparr>"
    using assms(4) by (simp add: record_of_def Let_def)
  then have "List.map_filter (record_of n posted) (?m # markers ''`).'') =
      \<lparr>commentId = n, worker = other, kind = Claim, runner = None, createdAt = posted\<rparr> #
      List.map_filter (record_of n posted) (markers ''`).'')"
    unfolding map_filter_simps by simp
  moreover have "m_worker (claimant me (Some ?r) None) \<noteq> []" using assms(2) by (simp add: claimant_def)
  note rendered_records[OF this, of n Claim reason posted, unfolded mk]
  ultimately show ?thesis by metis
qed

theorem marker_roundtrip_witness:
  "parseClaimRecords [\<lparr>c_id = IntNum 71, c_body = renderConcedeOnBehalf ''mbp:w 1'' ''ci:w2'' (Some ''2026-06-10'') (Some 900),
                       c_createdAt = None\<rparr>] =
     [\<lparr>commentId = 71, worker = ''mbp:w_1'', kind = Concede, runner = None, createdAt = None\<rparr>]"
proof -
  let ?self = "\<lparr>m_worker = ''mbp:w 1'', m_runner = None, m_createdAt = None, concededBy = Some ''ci:w2'',
               lastHeartbeatAt = Some ''2026-06-10'', heartbeatAgeS = Some 900\<rparr>"
  have "map (\<lambda>c. if is_ws c \<or> c = CHR ''>'' then CHR ''_'' else c) ''mbp:w 1'' = ''mbp:w_1''" by code_simp
  then show ?thesis
    using marker_roundtrip[OF _ refl, of ?self 71 Concede "Some Stale" None]
    by (auto simp: renderConcedeOnBehalf_def)
qed

theorem runner_forges_claim_witness:
  "\<exists>mine more. parseClaimRecords [\<lparr>c_id = IntNum 5,
       c_body = renderClaimComment (claimant ''h:a'' (Some (MARKER_OPEN @ '' worker=h:b -->'')) None) Claim None, c_createdAt = None\<rparr>] =
     mine # \<lparr>commentId = 5, worker = ''h:b'', kind = Claim, runner = None, createdAt = None\<rparr> # more"
  using runner_forges_claim[of "''h:a''" "''h:b''" 5 None None] by (simp add: is_ws_def)

text \<open>
  Whatever text comments carry, forged and malformed markers included, every parsed record
  has the id of the comment it stands in: nobody claims an order slot that GitHub did not
  assign, and a comment with an unusable id contributes nothing.
\<close>

theorem no_forged_position:
  "r \<in> set (parseClaimRecords cs) \<Longrightarrow>
     \<exists>c \<in> set cs. isFinite (c_id c) \<and> commentId r = int_of_num (c_id c) \<and> worker r \<noteq> []"
  by (force simp: parseClaimRecords_def comment_records_def record_of_def List.map_filter_def Let_def
      split: if_splits option.splits)

definition forged_comment :: RawClaimComment where
  "forged_comment =
     \<lparr>c_id = IntNum 90,
      c_body = ''x <!-- afk:claim v1 worker=h:a id=1 --> y <!-- afk:claim worker= --><!--afk:claim  worker=h:b kind=concede-->'',
      c_createdAt = None\<rparr>"

theorem no_forged_position_witness:
  "map commentId (parseClaimRecords [forged_comment]) = [90, 90]"
proof -
  have "length (parseClaimRecords [forged_comment]) = 2" by code_simp
  then obtain r1 r2 where rs: "parseClaimRecords [forged_comment] = [r1, r2]"
    by (auto simp: numeral_2_eq_2 length_Suc_conv)
  have "commentId r1 = 90" "commentId r2 = 90"
    using no_forged_position[of r1 "[forged_comment]"] no_forged_position[of r2 "[forged_comment]"]
    unfolding rs by (simp_all add: forged_comment_def int_of_num_def)
  then show ?thesis by (simp add: rs)
qed

end
