(* ===== verification/Claim.thy ===== *)
theory Claim
  imports Claim_Marker Engine_Config "HOL-Library.Product_Lexorder" "HOL-Library.Multiset"
begin

text \<open>
  The claim protocol: the reconciler and the orchestrator of
  \<open>packages/worker/src/engine/tracker/claim.ts\<close> and the read-back of
  \<open>tracker/claim-verification.ts\<close>.

  The reconciler is a function. The orchestrator drives GitHub, which is a service: the id a
  post returns, the list each read-back returns and the failure of each write are parameters,
  and the comments it posts are its trace. A thrown error is the left summand of a result.
  \<open>Date.parse\<close>, whose answer on texts that are no ISO time is implementation-defined, is a
  parameter giving milliseconds.
\<close>

section \<open>Data\<close>

record ClaimSelf =
  self_worker :: string
  self_commentId :: jsnum
  self_runner :: "string option"
  self_createdAt :: "string option"

datatype ClaimVerdict = Won | LostRace

datatype ClaimVerificationFailure = Propagation | Infrastructure

datatype claim_error =
    ClaimVerificationError string ClaimVerificationFailure
  | GhError string

record ClaimDecision =
  verdict :: ClaimVerdict
  winner :: "string option"
  reason :: string
  winnerClaimId :: "int option"
  winnerCreatedAt :: "string option"
  recovered :: "string list"

section \<open>The reconciler\<close>

text \<open>One worker's fold, and the insertion-ordered map of the folds.\<close>

record claim_fold =
  earliestClaimId :: "int option"
  latestId :: int
  latestKind :: ClaimKind
  latestRecord :: ClaimRecord

type_synonym folds = "(string \<times> claim_fold) list"

definition first_fold :: "ClaimRecord \<Rightarrow> claim_fold" where
  "first_fold r =
     \<lparr>earliestClaimId = (if kind r = Claim then Some (commentId r) else None),
      latestId = commentId r, latestKind = kind r, latestRecord = r\<rparr>"

definition next_fold :: "claim_fold \<Rightarrow> ClaimRecord \<Rightarrow> claim_fold" where
  "next_fold f r =
     (let f1 = (if kind r = Claim \<and> (case earliestClaimId f of None \<Rightarrow> True | Some e \<Rightarrow> commentId r < e)
                then f\<lparr>earliestClaimId := Some (commentId r)\<rparr> else f) in
      if latestId f \<le> commentId r
      then f1\<lparr>latestId := commentId r, latestKind := kind r, latestRecord := r\<rparr> else f1)"

definition ingest :: "folds \<Rightarrow> ClaimRecord \<Rightarrow> folds" where
  "ingest fs r =
     (if worker r = [] then fs
      else (case map_of fs (worker r) of
              None \<Rightarrow> obj_set fs (worker r) (first_fold r)
            | Some f \<Rightarrow> obj_set fs (worker r) (next_fold f r)))"

definition self_record :: "ClaimSelf \<Rightarrow> ClaimRecord" where
  "self_record self =
     \<lparr>commentId = int_of_num (self_commentId self), worker = self_worker self, kind = Claim,
      runner = self_runner self, createdAt = self_createdAt self\<rparr>"

definition selfPostedFresh :: "ClaimRecord list \<Rightarrow> ClaimSelf \<Rightarrow> bool" where
  "selfPostedFresh records self \<longleftrightarrow>
     isFinite (self_commentId self) \<and>
     list_all (\<lambda>r. commentId r \<le> int_of_num (self_commentId self)) records"

text \<open>The loop over the folds: who contends, and who is stale, each with its order key.\<close>

fun split_folds ::
    "(string \<Rightarrow> ClaimRecord \<Rightarrow> bool) \<Rightarrow> folds \<Rightarrow> (int \<times> string) list \<times> (int \<times> string) list" where
  "split_folds stale [] = ([], [])"
| "split_folds stale ((w, f) # fs) =
     (let (cs, ss) = split_folds stale fs in
      if latestKind f = Concede then (cs, ss)
      else (case earliestClaimId f of
              None \<Rightarrow> (cs, ss)
            | Some e \<Rightarrow> if stale w (latestRecord f) then (cs, (e, w) # ss) else ((e, w) # cs, ss)))"

definition not_survived :: "ClaimSelf \<Rightarrow> string" where
  "not_survived self =
     ''claim verification failed on the reconciler: our own claim (worker '' @ json_quote (self_worker self) @
     '', comment id '' @ show_int (int_of_num (self_commentId self)) @
     '') did not survive reconciliation '' @ em_dash @ '' no live claim contends''"

definition show_id :: "jsnum \<Rightarrow> string" where
  "show_id x =
     (case x of NaN \<Rightarrow> ''NaN'' | PosInf \<Rightarrow> ''Infinity'' | NegInf \<Rightarrow> ''-Infinity'' | Num r \<Rightarrow> show_int \<lfloor>r\<rfloor>)"

definition unusable_identity :: "ClaimSelf \<Rightarrow> string" where
  "unusable_identity self =
     ''claim verification failed: unusable claimant identity (worker '' @ json_quote (self_worker self) @
     '', comment id '' @ show_id (self_commentId self) @ '')''"

definition latest_createdAt :: "folds \<Rightarrow> string \<Rightarrow> string option" where
  "latest_createdAt fs w = (case map_of fs w of None \<Rightarrow> None | Some f \<Rightarrow> createdAt (latestRecord f))"

definition reconcileClaim ::
    "ClaimRecord list \<Rightarrow> ClaimSelf \<Rightarrow> (ClaimRecord \<Rightarrow> bool) \<Rightarrow> claim_error + ClaimDecision" where
  "reconcileClaim records self isStale =
     (if \<not> isFinite (self_commentId self) \<or> self_worker self = []
      then Inl (ClaimVerificationError (unusable_identity self) Propagation)
      else
        (let me = self_worker self;
             fresh = selfPostedFresh records self;
             fs = foldl ingest [] (records @ [self_record self]);
             (contenders, stale) = split_folds (\<lambda>w r. \<not> (w = me \<and> fresh) \<and> isStale r) fs in
         case sort contenders of
           [] \<Rightarrow>
             if fresh then Inl (ClaimVerificationError (not_survived self) Propagation)
             else Inr \<lparr>verdict = LostRace, winner = None, reason = ''no live claim contends'',
                       winnerClaimId = None, winnerCreatedAt = None, recovered = []\<rparr>
         | (cid, w) # _ \<Rightarrow>
             if w = me
             then Inr \<lparr>verdict = Won, winner = Some w,
                       reason = (if length contenders = 1 then ''solo claim''
                                 else ''earliest of '' @ show_nat (length contenders) @ '' live claims (id '' @
                                      show_int cid @ '')''),
                       winnerClaimId = Some cid, winnerCreatedAt = latest_createdAt fs w,
                       recovered = sort (map snd (filter (\<lambda>(c, _). c < cid) stale))\<rparr>
             else Inr \<lparr>verdict = LostRace, winner = Some w,
                       reason = ''worker '' @ w @ '' holds earlier claim (id '' @ show_int cid @ '' < our '' @
                                show_int (int_of_num (self_commentId self)) @ '')'',
                       winnerClaimId = Some cid, winnerCreatedAt = latest_createdAt fs w,
                       recovered = []\<rparr>))"

section \<open>The read-back\<close>

definition DEFAULT_VERIFY_ATTEMPTS :: int where
  "DEFAULT_VERIFY_ATTEMPTS = 4"

definition classifyVerificationFailure :: "bool \<Rightarrow> string \<Rightarrow> ClaimVerificationFailure" where
  "classifyVerificationFailure sawPopulatedList lastMessage =
     (if \<not> sawPopulatedList \<and> text_includes '' from 0 listed comment'' lastMessage
      then Infrastructure else Propagation)"

definition UNBELIEVABLE_READ_BACK_DETAIL :: string where
  "UNBELIEVABLE_READ_BACK_DETAIL =
     '' '' @ em_dash @ '' every read-back listed zero comments while our own claim comment existed,'' @
     '' so this is a read that cannot be believed rather than a lost race''"

text \<open>\<open>===\<close> on numbers.\<close>

definition num_eq :: "jsnum \<Rightarrow> jsnum \<Rightarrow> bool" where
  "num_eq x y \<longleftrightarrow> x = y \<and> x \<noteq> NaN"

definition absent_message :: "jsnum \<Rightarrow> nat \<Rightarrow> string" where
  "absent_message cid n =
     ''our claim comment '' @ show_id cid @ '' was absent from '' @ show_nat n @ '' listed comment(s)''"

text \<open>
  The retry loop. \<open>reads attempt\<close> is what the attempt's read returns, or the message of what it
  throws; the sleeps between attempts have no effect on the result.
\<close>

fun read_back ::
    "(nat \<Rightarrow> string + RawClaimComment list) \<Rightarrow> jsnum \<Rightarrow> nat \<Rightarrow> nat \<Rightarrow> bool \<Rightarrow> string \<Rightarrow>
     (bool \<times> string) + RawClaimComment list" where
  "read_back reads cid attempt 0 saw lastError = Inl (saw, lastError)"
| "read_back reads cid attempt (Suc left) saw lastError =
     (case reads attempt of
        Inl e \<Rightarrow> read_back reads cid (attempt + 1) left saw e
      | Inr raw \<Rightarrow>
          if list_ex (\<lambda>c. num_eq (c_id c) cid) raw then Inr raw
          else read_back reads cid (attempt + 1) left (saw \<or> length raw > 0) (absent_message cid (length raw)))"

definition verify_attempts :: "int option \<Rightarrow> int" where
  "verify_attempts v = max 1 (case v of None \<Rightarrow> DEFAULT_VERIFY_ATTEMPTS | Some a \<Rightarrow> a)"

definition listVerifiedClaims ::
    "(nat \<Rightarrow> string + RawClaimComment list) \<Rightarrow> int \<Rightarrow> jsnum \<Rightarrow> int option \<Rightarrow> claim_error + RawClaimComment list" where
  "listVerifiedClaims reads issue cid verifyAttempts =
     (let attempts = verify_attempts verifyAttempts in
      case read_back reads cid 0 (nat attempts) False ''undefined'' of
        Inr raw \<Rightarrow> Inr raw
      | Inl (saw, detail) \<Rightarrow>
          (let k = classifyVerificationFailure saw detail in
           Inl (ClaimVerificationError
                  (''claim verification failed on #'' @ show_int issue @ '' after '' @ show_int attempts @
                   '' read-back attempt(s): '' @ detail @
                   (if k = Infrastructure then UNBELIEVABLE_READ_BACK_DETAIL else [])) k)))"

section \<open>The orchestrator\<close>

datatype ClaimCall = PostClaim string | ConcedeCall string | AuditCall string

text \<open>Which write fails after which trace, and with what message.\<close>

type_synonym claim_faults = "ClaimCall list \<Rightarrow> ClaimCall \<Rightarrow> string option"

record AcquireClaimOptions =
  isStale_opt :: "ClaimRecord \<Rightarrow> bool"
  suppressConcede :: bool
  deathFor :: "(string \<Rightarrow> string option) option"
  verifyAttempts :: "int option"
  nowS :: int
  hasAudit :: bool

definition latest_of :: "ClaimRecord list \<Rightarrow> string \<Rightarrow> ClaimRecord option" where
  "latest_of records owner =
     (case sort_key (\<lambda>r. - commentId r) (filter (\<lambda>r. worker r = owner) records) of
        [] \<Rightarrow> None | r # _ \<Rightarrow> Some r)"

definition eviction_body :: "(string \<Rightarrow> int option) \<Rightarrow> int \<Rightarrow> string \<Rightarrow> ClaimRecord list \<Rightarrow> string \<Rightarrow> string" where
  "eviction_body dateParse now me records owner =
     (let heartbeat = (case latest_of records owner of None \<Rightarrow> None | Some r \<Rightarrow> createdAt r);
          seconds = (case heartbeat of
                       None \<Rightarrow> None
                     | Some t \<Rightarrow> if t = [] then None else map_option (\<lambda>ms. ms div 1000) (dateParse t))
      in renderConcedeOnBehalf owner me heartbeat (map_option (\<lambda>s. max 0 (now - s)) seconds))"

text \<open>A run of writes; the first failure ends it.\<close>

fun write_all :: "claim_faults \<Rightarrow> ClaimCall list \<Rightarrow> ClaimCall list \<Rightarrow> claim_error option \<times> ClaimCall list" where
  "write_all fails trace [] = (None, trace)"
| "write_all fails trace (c # cs) =
     (case fails trace c of Some e \<Rightarrow> (Some (GhError e), trace) | None \<Rightarrow> write_all fails (trace @ [c]) cs)"

definition audit_write :: "claim_faults \<Rightarrow> ClaimCall list \<Rightarrow> ClaimCall \<Rightarrow> ClaimCall list" where
  "audit_write fails trace c = (case fails trace c of None \<Rightarrow> trace @ [c] | Some _ \<Rightarrow> trace)"

definition settle_claim ::
    "claim_faults \<Rightarrow> (string \<Rightarrow> int option) \<Rightarrow> AcquireClaimOptions \<Rightarrow> ClaimSelf \<Rightarrow> ClaimRecord list \<Rightarrow>
     ClaimCall list \<Rightarrow> ClaimDecision \<Rightarrow> (claim_error + ClaimDecision) \<times> ClaimCall list" where
  "settle_claim fails dateParse opts self records trace d =
     (let me = self_worker self;
          concedes =
            (if verdict d = LostRace \<and> \<not> suppressConcede opts
             then [ConcedeCall (renderClaimComment (claimant me (self_runner self) None) Concede (Some Lost))]
             else if verdict d = Won
             then map (\<lambda>owner. ConcedeCall (eviction_body dateParse (nowS opts) me records owner)) (recovered d)
             else []);
          (err, trace1) = write_all fails trace concedes in
      case err of
        Some e \<Rightarrow> (Inl e, trace1)
      | None \<Rightarrow>
          (Inr d,
           if verdict d = Won \<and> length (recovered d) > 0 \<and> hasAudit opts
           then audit_write fails trace1 (AuditCall (renderRecoveryAudit me (recovered d) (deathFor opts)))
           else trace1))"

text \<open>\<open>post\<close> is the id the claim comment gets, \<open>reads\<close> the read-backs that follow.\<close>

definition acquireClaim ::
    "claim_faults \<Rightarrow> (string \<Rightarrow> int option) \<Rightarrow> jsnum \<Rightarrow> (nat \<Rightarrow> string + RawClaimComment list) \<Rightarrow>
     string \<Rightarrow> string option \<Rightarrow> string option \<Rightarrow> int \<Rightarrow> AcquireClaimOptions \<Rightarrow>
     (claim_error + ClaimDecision) \<times> ClaimCall list" where
  "acquireClaim fails dateParse post reads me rnr created issue opts =
     (let post_call = PostClaim (renderClaimComment (claimant me rnr created) Claim None);
          self = \<lparr>self_worker = me, self_commentId = post, self_runner = rnr, self_createdAt = created\<rparr> in
      case fails [] post_call of
        Some e \<Rightarrow> (Inl (GhError e), [])
      | None \<Rightarrow>
          (case listVerifiedClaims reads issue post (verifyAttempts opts) of
             Inl e \<Rightarrow> (Inl e, [post_call])
           | Inr raw \<Rightarrow>
               (case reconcileClaim (parseClaimRecords raw) self (isStale_opt opts) of
                  Inl e \<Rightarrow> (Inl e, [post_call])
                | Inr d \<Rightarrow> settle_claim fails dateParse opts self (parseClaimRecords raw) [post_call] d)))"

section \<open>Heartbeats\<close>

record ClaimHeartbeat =
  h_issue :: int
  h_worker :: string
  h_runner :: "string option"
  h_commentId :: int
  lastHeartbeatS :: int

record ClaimHeartbeatBatchResult =
  refreshed :: "int list"
  skipped :: "int list"
  edits :: "(int \<times> string) list"

text \<open>\<open>editClaim\<close> answers whether the edit was accepted; \<open>toISO\<close> prints epoch seconds.\<close>

definition refresh_body :: "(int \<Rightarrow> string) \<Rightarrow> int \<Rightarrow> ClaimHeartbeat \<Rightarrow> string" where
  "refresh_body toISO now c =
     renderClaimComment (claimant (h_worker c) (h_runner c) (Some (toISO now))) Claim None"

definition refresh_step ::
    "(int \<Rightarrow> bool) \<Rightarrow> (int \<Rightarrow> string) \<Rightarrow> int \<Rightarrow> int \<Rightarrow> ClaimHeartbeatBatchResult \<Rightarrow> ClaimHeartbeat \<Rightarrow>
     ClaimHeartbeatBatchResult" where
  "refresh_step editClaim toISO now cadenceS b c =
     (if now - lastHeartbeatS c < cadenceS then b\<lparr>skipped := skipped b @ [h_issue c]\<rparr>
      else (let b' = b\<lparr>edits := edits b @ [(h_commentId c, refresh_body toISO now c)]\<rparr> in
            if editClaim (h_commentId c) then b'\<lparr>refreshed := refreshed b @ [h_issue c]\<rparr>
            else b'\<lparr>skipped := skipped b @ [h_issue c]\<rparr>))"

definition refreshClaimHeartbeats ::
    "(int \<Rightarrow> bool) \<Rightarrow> (int \<Rightarrow> string) \<Rightarrow> ClaimHeartbeat list \<Rightarrow> int \<Rightarrow> int \<Rightarrow> ClaimHeartbeatBatchResult" where
  "refreshClaimHeartbeats editClaim toISO claims now cadenceS =
     foldl (refresh_step editClaim toISO now cadenceS) \<lparr>refreshed = [], skipped = [], edits = []\<rparr> claims"

section \<open>The specification: earliest live claim\<close>

definition words_of :: "ClaimRecord list \<Rightarrow> string \<Rightarrow> ClaimRecord list" where
  "words_of rs w = filter (\<lambda>r. worker r = w) rs"

text \<open>The word with the highest id; of two with one id, the later in the list.\<close>

fun latest_word :: "ClaimRecord list \<Rightarrow> ClaimRecord option" where
  "latest_word [] = None"
| "latest_word (r # rs) =
     (case latest_word rs of None \<Rightarrow> Some r | Some l \<Rightarrow> if commentId r \<le> commentId l then Some l else Some r)"

definition claim_ids :: "ClaimRecord list \<Rightarrow> string \<Rightarrow> int set" where
  "claim_ids rs w = {commentId r |r. r \<in> set rs \<and> worker r = w \<and> kind r = Claim}"

text \<open>A worker contends when its latest word is a claim that is not stale.\<close>

definition contends :: "(string \<Rightarrow> ClaimRecord \<Rightarrow> bool) \<Rightarrow> ClaimRecord list \<Rightarrow> string \<Rightarrow> bool" where
  "contends stale rs w \<longleftrightarrow>
     w \<noteq> [] \<and> (case latest_word (words_of rs w) of None \<Rightarrow> False | Some l \<Rightarrow> kind l = Claim \<and> \<not> stale w l)"

definition order_key :: "ClaimRecord list \<Rightarrow> string \<Rightarrow> int \<times> string" where
  "order_key rs w = (Min (claim_ids rs w), w)"

section \<open>Lemmas on the fold\<close>

lemma finite_claim_ids [simp]: "finite (claim_ids rs w)"
proof -
  have "claim_ids rs w \<subseteq> commentId ` set rs" by (auto simp: claim_ids_def)
  then show ?thesis by (rule finite_subset) simp
qed

lemma latest_word_in: "latest_word rs = Some l \<Longrightarrow> l \<in> set rs \<and> (\<forall>r \<in> set rs. commentId r \<le> commentId l)"
proof (induction rs arbitrary: l)
  case (Cons r rs)
  show ?case
  proof (cases "latest_word rs")
    case None
    then show ?thesis using Cons.prems by (cases rs) (auto split: option.splits if_splits)
  next
    case (Some a)
    then show ?thesis using Cons.IH[of a] Cons.prems by (auto split: if_splits)
  qed
qed simp

lemma latest_word_None [simp]: "latest_word rs = None \<longleftrightarrow> rs = []"
  by (cases rs) (auto split: option.splits)

lemma latest_word_snoc:
  "latest_word (rs @ [r]) =
     (case latest_word rs of None \<Rightarrow> Some r | Some l \<Rightarrow> if commentId l \<le> commentId r then Some r else Some l)"
  by (induction rs) (auto split: option.splits)

lemma latest_word_newest: "\<forall>r \<in> set rs. commentId r \<le> commentId x \<Longrightarrow> latest_word (rs @ [x]) = Some x"
  using latest_word_in[of rs] by (cases "latest_word rs") (simp_all add: latest_word_snoc)

lemma claim_ids_snoc:
  "claim_ids (rs @ [r]) w =
     (if worker r = w \<and> kind r = Claim then insert (commentId r) (claim_ids rs w) else claim_ids rs w)"
  by (auto simp: claim_ids_def)

lemma words_of_snoc: "words_of (rs @ [r]) w = words_of rs w @ (if worker r = w then [r] else [])"
  by (simp add: words_of_def)

text \<open>What a worker's fold is, in terms of its words.\<close>

definition fold_ok :: "ClaimRecord list \<Rightarrow> string \<Rightarrow> claim_fold option \<Rightarrow> bool" where
  "fold_ok rs w fo \<longleftrightarrow>
     (case fo of
        None \<Rightarrow> w = [] \<or> words_of rs w = []
      | Some f \<Rightarrow>
          w \<noteq> [] \<and> latest_word (words_of rs w) = Some (latestRecord f) \<and>
          latestId f = commentId (latestRecord f) \<and> latestKind f = kind (latestRecord f) \<and>
          earliestClaimId f = (if claim_ids rs w = {} then None else Some (Min (claim_ids rs w))))"

lemma no_words_no_claims: "words_of rs w = [] \<Longrightarrow> claim_ids rs w = {}"
  by (auto simp: words_of_def claim_ids_def filter_empty_conv)

lemma first_fold_ok: "w \<noteq> [] \<Longrightarrow> words_of rs w = [] \<Longrightarrow> worker r = w \<Longrightarrow> fold_ok (rs @ [r]) w (Some (first_fold r))"
  using no_words_no_claims[of rs w]
  by (auto simp: fold_ok_def words_of_snoc claim_ids_snoc first_fold_def)

lemma next_fold_ok:
  assumes "fold_ok rs w (Some f)" and "worker r = w"
  shows "fold_ok (rs @ [r]) w (Some (next_fold f r))"
proof -
  have e: "earliestClaimId f = (if claim_ids rs w = {} then None else Some (Min (claim_ids rs w)))"
    and l: "latest_word (words_of rs w) = Some (latestRecord f)" "latestId f = commentId (latestRecord f)"
      "latestKind f = kind (latestRecord f)" "w \<noteq> []"
    using assms(1) by (auto simp: fold_ok_def)
  have "earliestClaimId (next_fold f r) =
        (if claim_ids (rs @ [r]) w = {} then None else Some (Min (claim_ids (rs @ [r]) w)))"
    using assms(2) e
    by (cases "kind r"; cases "claim_ids rs w = {}")
       (simp_all add: next_fold_def claim_ids_snoc Let_def min_def Min_insert del: Min_gr_iff Min_le_iff Min_ge_iff)
  moreover have "latest_word (words_of (rs @ [r]) w) = Some (latestRecord (next_fold f r)) \<and>
      latestId (next_fold f r) = commentId (latestRecord (next_fold f r)) \<and>
      latestKind (next_fold f r) = kind (latestRecord (next_fold f r))"
    using assms(2) l by (simp add: words_of_snoc latest_word_snoc next_fold_def Let_def)
  ultimately show ?thesis using l(4) by (simp add: fold_ok_def)
qed

lemma fold_ok_other: "worker r \<noteq> w \<Longrightarrow> fold_ok (rs @ [r]) w fo = fold_ok rs w fo"
  by (cases fo) (simp_all add: fold_ok_def words_of_snoc claim_ids_snoc)

lemma ingest_ok:
  assumes "\<And>w. fold_ok rs w (map_of fs w)"
  shows "fold_ok (rs @ [r]) w (map_of (ingest fs r) w)"
proof (cases "worker r = w")
  case False
  then have "map_of (ingest fs r) w = map_of fs w" by (auto simp: ingest_def split: option.splits)
  then show ?thesis using False assms by (simp add: fold_ok_other)
next
  case True
  show ?thesis
  proof (cases "w = []")
    case nil: True
    then have "map_of fs w = None" using assms[of w] by (auto simp: fold_ok_def split: option.splits)
    then show ?thesis using True nil by (simp add: ingest_def fold_ok_def)
  next
    case ne: False
    show ?thesis
    proof (cases "map_of fs w")
      case None
      then have "words_of rs w = []" using assms[of w] ne by (simp add: fold_ok_def)
      then show ?thesis using True ne None first_fold_ok by (simp add: ingest_def)
    next
      case (Some f)
      then show ?thesis using True ne assms[of w] next_fold_ok by (simp add: ingest_def)
    qed
  qed
qed

lemma folds_ok: "fold_ok rs w (map_of (foldl ingest [] rs) w)"
proof (induction rs arbitrary: w rule: rev_induct)
  case Nil
  then show ?case by (simp add: fold_ok_def words_of_def)
next
  case (snoc r rs)
  then show ?case using ingest_ok[of rs "foldl ingest [] rs" r] by simp
qed

lemma folds_distinct: "distinct (map fst (foldl ingest [] rs))"
proof (induction rs rule: rev_induct)
  case (snoc r rs)
  then show ?case by (auto simp: ingest_def distinct_obj_set split: option.splits)
qed simp

lemma split_folds_contenders:
  "distinct (map fst fs) \<Longrightarrow>
     set (fst (split_folds stale fs)) =
       {(e, w). \<exists>f. map_of fs w = Some f \<and> latestKind f = Claim \<and> earliestClaimId f = Some e \<and> \<not> stale w (latestRecord f)}"
proof (induction stale fs rule: split_folds.induct)
  case (2 stale w f fs)
  have "map_of fs w = None" using "2.prems" by (simp add: map_of_eq_None_iff)
  then show ?case
    using 2 by (cases "latestKind f"; cases "earliestClaimId f")
      (auto simp: case_prod_beta Let_def split: if_splits)
qed simp

lemma contender_claims: "contends stale rs w \<Longrightarrow> claim_ids rs w \<noteq> {}"
  using latest_word_in by (fastforce simp: contends_def claim_ids_def words_of_def split: option.splits)

lemma contenders_spec:
  "set (fst (split_folds stale (foldl ingest [] rs))) = order_key rs ` {w. contends stale rs w}"
proof -
  have "(\<exists>f. map_of (foldl ingest [] rs) w = Some f \<and> latestKind f = Claim \<and> earliestClaimId f = Some e \<and>
             \<not> stale w (latestRecord f)) \<longleftrightarrow> contends stale rs w \<and> e = Min (claim_ids rs w)" for e w
    using folds_ok[of rs w] contender_claims[of stale rs w]
    by (cases "map_of (foldl ingest [] rs) w")
       (auto simp: fold_ok_def contends_def split: if_splits option.splits)
  then show ?thesis unfolding split_folds_contenders[OF folds_distinct] by (auto simp: order_key_def)
qed

section \<open>Lemmas on the reconciler\<close>

definition usable :: "ClaimSelf \<Rightarrow> bool" where
  "usable self \<longleftrightarrow> isFinite (self_commentId self) \<and> self_worker self \<noteq> []"

text \<open>The records the decision rests on, and the staleness it applies.\<close>

definition heard :: "ClaimRecord list \<Rightarrow> ClaimSelf \<Rightarrow> ClaimRecord list" where
  "heard records self = records @ [self_record self]"

definition stale_to :: "ClaimRecord list \<Rightarrow> ClaimSelf \<Rightarrow> (ClaimRecord \<Rightarrow> bool) \<Rightarrow> string \<Rightarrow> ClaimRecord \<Rightarrow> bool" where
  "stale_to records self isStale w r \<longleftrightarrow> \<not> (w = self_worker self \<and> selfPostedFresh records self) \<and> isStale r"

definition live_claimants :: "ClaimRecord list \<Rightarrow> ClaimSelf \<Rightarrow> (ClaimRecord \<Rightarrow> bool) \<Rightarrow> string set" where
  "live_claimants records self isStale = {w. contends (stale_to records self isStale) (heard records self) w}"

definition contender_list :: "ClaimRecord list \<Rightarrow> ClaimSelf \<Rightarrow> (ClaimRecord \<Rightarrow> bool) \<Rightarrow> (int \<times> string) list" where
  "contender_list records self isStale =
     fst (split_folds (stale_to records self isStale) (foldl ingest [] (heard records self)))"

lemma set_contender_list:
  "set (contender_list records self isStale) =
     order_key (heard records self) ` live_claimants records self isStale"
  by (simp add: contender_list_def contenders_spec live_claimants_def)

lemma reconcile_none:
  assumes "usable self" and "live_claimants records self isStale = {}"
  shows "reconcileClaim records self isStale =
         (if selfPostedFresh records self then Inl (ClaimVerificationError (not_survived self) Propagation)
          else Inr \<lparr>verdict = LostRace, winner = None, reason = ''no live claim contends'',
                    winnerClaimId = None, winnerCreatedAt = None, recovered = []\<rparr>)"
proof -
  have "contender_list records self isStale = []"
    using set_contender_list[of records self isStale] assms(2) by simp
  then show ?thesis
    using assms(1) unfolding reconcileClaim_def contender_list_def heard_def usable_def stale_to_def[abs_def]
    by (auto simp: Let_def case_prod_beta)
qed

lemma reconcile_some:
  assumes "usable self" and ne: "live_claimants records self isStale \<noteq> {}"
  shows "\<exists>d w. reconcileClaim records self isStale = Inr d \<and> winner d = Some w \<and>
           w \<in> live_claimants records self isStale \<and>
           (\<forall>v \<in> live_claimants records self isStale. order_key (heard records self) w \<le> order_key (heard records self) v) \<and>
           (verdict d = Won \<longleftrightarrow> w = self_worker self) \<and>
           winnerClaimId d = Some (Min (claim_ids (heard records self) w))"
proof -
  let ?cs = "contender_list records self isStale"
  obtain cid w rest where srt: "sort ?cs = (cid, w) # rest"
    using ne set_contender_list[of records self isStale] by (cases "sort ?cs") (auto dest: arg_cong[where f = set])
  have "(cid, w) \<in> set ?cs" using srt by (metis list.set_intros(1) set_sort)
  then have cw: "w \<in> live_claimants records self isStale" "(cid, w) = order_key (heard records self) w"
    unfolding set_contender_list by (auto simp: order_key_def)
  have "\<forall>x \<in> set ?cs. (cid, w) \<le> x" using sorted_sort[of ?cs] srt by (metis set_ConsD set_sort sorted_simps(2) order_refl)
  then have min: "\<forall>v \<in> live_claimants records self isStale. order_key (heard records self) w \<le> order_key (heard records self) v"
    unfolding set_contender_list cw(2) by blast
  have "\<exists>d. reconcileClaim records self isStale = Inr d \<and> winner d = Some w \<and>
          (verdict d = Won \<longleftrightarrow> w = self_worker self) \<and> winnerClaimId d = Some cid"
    using assms(1) srt
    unfolding reconcileClaim_def contender_list_def heard_def usable_def stale_to_def[abs_def]
    by (auto simp: Let_def case_prod_beta)
  then show ?thesis using cw min by (auto simp: order_key_def)
qed

lemma fresh_contends:
  assumes "usable self" and fresh: "selfPostedFresh records self"
  shows "self_worker self \<in> live_claimants records self isStale"
proof -
  let ?w = "self_worker self"
  have "\<forall>r \<in> set (words_of records ?w). commentId r \<le> commentId (self_record self)"
    using fresh by (auto simp: selfPostedFresh_def list_all_iff words_of_def self_record_def)
  then have "latest_word (words_of (heard records self) ?w) = Some (self_record self)"
    by (simp add: heard_def words_of_snoc latest_word_newest self_record_def)
  then show ?thesis
    using assms by (simp add: live_claimants_def contends_def usable_def stale_to_def self_record_def)
qed

lemma reconcile_unusable: "\<not> usable self \<Longrightarrow> \<exists>e. reconcileClaim records self isStale = Inl e"
  by (auto simp: usable_def reconcileClaim_def)

lemma reconcile_total: "usable self \<Longrightarrow> \<exists>d. reconcileClaim records self isStale = Inr d"
  using reconcile_none[of self records isStale] reconcile_some[of self records isStale]
    fresh_contends[of self records isStale]
  by (cases "live_claimants records self isStale = {}"; cases "selfPostedFresh records self") auto

text \<open>What a win means.\<close>

lemma won_least:
  assumes "reconcileClaim records self isStale = Inr d" and "verdict d = Won"
  shows "self_worker self \<in> live_claimants records self isStale"
    and "v \<in> live_claimants records self isStale \<Longrightarrow>
         order_key (heard records self) (self_worker self) \<le> order_key (heard records self) v"
proof -
  have u: "usable self" using reconcile_unusable[of self records isStale] assms(1) by auto
  have ne: "live_claimants records self isStale \<noteq> {}"
    using reconcile_none[OF u, of records isStale] assms by (auto split: if_splits)
  from reconcile_some[OF u ne] assms
  show "self_worker self \<in> live_claimants records self isStale"
    "v \<in> live_claimants records self isStale \<Longrightarrow>
         order_key (heard records self) (self_worker self) \<le> order_key (heard records self) v" by auto
qed

section \<open>Mutual exclusion\<close>

text \<open>
  A thread of records in the order GitHub assigned: ids strictly increase. A claimant decides on
  a thread in which it sees its own claim.
\<close>

definition thread :: "ClaimRecord list \<Rightarrow> bool" where
  "thread rs \<longleftrightarrow> sorted_wrt (\<lambda>r s. commentId r < commentId s) rs"

definition sees_own :: "ClaimRecord list \<Rightarrow> ClaimSelf \<Rightarrow> bool" where
  "sees_own rs self \<longleftrightarrow> int_of_num (self_commentId self) \<in> claim_ids rs (self_worker self)"

text \<open>A worker that claims again after it conceded.\<close>

definition reclaims :: "ClaimRecord list \<Rightarrow> string \<Rightarrow> bool" where
  "reclaims rs w \<longleftrightarrow>
     (\<exists>r \<in> set rs. \<exists>s \<in> set rs. worker r = w \<and> worker s = w \<and> kind r = Concede \<and> kind s = Claim \<and>
        commentId r < commentId s)"

lemma sees_own_claims: "sees_own rs self \<Longrightarrow> claim_ids (heard rs self) w = claim_ids rs w"
  by (auto simp: heard_def claim_ids_snoc self_record_def sees_own_def)

lemma heard_other: "w \<noteq> self_worker self \<Longrightarrow> words_of (heard rs self) w = words_of rs w"
  by (simp add: heard_def words_of_snoc self_record_def)

lemma claim_ids_append: "claim_ids (rs @ ss) w = claim_ids rs w \<union> claim_ids ss w"
  by (auto simp: claim_ids_def)

lemma thread_append_less:
  "thread (rs @ ss) \<Longrightarrow> r \<in> set rs \<Longrightarrow> s \<in> set ss \<Longrightarrow> commentId r < commentId s"
  by (auto simp: thread_def sorted_wrt_append)

lemma thread_inj: "thread rs \<Longrightarrow> r \<in> set rs \<Longrightarrow> s \<in> set rs \<Longrightarrow> commentId r = commentId s \<Longrightarrow> r = s"
  by (induction rs) (auto simp: thread_def)

lemma claim_ids_disjoint: "thread rs \<Longrightarrow> v \<noteq> w \<Longrightarrow> claim_ids rs v \<inter> claim_ids rs w = {}"
  unfolding claim_ids_def by (auto dest: thread_inj[of rs])

lemma claim_ids_mem: "x \<in> claim_ids rs w \<longleftrightarrow> (\<exists>r \<in> set rs. worker r = w \<and> kind r = Claim \<and> commentId r = x)"
  by (auto simp: claim_ids_def)

text \<open>A claimant whose last word is a claim, and that never claims again after conceding, never conceded.\<close>

lemma claimant_never_conceded:
  assumes th: "thread rs" and own: "sees_own rs self" and once: "\<not> reclaims (heard rs self) (self_worker self)"
    and l: "latest_word (words_of (heard rs self) (self_worker self)) = Some l" "kind l = Claim"
    and s: "s \<in> set rs" "worker s = self_worker self"
  shows "kind s = Claim"
proof (rule ccontr)
  assume "kind s \<noteq> Claim"
  then have k: "kind s = Concede" by (cases "kind s") auto
  have l': "l \<in> set (heard rs self)" "worker l = self_worker self" "commentId s \<le> commentId l"
    using latest_word_in[OF l(1)] s unfolding words_of_def set_filter by (auto simp: heard_def)
  have "commentId l \<in> claim_ids rs (self_worker self)"
    using l' l(2) sees_own_claims[OF own] by (metis claim_ids_mem)
  then obtain t where t: "t \<in> set rs" "kind t = Claim" "commentId t = commentId l" by (auto simp: claim_ids_mem)
  then have "commentId s \<noteq> commentId l" using thread_inj[OF th t(1) s(1)] k by auto
  then show False using once s l' l(2) k by (force simp: reclaims_def heard_def)
qed

lemma earlier_claim_in_prefix:
  assumes th: "thread (T @ new)" and q: "claim_ids T B \<noteq> {}" and ne: "claim_ids (T @ new) A \<noteq> {}"
    and lt: "Min (claim_ids (T @ new) A) < Min (claim_ids (T @ new) B)"
  shows "Min (claim_ids (T @ new) A) \<in> claim_ids T A"
proof -
  have "Min (claim_ids (T @ new) A) \<in> claim_ids (T @ new) A" using ne by (intro Min_in) auto
  then obtain r where r: "r \<in> set (T @ new)" "worker r = A" "kind r = Claim" "commentId r = Min (claim_ids (T @ new) A)"
    by (metis claim_ids_mem)
  obtain q where q: "q \<in> set T" "commentId q \<in> claim_ids T B" using q by (metis all_not_in_conv claim_ids_mem)
  have "Min (claim_ids (T @ new) B) \<le> commentId q" using q(2) by (intro Min_le) (auto simp: claim_ids_append)
  then have "r \<in> set T" using r(1,4) lt thread_append_less[OF th q(1), of r] by fastforce
  then show ?thesis using r by (metis claim_ids_mem)
qed

text \<open>The winner is ahead of every live claimant, strictly on a thread.\<close>

lemma won_ahead:
  assumes "thread rs" and "reconcileClaim rs self isStale = Inr d" and "verdict d = Won" and "sees_own rs self"
    and "v \<in> live_claimants rs self isStale" and "v \<noteq> self_worker self"
  shows "Min (claim_ids rs (self_worker self)) < Min (claim_ids rs v)"
proof -
  have "order_key (heard rs self) (self_worker self) \<le> order_key (heard rs self) v"
    by (rule won_least(2)[OF assms(2,3,5)])
  then have "Min (claim_ids rs (self_worker self)) \<le> Min (claim_ids rs v)"
    by (auto simp: order_key_def sees_own_claims[OF assms(4)] less_eq_prod_def)
  moreover have "claim_ids rs v \<noteq> {}"
    using assms(5) contender_claims[of "stale_to rs self isStale" "heard rs self" v]
    by (simp add: live_claimants_def sees_own_claims[OF assms(4)])
  then have "Min (claim_ids rs v) \<in> claim_ids rs v" by (intro Min_in) auto
  moreover have "Min (claim_ids rs (self_worker self)) \<in> claim_ids rs (self_worker self)"
    using assms(4) by (intro Min_in) (auto simp: sees_own_def)
  ultimately show ?thesis using claim_ids_disjoint[OF assms(1,6)] by fastforce
qed

lemma other_live:
  assumes "usable other" and "self_worker other \<noteq> self_worker self"
    and "latest_word (words_of rs (self_worker other)) = Some l" and "kind l = Claim" and "\<not> isStale l"
  shows "self_worker other \<in> live_claimants rs self isStale"
  using assms by (auto simp: live_claimants_def contends_def heard_other stale_to_def usable_def)

lemma second_loses:
  assumes th: "thread (T @ new)"
    and b: "reconcileClaim T selfB isStale1 = Inr dB" "verdict dB = Won" "sees_own T selfB"
    and a: "reconcileClaim (T @ new) selfA isStale2 = Inr dA" "sees_own (T @ new) selfA"
    and ab: "self_worker selfA \<noteq> self_worker selfB"
    and holds: "latest_word (words_of (T @ new) (self_worker selfB)) = Some lB" "kind lB = Claim" "\<not> isStale2 lB"
    and once: "\<not> reclaims (heard (T @ new) selfA) (self_worker selfA)"
    and live: "\<And>l. latest_word (words_of T (self_worker selfA)) = Some l \<Longrightarrow> \<not> isStale1 l"
  shows "verdict dA \<noteq> Won"
proof
  let ?A = "self_worker selfA" and ?B = "self_worker selfB" and ?T2 = "T @ new"
  assume won: "verdict dA = Won"
  have ua: "usable selfA" and ub: "usable selfB"
    using reconcile_unusable[of selfA ?T2 isStale2] reconcile_unusable[of selfB T isStale1] a(1) b(1) by auto
  have th1: "thread T" using th by (auto simp: thread_def sorted_wrt_append)
  have neB: "claim_ids T ?B \<noteq> {}" and neA: "claim_ids ?T2 ?A \<noteq> {}" using b(3) a(2) by (auto simp: sees_own_def)
  have "?B \<in> live_claimants ?T2 selfA isStale2" using other_live[OF ub ab[symmetric] holds(1,2), of isStale2] holds(3) by blast
  then have lt: "Min (claim_ids ?T2 ?A) < Min (claim_ids ?T2 ?B)"
    using won_ahead[OF th a(1) won a(2)] ab[symmetric] by blast
  have memA: "Min (claim_ids ?T2 ?A) \<in> claim_ids T ?A" by (rule earlier_claim_in_prefix[OF th neB neA lt])
  have "?A \<in> live_claimants ?T2 selfA isStale2" by (rule won_least(1)[OF a(1) won])
  then obtain l where l: "latest_word (words_of (heard ?T2 selfA) ?A) = Some l" "kind l = Claim"
    by (auto simp: live_claimants_def contends_def split: option.splits)
  obtain l1 where l1: "latest_word (words_of T ?A) = Some l1"
    using memA no_words_no_claims[of T ?A] by (metis empty_iff latest_word_None not_None_eq)
  have "kind l1 = Claim"
    using claimant_never_conceded[OF th a(2) once l, of l1] latest_word_in[OF l1] by (auto simp: words_of_def)
  then have "?A \<in> live_claimants T selfB isStale1" using other_live[OF ua ab l1, of isStale1] live[OF l1] by blast
  then have "Min (claim_ids T ?B) < Min (claim_ids T ?A)" using won_ahead[OF th1 b] ab by blast
  moreover have "Min (claim_ids T ?A) \<le> Min (claim_ids ?T2 ?A)" using memA by (intro Min_le) auto
  moreover have "Min (claim_ids ?T2 ?B) \<le> Min (claim_ids T ?B)"
    using neB by (intro Min_antimono) (auto simp: claim_ids_append)
  ultimately show False using lt by simp
qed

lemma won_intro:
  assumes "usable self" and me: "self_worker self \<in> live_claimants records self isStale"
    and least: "\<And>v. v \<in> live_claimants records self isStale \<Longrightarrow>
         order_key (heard records self) (self_worker self) \<le> order_key (heard records self) v"
  shows "\<exists>d. reconcileClaim records self isStale = Inr d \<and> verdict d = Won"
proof -
  obtain d w where d: "reconcileClaim records self isStale = Inr d" "w \<in> live_claimants records self isStale"
    "order_key (heard records self) w \<le> order_key (heard records self) (self_worker self)"
    "verdict d = Won \<longleftrightarrow> w = self_worker self"
    using reconcile_some[OF assms(1), of records isStale] me by blast
  have "w = self_worker self" using least[OF d(2)] d(3) by (auto simp: order_key_def less_eq_prod_def)
  then show ?thesis using d by blast
qed

section \<open>Properties\<close>

text \<open>
  C2. The decision is the earliest live claim: for a usable identity the reconciler never
  throws, it names a winner exactly when some worker's latest word is a claim that is not
  stale, the winner is such a worker whose earliest claim comes before every other's, its id is
  reported, and the claimant wins exactly when it is that worker.
\<close>

theorem reconcile_earliest_live:
  assumes "isFinite (self_commentId self)" and "self_worker self \<noteq> []"
  shows "\<exists>d. reconcileClaim records self isStale = Inr d \<and>
           (verdict d = Won \<longleftrightarrow> winner d = Some (self_worker self)) \<and>
           (case winner d of
              None \<Rightarrow> \<forall>w. \<not> contends (stale_to records self isStale) (heard records self) w
            | Some w \<Rightarrow>
                contends (stale_to records self isStale) (heard records self) w \<and>
                winnerClaimId d = Some (Min (claim_ids (heard records self) w)) \<and>
                (\<forall>v. contends (stale_to records self isStale) (heard records self) v \<longrightarrow>
                     order_key (heard records self) w \<le> order_key (heard records self) v))"
proof -
  have u: "usable self" using assms by (simp add: usable_def)
  show ?thesis
  proof (cases "live_claimants records self isStale = {}")
    case True
    then have "\<not> selfPostedFresh records self" using fresh_contends[OF u] by blast
    then show ?thesis using reconcile_none[OF u True] True by (simp add: live_claimants_def)
  next
    case False
    from reconcile_some[OF u False] show ?thesis by (auto simp: live_claimants_def)
  qed
qed

text \<open>
  C1. Two claimants never both win. When B won on a thread and, as the thread grew, neither
  conceded nor went stale, no other claimant's decision on the longer thread is a win, provided
  that claimant was not stale when B decided and never claims again after a concede of its own.
\<close>

theorem no_double_win:
  assumes "thread (T @ new)"
    and "reconcileClaim T selfB isStale1 = Inr dB" and "verdict dB = Won" and "sees_own T selfB"
    and "reconcileClaim (T @ new) selfA isStale2 = Inr dA" and "sees_own (T @ new) selfA"
    and "self_worker selfA \<noteq> self_worker selfB"
    and "latest_word (words_of (T @ new) (self_worker selfB)) = Some lB" and "kind lB = Claim" and "\<not> isStale2 lB"
    and "\<not> reclaims (heard (T @ new) selfA) (self_worker selfA)"
    and "\<And>l. latest_word (words_of T (self_worker selfA)) = Some l \<Longrightarrow> \<not> isStale1 l"
  shows "verdict dA = LostRace"
  using second_loses[OF assms] by (cases "verdict dA") auto

text \<open>
  C34. A claimant that just posted is never robbed by its own staleness and never told that
  nobody contends: when its id is the newest of the thread it contends whatever the staleness
  predicate says, and when every other worker has conceded or is stale it wins.
\<close>

theorem fresh_sole_claimant_wins:
  assumes "isFinite (self_commentId self)" and "self_worker self \<noteq> []"
    and "\<forall>r \<in> set records. commentId r \<le> int_of_num (self_commentId self)"
    and "\<forall>w. w \<noteq> self_worker self \<longrightarrow> \<not> contends (\<lambda>_. isStale) records w"
  shows "\<exists>d. reconcileClaim records self isStale = Inr d \<and> verdict d = Won \<and> winner d = Some (self_worker self)"
proof -
  have u: "usable self" using assms(1,2) by (simp add: usable_def)
  have fresh: "selfPostedFresh records self" using assms(1,3) by (simp add: selfPostedFresh_def list_all_iff)
  have other: "w \<notin> live_claimants records self isStale" if "w \<noteq> self_worker self" for w
    using assms(4) that by (auto simp: live_claimants_def contends_def heard_other stale_to_def split: option.splits)
  have "live_claimants records self isStale = {self_worker self}"
    using fresh_contends[OF u fresh, of isStale] other by blast
  with reconcile_some[OF u, of records isStale] show ?thesis by auto
qed

definition word :: "int \<Rightarrow> string \<Rightarrow> ClaimKind \<Rightarrow> ClaimRecord" where
  "word i w k = \<lparr>commentId = i, worker = w, kind = k, runner = None, createdAt = None\<rparr>"

definition claims_as :: "int \<Rightarrow> string \<Rightarrow> ClaimSelf" where
  "claims_as i w = \<lparr>self_worker = w, self_commentId = IntNum i, self_runner = None, self_createdAt = None\<rparr>"

lemma claims_as_worker: "self_worker (claims_as i w) = w"
  by (simp add: claims_as_def)

text \<open>
  C36. The proviso is needed: a worker that conceded and claims again gets back the order slot
  of its first claim, and wins against a worker that won in between and holds the issue with a
  live claim.
\<close>

theorem reclaim_steals:
  assumes "A \<noteq> B" and "A \<noteq> []" and "B \<noteq> []" and "a < a'" and "a' < b" and "b < c"
  shows "(\<exists>d. reconcileClaim [word a A Claim, word a' A Concede, word b B Claim] (claims_as b B) (\<lambda>_. False) = Inr d \<and>
             verdict d = Won) \<and>
         (\<exists>d. reconcileClaim [word a A Claim, word a' A Concede, word b B Claim, word c A Claim] (claims_as c A)
                (\<lambda>_. False) = Inr d \<and> verdict d = Won)"
proof
  let ?T = "[word a A Claim, word a' A Concede, word b B Claim]"
  let ?U = "[word a A Claim, word a' A Concede, word b B Claim, word c A Claim]"
  note defs = live_claimants_def contends_def heard_def words_of_def word_def claims_as_def self_record_def
  have uB: "usable (claims_as b B)" and uA: "usable (claims_as c A)"
    using assms by (simp_all add: usable_def claims_as_def)
  have "selfPostedFresh ?T (claims_as b B)" and fA: "selfPostedFresh ?U (claims_as c A)"
    using assms by (simp_all add: selfPostedFresh_def claims_as_def word_def)
  note memB = fresh_contends[OF uB this(1)] and memA = fresh_contends[OF uA fA]
  have "v = B" if "v \<in> live_claimants ?T (claims_as b B) (\<lambda>_. False)" for v
    using that assms by (auto simp: defs split: if_splits option.splits)
  then show "\<exists>d. reconcileClaim ?T (claims_as b B) (\<lambda>_. False) = Inr d \<and> verdict d = Won"
    by (intro won_intro[OF uB memB]) (metis claims_as_worker order_refl)
  have v: "v = A \<or> v = B" if "v \<in> live_claimants ?U (claims_as c A) (\<lambda>_. False)" for v
    using that assms(1) by (auto simp: defs split: if_splits option.splits)
  have A: "claim_ids (heard ?U (claims_as c A)) A = {a, c}" and B: "claim_ids (heard ?U (claims_as c A)) B = {b}"
    using assms(1) by (auto simp: claim_ids_mem heard_def word_def claims_as_def self_record_def)
  have "order_key (heard ?U (claims_as c A)) A \<le> order_key (heard ?U (claims_as c A)) B"
    using assms(4-6) by (simp add: order_key_def A B less_eq_prod_def min_def)
  then show "\<exists>d. reconcileClaim ?U (claims_as c A) (\<lambda>_. False) = Inr d \<and> verdict d = Won"
    using v by (intro won_intro[OF uA memA]) (metis claims_as_worker order_refl)
qed

section \<open>Lemmas on the read-back and the writes\<close>

definition shows_own :: "jsnum \<Rightarrow> string + RawClaimComment list \<Rightarrow> bool" where
  "shows_own cid x = (case x of Inl _ \<Rightarrow> False | Inr raw \<Rightarrow> list_ex (\<lambda>c. num_eq (c_id c) cid) raw)"

definition populated :: "string + RawClaimComment list \<Rightarrow> bool" where
  "populated x = (case x of Inl _ \<Rightarrow> False | Inr raw \<Rightarrow> raw \<noteq> [])"

lemma read_back_find:
  "case find (shows_own cid) (map reads [a..<a + left]) of
     Some x \<Rightarrow> read_back reads cid a left saw e = Inr (projr x)
   | None \<Rightarrow> \<exists>m. read_back reads cid a left saw e =
                 Inl (saw \<or> list_ex populated (map reads [a..<a + left]), m) \<and>
                 (left > 0 \<longrightarrow> reads (a + left - 1) = Inr [] \<longrightarrow> m = absent_message cid 0)"
proof (induction left arbitrary: a saw e)
  case (Suc left)
  have u: "[a..<a + Suc left] = a # [a + 1..<a + 1 + left]" by (simp add: upt_conv_Cons)
  show ?case
  proof (cases "shows_own cid (reads a)")
    case True
    then show ?thesis unfolding u by (auto simp: shows_own_def split: sum.splits)
  next
    case False
    then obtain saw' e' where step: "read_back reads cid a (Suc left) saw e = read_back reads cid (a + 1) left saw' e'"
      "saw' \<longleftrightarrow> saw \<or> populated (reads a)" "reads a = Inr [] \<Longrightarrow> e' = absent_message cid 0"
      by (cases "reads a") (auto simp: shows_own_def populated_def)
    show ?thesis
    proof (cases "left = 0")
      case True
      then show ?thesis using False step unfolding u by auto
    next
      case pos: False
      then show ?thesis using Suc.IH[of "a + 1" saw' e'] False step(1,2) unfolding u
        by (auto split: option.splits)
    qed
  qed
qed simp

lemma text_includes_append: "text_includes p (xs @ p @ ys)"
proof (induction xs)
  case Nil
  then show ?case by (cases "p @ ys") (auto simp: starts_with_def, metis append_eq_conv_conj)
qed simp

lemma absent_zero: "text_includes '' from 0 listed comment'' (absent_message cid 0)"
proof -
  have "show_nat 0 = ''0''" by code_simp
  then have "absent_message cid 0 =
      (''our claim comment '' @ show_id cid @ '' was absent'') @ '' from 0 listed comment'' @ ''(s)''"
    by (simp add: absent_message_def)
  then show ?thesis using text_includes_append by metis
qed

lemma verify_attempts_pos: "nat (verify_attempts v) > 0"
  by (simp add: verify_attempts_def)

lemma lost_writes:
  assumes "settle_claim fails dp opts self records trace d = (Inr d', trace')" and "verdict d = LostRace"
    and "\<not> suppressConcede opts"
  shows "d' = d \<and> trace' = trace @
    [ConcedeCall (renderClaimComment (claimant (self_worker self) (self_runner self) None) Concede (Some Lost))]"
  using assms by (auto simp: settle_claim_def Let_def split: option.splits)

text \<open>
  The read-back is exact and bounded: it returns the first list, among the allowed attempts,
  in which the claimant's own comment stands, and fails only when none of them has it; a run of
  empty lists is reported as a read that cannot be believed, and one populated list makes the
  failure an ordinary propagation failure.
\<close>

theorem read_back_verified:
  "case find (shows_own cid) (map reads [0..<nat (verify_attempts v)]) of
     Some x \<Rightarrow> listVerifiedClaims reads issue cid v = Inr (projr x)
   | None \<Rightarrow> \<exists>m k. listVerifiedClaims reads issue cid v = Inl (ClaimVerificationError m k) \<and>
       (list_ex populated (map reads [0..<nat (verify_attempts v)]) \<longrightarrow> k = Propagation) \<and>
       (list_all (\<lambda>x. x = Inr []) (map reads [0..<nat (verify_attempts v)]) \<longrightarrow> k = Infrastructure)"
proof -
  let ?n = "nat (verify_attempts v)"
  note rb = read_back_find[where cid = cid and reads = reads and a = 0 and left = ?n and saw = False and e = "''undefined''"]
  show ?thesis
  proof (cases "find (shows_own cid) (map reads [0..<?n])")
    case (Some x)
    then show ?thesis using rb by (simp add: listVerifiedClaims_def Let_def)
  next
    case None
    then obtain m where m: "read_back reads cid 0 ?n False ''undefined'' =
        Inl (list_ex populated (map reads [0..<?n]), m)" "reads (?n - 1) = Inr [] \<Longrightarrow> m = absent_message cid 0"
      using rb verify_attempts_pos[of v] by auto
    have "k = Infrastructure" if "list_all (\<lambda>x. x = Inr []) (map reads [0..<?n])"
      and "k = classifyVerificationFailure (list_ex populated (map reads [0..<?n])) m" for k
    proof -
      have "m = absent_message cid 0" using m(2) that(1) verify_attempts_pos[of v] by (simp add: list_all_iff)
      moreover have "\<not> list_ex populated (map reads [0..<?n])"
        using that(1) by (auto simp: list_all_iff list_ex_iff populated_def)
      ultimately show ?thesis using that(2) absent_zero by (simp add: classifyVerificationFailure_def)
    qed
    then show ?thesis using m(1) None
      by (auto simp: listVerifiedClaims_def Let_def classifyVerificationFailure_def)
  qed
qed

text \<open>
  A claimant that loses withdraws: the last comment it posts is its own concede, which
  reads back as one, so that after it the claimant does not contend, whatever the thread holds
  before and whatever the staleness rule.
\<close>

theorem loser_withdraws:
  assumes "acquireClaim fails dateParse post reads me rnr created issue opts = (Inr d, trace)"
    and "verdict d = LostRace" and "\<not> suppressConcede opts"
    and "me \<noteq> []" and "arrow_free (claimant me rnr None)"
  shows "\<exists>body. last trace = ConcedeCall body \<and>
           (\<forall>rs n posted stale. (\<forall>r \<in> set rs. commentId r \<le> n) \<longrightarrow>
              \<not> contends stale
                (rs @ parseClaimRecords [\<lparr>c_id = IntNum n, c_body = body, c_createdAt = posted\<rparr>]) (escapeField me))"
proof -
  let ?body = "renderClaimComment (claimant me rnr None) Concede (Some Lost)"
  let ?self = "\<lparr>self_worker = me, self_commentId = post, self_runner = rnr, self_createdAt = created\<rparr>"
  obtain tr records d0 where st: "settle_claim fails dateParse opts ?self records tr d0 = (Inr d, trace)"
    using assms(1) by (auto simp: acquireClaim_def Let_def split: option.splits sum.splits)
  then have d0: "d0 = d" by (auto simp: settle_claim_def Let_def split: option.splits prod.splits)
  have "last trace = ConcedeCall ?body" using lost_writes[OF st] assms(2,3) d0 by simp
  moreover have "\<not> contends stale
      (rs @ parseClaimRecords [\<lparr>c_id = IntNum n, c_body = ?body, c_createdAt = posted\<rparr>]) (escapeField me)"
    if older: "\<forall>r \<in> set rs. commentId r \<le> n" for rs n posted stale
  proof -
    let ?r = "\<lparr>commentId = n, worker = escapeField me, kind = Concede, runner = field_value rnr, createdAt = posted\<rparr>"
    have p: "parseClaimRecords [\<lparr>c_id = IntNum n, c_body = ?body, c_createdAt = posted\<rparr>] = [?r]"
      using rendered_record[of "claimant me rnr None" n Concede "Some Lost" posted] assms(4,5)
      by (simp add: claimant_def field_value_def truthy_def)
    have "latest_word (words_of (rs @ [?r]) (escapeField me)) = Some ?r"
      unfolding words_of_snoc using older by (simp add: words_of_def latest_word_newest)
    then show ?thesis unfolding p by (simp add: contends_def)
  qed
  ultimately show ?thesis by blast
qed

definition due :: "int \<Rightarrow> int \<Rightarrow> ClaimHeartbeat \<Rightarrow> bool" where
  "due now cadenceS c \<longleftrightarrow> \<not> now - lastHeartbeatS c < cadenceS"

lemma refresh_fold:
  "let r = foldl (refresh_step editClaim toISO now cadenceS) b claims in
   refreshed r = refreshed b @ map h_issue (filter (\<lambda>c. due now cadenceS c \<and> editClaim (h_commentId c)) claims) \<and>
   skipped r = skipped b @ map h_issue (filter (\<lambda>c. \<not> (due now cadenceS c \<and> editClaim (h_commentId c))) claims) \<and>
   edits r = edits b @ map (\<lambda>c. (h_commentId c, refresh_body toISO now c)) (filter (due now cadenceS) claims)"
  by (induction claims arbitrary: b) (auto simp: refresh_step_def due_def Let_def)

text \<open>
  A heartbeat never moves a claim: the batch edits exactly the comments of the claims that
  are due, each edit keeps the comment's id and reads back as a claim of the same worker with
  the new time, and every claim is reported once, refreshed or skipped.
\<close>

theorem refresh_keeps_position:
  assumes "r = refreshClaimHeartbeats editClaim toISO claims now cadenceS" and "toISO now \<noteq> []"
    and "\<forall>c \<in> set claims. h_worker c \<noteq> [] \<and> arrow_free (claimant (h_worker c) (h_runner c) None)"
  shows "map fst (edits r) = map h_commentId (filter (due now cadenceS) claims) \<and>
         (\<forall>(i, body) \<in> set (edits r). \<exists>c \<in> set claims. h_commentId c = i \<and>
            (\<forall>posted. parseClaimRecords [\<lparr>c_id = IntNum i, c_body = body, c_createdAt = posted\<rparr>] =
               [\<lparr>commentId = i, worker = escapeField (h_worker c), kind = Claim,
                 runner = field_value (h_runner c), createdAt = Some (escapeField (toISO now))\<rparr>])) \<and>
         mset (refreshed r @ skipped r) = mset (map h_issue claims)"
proof -
  note r = refresh_fold[of editClaim toISO now cadenceS "\<lparr>refreshed = [], skipped = [], edits = []\<rparr>" claims]
  have read: "parseClaimRecords [\<lparr>c_id = IntNum (h_commentId c), c_body = refresh_body toISO now c, c_createdAt = posted\<rparr>] =
      [\<lparr>commentId = h_commentId c, worker = escapeField (h_worker c), kind = Claim,
        runner = field_value (h_runner c), createdAt = Some (escapeField (toISO now))\<rparr>]" if "c \<in> set claims" for c posted
    using rendered_record[of "claimant (h_worker c) (h_runner c) (Some (toISO now))" "h_commentId c" Claim None posted]
      assms(2,3) that
    by (simp add: refresh_body_def claimant_def field_value_def truthy_def arrow_free_def)
  have "mset (refreshed r @ skipped r) = mset (map h_issue claims)"
    using r unfolding assms(1) refreshClaimHeartbeats_def Let_def
    by (simp add: image_mset_union[symmetric] multiset_partition[symmetric] del: image_mset_union)
  moreover have "edits r = map (\<lambda>c. (h_commentId c, refresh_body toISO now c)) (filter (due now cadenceS) claims)"
    using r unfolding assms(1) refreshClaimHeartbeats_def Let_def by simp
  ultimately show ?thesis using read by (auto simp: comp_def)
qed

section \<open>Witnesses\<close>

definition duel :: "ClaimRecord list" where
  "duel = [word 10 ''a:1'' Claim, word 11 ''b:1'' Claim]"

theorem reconcile_earliest_live_witness:
  "\<exists>d. reconcileClaim duel (claims_as 11 ''b:1'') (\<lambda>_. False) = Inr d \<and>
       (verdict d = Won \<longleftrightarrow> winner d = Some ''b:1'')"
  using reconcile_earliest_live[of "claims_as 11 ''b:1''" duel "\<lambda>_. False"] by (auto simp: claims_as_def)

lemma duel_decisions:
  "map_sum (\<lambda>_. ()) verdict (reconcileClaim [word 10 ''a:1'' Claim] (claims_as 10 ''a:1'') (\<lambda>_. False)) = Inr Won"
  by code_simp

theorem no_double_win_witness:
  "\<exists>d. reconcileClaim ([word 10 ''a:1'' Claim] @ [word 11 ''b:1'' Claim]) (claims_as 11 ''b:1'') (\<lambda>_. False) = Inr d \<and>
       verdict d = LostRace"
proof -
  obtain dB where dB: "reconcileClaim [word 10 ''a:1'' Claim] (claims_as 10 ''a:1'') (\<lambda>_. False) = Inr dB" "verdict dB = Won"
    using duel_decisions by (cases "reconcileClaim [word 10 ''a:1'' Claim] (claims_as 10 ''a:1'') (\<lambda>_. False)") auto
  obtain dA where dA: "reconcileClaim ([word 10 ''a:1'' Claim] @ [word 11 ''b:1'' Claim]) (claims_as 11 ''b:1'') (\<lambda>_. False) = Inr dA"
    using reconcile_total[of "claims_as 11 ''b:1''"] by (auto simp: usable_def claims_as_def)
  have "verdict dA = LostRace"
  proof (rule no_double_win[OF _ dB _ dA])
    show "thread ([word 10 ''a:1'' Claim] @ [word 11 ''b:1'' Claim])" by (simp add: thread_def word_def)
    show "latest_word (words_of ([word 10 ''a:1'' Claim] @ [word 11 ''b:1'' Claim]) (self_worker (claims_as 10 ''a:1''))) =
          Some (word 10 ''a:1'' Claim)" by code_simp
  qed (simp_all add: sees_own_def claim_ids_mem claims_as_def word_def reclaims_def heard_def self_record_def words_of_def)
  then show ?thesis using dA by blast
qed

theorem fresh_sole_claimant_wins_witness:
  "\<exists>d. reconcileClaim [word 3 ''x:1'' Claim, word 4 ''x:1'' Concede] (claims_as 9 ''b:1'') (\<lambda>_. True) = Inr d \<and> verdict d = Won"
proof -
  have "\<forall>w. w \<noteq> ''b:1'' \<longrightarrow> \<not> contends (\<lambda>_ _. True) [word 3 ''x:1'' Claim, word 4 ''x:1'' Concede] w"
    by (auto simp: contends_def split: option.splits)
  then show ?thesis
    using fresh_sole_claimant_wins[of "claims_as 9 ''b:1''" "[word 3 ''x:1'' Claim, word 4 ''x:1'' Concede]" "\<lambda>_. True"]
    by (auto simp: claims_as_def word_def)
qed

theorem reclaim_steals_witness:
  "\<exists>d. reconcileClaim [word 1 ''a:1'' Claim, word 2 ''a:1'' Concede, word 3 ''b:1'' Claim, word 4 ''a:1'' Claim]
         (claims_as 4 ''a:1'') (\<lambda>_. False) = Inr d \<and> verdict d = Won"
  using reclaim_steals[of "''a:1''" "''b:1''" 1 2 3 4] by simp

definition empty_reads :: "nat \<Rightarrow> string + RawClaimComment list" where
  "empty_reads n = Inr []"

theorem read_back_verified_witness:
  "\<exists>m. listVerifiedClaims empty_reads 5 (IntNum 7) None = Inl (ClaimVerificationError m Infrastructure)"
  using read_back_verified[where cid = "IntNum 7" and reads = empty_reads and v = None and issue = 5]
  by (simp add: verify_attempts_def DEFAULT_VERIFY_ATTEMPTS_def empty_reads_def shows_own_def upt_conv_Cons numeral_eq_Suc)

definition lone_opts :: AcquireClaimOptions where
  "lone_opts = \<lparr>isStale_opt = \<lambda>_. False, suppressConcede = False, deathFor = None, verifyAttempts = Some 1, nowS = 0, hasAudit = False\<rparr>"

definition held_thread :: "nat \<Rightarrow> string + RawClaimComment list" where
  "held_thread n =
     Inr [\<lparr>c_id = IntNum 3, c_body = ''<!-- afk:claim v1 worker=h:old -->'', c_createdAt = None\<rparr>,
          \<lparr>c_id = IntNum 8, c_body = ''<!-- afk:claim v1 worker=h:me -->'', c_createdAt = None\<rparr>]"

theorem loser_withdraws_witness:
  "\<exists>body. last (snd (acquireClaim (\<lambda>_ _. None) (\<lambda>_. None) (IntNum 8) held_thread ''h:me'' None None 5 lone_opts)) = ConcedeCall body"
proof -
  let ?run = "acquireClaim (\<lambda>_ _. None) (\<lambda>_. None) (IntNum 8) held_thread ''h:me'' None None 5 lone_opts"
  have "map_sum (\<lambda>_. ()) verdict (fst ?run) = Inr LostRace" by code_simp
  then obtain d where d: "?run = (Inr d, snd ?run)" "verdict d = LostRace"
    by (cases "fst ?run") (auto simp: prod_eq_iff)
  have "\<not> suppressConcede lone_opts" "arrow_free (claimant ''h:me'' None None)" by code_simp+
  then show ?thesis using loser_withdraws[OF d] by blast
qed

definition beating :: ClaimHeartbeat where
  "beating = \<lparr>h_issue = 5, h_worker = ''h:me'', h_runner = None, h_commentId = 8, lastHeartbeatS = 0\<rparr>"

theorem refresh_keeps_position_witness:
  "map fst (edits (refreshClaimHeartbeats (\<lambda>_. True) (\<lambda>_. ''t'') [beating] 300 270)) = [8]"
proof -
  have "\<forall>c \<in> set [beating]. h_worker c \<noteq> [] \<and> arrow_free (claimant (h_worker c) (h_runner c) None)" by code_simp
  then show ?thesis
    using refresh_keeps_position[OF refl, of "\<lambda>_. ''t''" 300 "[beating]" "\<lambda>_. True" 270]
    by (simp add: due_def beating_def)
qed

end
