(* ===== verification/Claim_Staleness.thy ===== *)
theory Claim_Staleness
  imports Claim
begin

text \<open>
  Stale claims: \<open>packages/worker/src/engine/tracker/claim-staleness.ts\<close>. The classification of a
  claim against a clock, the fold of an issue's claims into its live and stale owners, the plan
  of the cross-host sweep, and the policy read from the environment and the configuration.

  Times are epoch seconds; \<open>Date.parse\<close> is a parameter giving milliseconds, as in the claim
  protocol. The sweep's fold is the reconciler's, written a second time in the source.
\<close>

section \<open>Policy\<close>

definition DEFAULT_CLAIM_REFRESH_S :: int where "DEFAULT_CLAIM_REFRESH_S = 270"
definition DEFAULT_CLAIM_STALE_TOLERANCE :: int where "DEFAULT_CLAIM_STALE_TOLERANCE = 3"
definition DEFAULT_CLAIM_REAPER_GRACE_S :: int where "DEFAULT_CLAIM_REAPER_GRACE_S = DEFAULT_CLAIM_REFRESH_S"
definition DEFAULT_CLAIM_RECENT_COMMIT_PROTECTION_S :: int where "DEFAULT_CLAIM_RECENT_COMMIT_PROTECTION_S = 2700"

record ClaimStalenessConfig =
  refreshCadenceS :: int
  tolerance :: int

record ClaimReaperConfig = ClaimStalenessConfig +
  claimGraceS :: int
  recentCommitProtectionS :: int

definition DEFAULT_CLAIM_REAPER :: ClaimReaperConfig where
  "DEFAULT_CLAIM_REAPER =
     \<lparr>refreshCadenceS = DEFAULT_CLAIM_REFRESH_S, tolerance = DEFAULT_CLAIM_STALE_TOLERANCE,
      claimGraceS = DEFAULT_CLAIM_REAPER_GRACE_S,
      recentCommitProtectionS = DEFAULT_CLAIM_RECENT_COMMIT_PROTECTION_S\<rparr>"

definition staleWindowS :: "'a ClaimStalenessConfig_scheme \<Rightarrow> int" where
  "staleWindowS config = refreshCadenceS config * (tolerance config + 1)"

section \<open>Classification\<close>

datatype ClaimFreshness = FreshClaim | StaleClaim

datatype ClaimHolderVerdict = LiveHolder | Evictable

definition recordEpochS :: "(string \<Rightarrow> int option) \<Rightarrow> ClaimRecord \<Rightarrow> int option" where
  "recordEpochS dateParse r =
     (case createdAt r of
        None \<Rightarrow> None
      | Some t \<Rightarrow> if t = [] then None else map_option (\<lambda>ms. ms div 1000) (dateParse t))"

text \<open>The grace applies when the policy has one.\<close>

definition classifyClaim ::
    "(string \<Rightarrow> int option) \<Rightarrow> ClaimRecord \<Rightarrow> int \<Rightarrow> int option \<Rightarrow> 'a ClaimStalenessConfig_scheme \<Rightarrow> ClaimFreshness" where
  "classifyClaim dateParse r now grace config =
     (case recordEpochS dateParse r of
        None \<Rightarrow> FreshClaim
      | Some ts \<Rightarrow>
          if (case grace of None \<Rightarrow> False | Some g \<Rightarrow> now - ts \<le> g) then FreshClaim
          else if now - ts \<le> staleWindowS config then FreshClaim
          else StaleClaim)"

definition claimHolderVerdict ::
    "(string \<Rightarrow> int option) \<Rightarrow> ClaimRecord \<Rightarrow> string \<Rightarrow> (string \<Rightarrow> bool) \<Rightarrow> int \<Rightarrow> int option \<Rightarrow>
     'a ClaimStalenessConfig_scheme \<Rightarrow> ClaimHolderVerdict" where
  "claimHolderVerdict dateParse r localHost localProcessAlive now grace config =
     (let holderHost = (if CHR '':'' \<in> set (worker r) then takeWhile (\<lambda>c. c \<noteq> CHR '':'') (worker r) else []) in
      if holderHost = localHost then (if localProcessAlive (worker r) then LiveHolder else Evictable)
      else if classifyClaim dateParse r now grace config = StaleClaim then Evictable else LiveHolder)"

definition makeStaleClaimPredicate ::
    "(string \<Rightarrow> int option) \<Rightarrow> int \<Rightarrow> int option \<Rightarrow> 'a ClaimStalenessConfig_scheme \<Rightarrow> ClaimRecord \<Rightarrow> bool" where
  "makeStaleClaimPredicate dateParse now grace config r \<longleftrightarrow>
     classifyClaim dateParse r now grace config = StaleClaim"

section \<open>The folded state of an issue\<close>

record IssueClaimState =
  liveOwner :: "string option"
  staleOwners :: "string list"
  concededOwners :: "string list"

text \<open>
  One turn of the loop over the folds. \<open>liveOwnerId\<close> is infinite while there is no live owner,
  which is the absent value here.
\<close>

definition classify_step ::
    "(ClaimRecord \<Rightarrow> bool) \<Rightarrow> (int \<times> string) option \<times> string list \<times> string list \<Rightarrow> string \<times> claim_fold \<Rightarrow>
     (int \<times> string) option \<times> string list \<times> string list" where
  "classify_step isStale st entry =
     (let (live, stale, conceded) = st; (w, f) = entry in
      if latestKind f = Concede then (live, stale, conceded @ [w])
      else (case earliestClaimId f of
              None \<Rightarrow> st
            | Some e \<Rightarrow>
                if isStale (latestRecord f) then (live, stale @ [w], conceded)
                else ((case live of None \<Rightarrow> Some (e, w) | Some (b, u) \<Rightarrow> if e < b then Some (e, w) else Some (b, u)),
                      stale, conceded)))"

definition classifyIssueClaims :: "ClaimRecord list \<Rightarrow> (ClaimRecord \<Rightarrow> bool) \<Rightarrow> IssueClaimState" where
  "classifyIssueClaims records isStale =
     (let (live, stale, conceded) = foldl (classify_step isStale) (None, [], []) (foldl ingest [] records) in
      \<lparr>liveOwner = map_option snd live, staleOwners = sort stale, concededOwners = sort conceded\<rparr>)"

section \<open>The sweep\<close>

record ClaimedIssue =
  ci_issue :: int
  ci_records :: "ClaimRecord list"
  attemptBranchCommitS :: "int option"
  deadOwners :: "string list"
  liveOwners :: "string list"

record StaleClaimRelease =
  rel_issue :: int
  rel_staleOwners :: "string list"
  rel_concededOwners :: "string list option"

definition isRecentAttemptCommit :: "int option \<Rightarrow> int \<Rightarrow> int \<Rightarrow> bool" where
  "isRecentAttemptCommit commitS now windowS =
     (case commitS of None \<Rightarrow> False | Some c \<Rightarrow> now - c \<le> windowS)"

definition sweep_stale :: "(ClaimRecord \<Rightarrow> bool) \<Rightarrow> ClaimedIssue \<Rightarrow> ClaimRecord \<Rightarrow> bool" where
  "sweep_stale isStale c r =
     (if worker r \<in> set (liveOwners c) then False else worker r \<in> set (deadOwners c) \<or> isStale r)"

definition plan_release ::
    "(ClaimRecord \<Rightarrow> bool) \<Rightarrow> int \<Rightarrow> ClaimReaperConfig \<Rightarrow> ClaimedIssue \<Rightarrow> StaleClaimRelease list" where
  "plan_release isStale now config c =
     (let state = classifyIssueClaims (ci_records c) (sweep_stale isStale c) in
      if liveOwner state = None \<and> length (staleOwners state) > 0
      then if \<not> list_ex (\<lambda>owner. owner \<in> set (deadOwners c)) (staleOwners state) \<and>
              isRecentAttemptCommit (attemptBranchCommitS c) now (recentCommitProtectionS config)
           then []
           else [\<lparr>rel_issue = ci_issue c, rel_staleOwners = staleOwners state, rel_concededOwners = None\<rparr>]
      else if liveOwner state = None \<and> length (staleOwners state) = 0 \<and> length (concededOwners state) > 0
      then [\<lparr>rel_issue = ci_issue c, rel_staleOwners = [], rel_concededOwners = Some (concededOwners state)\<rparr>]
      else [])"

definition planStaleClaimSweep ::
    "(string \<Rightarrow> int option) \<Rightarrow> ClaimedIssue list \<Rightarrow> int \<Rightarrow> ClaimReaperConfig \<Rightarrow> StaleClaimRelease list" where
  "planStaleClaimSweep dateParse claimed now config =
     concat (map (plan_release (makeStaleClaimPredicate dateParse now (Some (claimGraceS config)) config) now config) claimed)"

definition renderStaleClaimSweepAudit :: "string list \<Rightarrow> string \<Rightarrow> string" where
  "renderStaleClaimSweepAudit owners destination =
     robot @ '' AFK cross-host stale-claim sweep: released this issue back to '' @ ticked destination @ '' '' @
     em_dash @ '' '' @ (if length owners = 1 then ''the claim'' else ''the claims'') @ '' held by '' @
     join '', '' (map ticked owners) @
     '' stopped refreshing past the staleness window (owner presumed dead on another host).''"

definition renderDeadClaimSweepAudit :: "string list \<Rightarrow> string \<Rightarrow> string" where
  "renderDeadClaimSweepAudit owners destination =
     robot @ '' AFK same-host ghost-claim sweep: released this issue back to '' @ ticked destination @ '' '' @
     em_dash @ '' '' @ (if length owners = 1 then ''the claim'' else ''the claims'') @ '' held by '' @
     join '', '' (map ticked owners) @ '' had a dead '' @ ticked ''worker.pid'' @ ''.''"

definition renderConcededClaimSweepAudit :: "string list \<Rightarrow> string \<Rightarrow> string" where
  "renderConcededClaimSweepAudit owners destination =
     robot @ '' AFK claim-label sweep: released this issue back to '' @ ticked destination @ '' '' @
     em_dash @ '' '' @
     (if length owners = 1 then ''the latest claim marker'' else ''the latest claim markers'') @ '' for '' @
     join '', '' (map ticked owners) @ '' ended in concede while the issue was still labeled '' @
     ticked ''running'' @ ''.''"

section \<open>Resolving the policy\<close>

definition digits_only :: "string \<Rightarrow> bool" where
  "digits_only s \<longleftrightarrow> s \<noteq> [] \<and> list_all is_digit s"

definition resolvePositiveInt :: "string option \<Rightarrow> int \<Rightarrow> int" where
  "resolvePositiveInt raw fallback =
     (case raw of
        None \<Rightarrow> fallback
      | Some s \<Rightarrow> if digits_only s \<and> nat_of_digits s > 0 then int (nat_of_digits s) else fallback)"

definition resolveNonNegativeInt :: "string option \<Rightarrow> int \<Rightarrow> int" where
  "resolveNonNegativeInt raw fallback =
     (case raw of None \<Rightarrow> fallback | Some s \<Rightarrow> if digits_only s then int (nat_of_digits s) else fallback)"

definition resolveClaimStalenessConfig :: "(string \<Rightarrow> string option) \<Rightarrow> ClaimStalenessConfig" where
  "resolveClaimStalenessConfig env =
     \<lparr>refreshCadenceS = resolvePositiveInt (env ''RED_AFK_CLAIM_REFRESH_S'') DEFAULT_CLAIM_REFRESH_S,
      tolerance = resolveNonNegativeInt (env ''RED_AFK_CLAIM_STALE_TOLERANCE'') DEFAULT_CLAIM_STALE_TOLERANCE\<rparr>"

text \<open>\<open>a || b\<close> on numbers.\<close>

definition or_else :: "int \<Rightarrow> int \<Rightarrow> int" where
  "or_else a b = (if a = 0 then b else a)"

definition resolveClaimReaperConfig ::
    "(string \<Rightarrow> string option) \<Rightarrow> (string \<Rightarrow> string) \<Rightarrow> ClaimReaperConfig" where
  "resolveClaimReaperConfig env getCfg =
     \<lparr>refreshCadenceS =
        or_else (resolvePositiveInt (env ''RED_AFK_CLAIM_REFRESH_S'') 0)
          (resolvePositiveInt (Some (getCfg ''afk.claim_reaper.refresh_s'')) DEFAULT_CLAIM_REFRESH_S),
      tolerance =
        resolveNonNegativeInt (env ''RED_AFK_CLAIM_STALE_TOLERANCE'')
          (resolveNonNegativeInt (Some (getCfg ''afk.claim_reaper.stale_tolerance'')) DEFAULT_CLAIM_STALE_TOLERANCE),
      claimGraceS =
        or_else (resolvePositiveInt (env ''RED_AFK_CLAIM_REAPER_GRACE_S'') 0)
          (resolvePositiveInt (Some (getCfg ''afk.claim_reaper.grace_s'')) DEFAULT_CLAIM_REAPER_GRACE_S),
      recentCommitProtectionS =
        or_else (resolvePositiveInt (env ''RED_AFK_CLAIM_REAPER_RECENT_COMMIT_S'') 0)
          (resolvePositiveInt (Some (getCfg ''afk.claim_reaper.recent_commit_s''))
             DEFAULT_CLAIM_RECENT_COMMIT_PROTECTION_S)\<rparr>"

section \<open>Lemmas\<close>

text \<open>The live owner is the least order key among the contenders, in the order of first words.\<close>

definition best :: "(int \<times> string) option \<Rightarrow> int \<times> string \<Rightarrow> (int \<times> string) option" where
  "best live x = (case live of None \<Rightarrow> Some x | Some (b, u) \<Rightarrow> if fst x < b then Some x else Some (b, u))"

lemma best_Some: "best (Some x) a = (if fst a < fst x then Some a else Some x)"
  by (cases x) (simp add: best_def)

lemma classify_fold:
  "foldl (classify_step isStale) (live, ss, cs) fs =
     (foldl best live (fst (split_folds (\<lambda>_. isStale) fs)),
      ss @ map snd (snd (split_folds (\<lambda>_. isStale) fs)),
      cs @ map fst (filter (\<lambda>(w, f). latestKind f = Concede) fs))"
proof (induction fs arbitrary: live ss cs)
  case (Cons p fs)
  obtain w f where p: "p = (w, f)" by (cases p)
  show ?case
    using Cons by (cases "latestKind f"; cases "earliestClaimId f")
      (auto simp: p classify_step_def best_def Let_def case_prod_beta split: option.splits)
qed simp

lemma foldl_best:
  "foldl best (Some x) xs = Some y \<Longrightarrow> y \<in> insert x (set xs) \<and> (\<forall>z \<in> insert x (set xs). fst y \<le> fst z)"
proof (induction xs arbitrary: x)
  case (Cons a xs)
  show ?case
  proof (cases "fst a < fst x")
    case True
    then have "foldl best (Some a) xs = Some y" using Cons.prems by (simp add: best_Some)
    then show ?thesis using Cons.IH[of a] True by fastforce
  next
    case False
    then have "foldl best (Some x) xs = Some y" using Cons.prems by (simp add: best_Some)
    then show ?thesis using Cons.IH[of x] False by fastforce
  qed
qed simp

lemma foldl_best_Some: "foldl best (Some x) xs \<noteq> None"
  by (induction xs arbitrary: x) (auto simp: best_def split: if_splits)

lemma foldl_best_None: "foldl best None xs = None \<longleftrightarrow> xs = []"
  using foldl_best_Some by (cases xs) (auto simp: best_def)

lemma foldl_best_least: "foldl best None xs = Some y \<Longrightarrow> y \<in> set xs \<and> (\<forall>z \<in> set xs. fst y \<le> fst z)"
  using foldl_best by (cases xs) (auto simp: best_def)

lemma liveOwner_fold:
  "liveOwner (classifyIssueClaims records isStale) =
     map_option snd (foldl best None (fst (split_folds (\<lambda>_. isStale) (foldl ingest [] records))))"
  by (simp add: classifyIssueClaims_def classify_fold)

lemma liveOwner_None:
  "liveOwner (classifyIssueClaims records isStale) = None \<longleftrightarrow> (\<forall>w. \<not> contends (\<lambda>_. isStale) records w)"
  using contenders_spec[of "\<lambda>_. isStale" records] unfolding liveOwner_fold
  by (auto simp: foldl_best_None)

lemma liveOwner_Some:
  assumes "liveOwner (classifyIssueClaims records isStale) = Some w"
  shows "contends (\<lambda>_. isStale) records w \<and>
         (\<forall>v. contends (\<lambda>_. isStale) records v \<longrightarrow> Min (claim_ids records w) \<le> Min (claim_ids records v))"
proof -
  obtain e where e: "foldl best None (fst (split_folds (\<lambda>_. isStale) (foldl ingest [] records))) = Some (e, w)"
    using assms unfolding liveOwner_fold by auto
  from foldl_best_least[OF this] show ?thesis
    unfolding contenders_spec by (auto simp: order_key_def)
qed

lemma resolvePositiveInt_pos: "0 < fallback \<Longrightarrow> 0 < resolvePositiveInt raw fallback"
  by (simp add: resolvePositiveInt_def split: option.splits)

lemma resolvePositiveInt_nonneg: "0 \<le> resolvePositiveInt raw 0"
  by (simp add: resolvePositiveInt_def split: option.splits)

lemma or_else_pos: "0 \<le> a \<Longrightarrow> 0 < b \<Longrightarrow> 0 < or_else a b"
  by (simp add: or_else_def)

lemma resolveNonNegativeInt_nonneg: "0 \<le> fallback \<Longrightarrow> 0 \<le> resolveNonNegativeInt raw fallback"
  by (simp add: resolveNonNegativeInt_def split: option.splits)

lemmas policy_bounds = or_else_pos resolvePositiveInt_nonneg resolvePositiveInt_pos resolveNonNegativeInt_nonneg

lemma released_has_no_live_owner:
  assumes "rel \<in> set (plan_release isStale now config c)"
  shows "rel_issue rel = ci_issue c \<and> (\<forall>w. \<not> contends (\<lambda>_. sweep_stale isStale c) (ci_records c) w)"
  using assms liveOwner_None[of "ci_records c" "sweep_stale isStale c"]
  by (auto simp: plan_release_def Let_def split: if_splits)

lemma self_live:
  assumes "usable self" and "latest_word (words_of rs (self_worker self)) = Some l" and "kind l = Claim"
    and "\<not> isStale l" and "\<not> isStale (self_record self)"
  shows "self_worker self \<in> live_claimants rs self isStale"
  using assms
  by (auto simp: live_claimants_def contends_def heard_def words_of_snoc latest_word_snoc stale_to_def usable_def
      self_record_def)

lemma others_live:
  "v \<noteq> self_worker self \<Longrightarrow> v \<in> live_claimants rs self isStale \<longleftrightarrow> contends (\<lambda>_. isStale) rs v"
  by (auto simp: live_claimants_def contends_def heard_other stale_to_def split: option.splits)

section \<open>Properties\<close>

text \<open>
  C22. The sweep never robs a live worker: when it plans the release of an issue, every worker
  whose latest word there is a claim is not known to be alive on this host, and is known to be
  dead here or carries a readable time older than both the grace and the whole window.
\<close>

theorem sweep_robs_no_live_worker:
  assumes "rel \<in> set (planStaleClaimSweep dateParse claimed now config)"
  shows "\<exists>c \<in> set claimed. rel_issue rel = ci_issue c \<and>
           (\<forall>w l. w \<noteq> [] \<longrightarrow> latest_word (words_of (ci_records c) w) = Some l \<longrightarrow> kind l = Claim \<longrightarrow>
              w \<notin> set (liveOwners c) \<and>
              (w \<in> set (deadOwners c) \<or>
               (\<exists>ts. recordEpochS dateParse l = Some ts \<and> now - ts > claimGraceS config \<and>
                     now - ts > refreshCadenceS config * (tolerance config + 1))))"
proof -
  let ?stale = "makeStaleClaimPredicate dateParse now (Some (claimGraceS config)) config"
  obtain c where c: "c \<in> set claimed" "rel \<in> set (plan_release ?stale now config c)"
    using assms by (auto simp: planStaleClaimSweep_def)
  note no = released_has_no_live_owner[OF c(2)]
  have "w \<notin> set (liveOwners c) \<and>
        (w \<in> set (deadOwners c) \<or>
         (\<exists>ts. recordEpochS dateParse l = Some ts \<and> now - ts > claimGraceS config \<and>
               now - ts > refreshCadenceS config * (tolerance config + 1)))"
    if "w \<noteq> []" and l: "latest_word (words_of (ci_records c) w) = Some l" and "kind l = Claim" for w l
  proof -
    have w: "worker l = w" using latest_word_in[OF l] by (auto simp: words_of_def)
    have "sweep_stale ?stale c l" using no that by (auto simp: contends_def)
    then show ?thesis
      by (auto simp: sweep_stale_def makeStaleClaimPredicate_def classifyClaim_def staleWindowS_def w
          split: if_splits option.splits)
  qed
  then show ?thesis using c(1) no by blast
qed

text \<open>
  The sweep and the reconciler agree: on a thread, a claimant whose last word is a claim the
  staleness rule does not reject wins its decision exactly when it is the live owner the sweep
  sees, so the sweep never releases an issue that was just won.
\<close>

theorem winner_is_live_owner:
  assumes "thread rs" and "sees_own rs self" and "isFinite (self_commentId self)" and "self_worker self \<noteq> []"
    and "latest_word (words_of rs (self_worker self)) = Some l" and "kind l = Claim" and "\<not> isStale l"
    and "\<not> isStale (self_record self)" and "reconcileClaim rs self isStale = Inr d"
  shows "verdict d = Won \<longleftrightarrow> liveOwner (classifyIssueClaims rs isStale) = Some (self_worker self)"
proof -
  let ?w = "self_worker self"
  have u: "usable self" using assms(3,4) by (simp add: usable_def)
  have own: "contends (\<lambda>_. isStale) rs ?w" using assms(4-7) by (simp add: contends_def)
  obtain x where x: "liveOwner (classifyIssueClaims rs isStale) = Some x"
    using own liveOwner_None[of rs isStale] by (cases "liveOwner (classifyIssueClaims rs isStale)") auto
  note least = liveOwner_Some[OF x]
  show ?thesis
  proof (cases "x = ?w")
    case True
    have "order_key (heard rs self) ?w \<le> order_key (heard rs self) v" if "v \<in> live_claimants rs self isStale" for v
    proof (cases "v = ?w")
      case False
      then have v: "contends (\<lambda>_. isStale) rs v" using that others_live by blast
      then have "Min (claim_ids rs ?w) \<le> Min (claim_ids rs v)" using least True by blast
      moreover have "Min (claim_ids rs ?w) \<noteq> Min (claim_ids rs v)"
        using claim_ids_disjoint[OF assms(1) False] Min_in[OF finite_claim_ids contender_claims[OF v]]
          Min_in[OF finite_claim_ids contender_claims[OF own]] by auto
      ultimately show ?thesis by (simp add: order_key_def sees_own_claims[OF assms(2)] less_eq_prod_def)
    qed simp
    then have "\<exists>d. reconcileClaim rs self isStale = Inr d \<and> verdict d = Won"
      by (intro won_intro[OF u self_live[OF u assms(5-8)]]) blast
    then show ?thesis using assms(9) True x by auto
  next
    case False
    then have "x \<in> live_claimants rs self isStale" using others_live least by blast
    then have "verdict d = Won \<Longrightarrow> Min (claim_ids rs ?w) < Min (claim_ids rs x)"
      using won_ahead[OF assms(1,9) _ assms(2)] False by blast
    moreover have "Min (claim_ids rs x) \<le> Min (claim_ids rs ?w)" using least own by blast
    ultimately show ?thesis using False x by auto
  qed
qed

text \<open>
  No environment and no configuration collapses the window: the resolved cadence, grace and
  commit protection are positive, the tolerance is not negative, and a claim refreshed within
  one cadence is fresh.
\<close>

theorem resolved_policy_safe:
  "let config = resolveClaimReaperConfig env getCfg in
   0 < refreshCadenceS config \<and> 0 \<le> tolerance config \<and> 0 < claimGraceS config \<and>
   0 < recentCommitProtectionS config \<and> refreshCadenceS config \<le> staleWindowS config \<and>
   (\<forall>r ts. recordEpochS dateParse r = Some ts \<and> now - ts \<le> refreshCadenceS config \<longrightarrow>
      classifyClaim dateParse r now (Some (claimGraceS config)) config = FreshClaim)"
proof -
  let ?c = "resolveClaimReaperConfig env getCfg"
  have c: "0 < refreshCadenceS ?c" "0 \<le> tolerance ?c" "0 < claimGraceS ?c" "0 < recentCommitProtectionS ?c"
    unfolding resolveClaimReaperConfig_def
    by (simp_all add: policy_bounds DEFAULT_CLAIM_REFRESH_S_def DEFAULT_CLAIM_STALE_TOLERANCE_def
        DEFAULT_CLAIM_REAPER_GRACE_S_def DEFAULT_CLAIM_RECENT_COMMIT_PROTECTION_S_def)
  then have "refreshCadenceS ?c \<le> staleWindowS ?c"
    unfolding staleWindowS_def by (simp add: algebra_simps)
  then show ?thesis using c by (auto simp: Let_def classifyClaim_def)
qed

section \<open>Witnesses\<close>

definition never_dates :: "string \<Rightarrow> int option" where
  "never_dates t = (if t = ''old'' then Some 0 else None)"

definition stranded :: ClaimedIssue where
  "stranded = \<lparr>ci_issue = 12, ci_records = [(word 5 ''a:1'' Claim)\<lparr>createdAt := Some ''old''\<rparr>],
               attemptBranchCommitS = None, deadOwners = [], liveOwners = []\<rparr>"

theorem sweep_robs_no_live_worker_witness:
  "\<exists>ts. recordEpochS never_dates ((word 5 ''a:1'' Claim)\<lparr>createdAt := Some ''old''\<rparr>) = Some ts \<and> 5000 - ts > 1080"
proof -
  let ?rel = "\<lparr>rel_issue = 12, rel_staleOwners = [''a:1''], rel_concededOwners = None\<rparr>"
  have "?rel \<in> set (planStaleClaimSweep never_dates [stranded] 5000 DEFAULT_CLAIM_REAPER)" by code_simp
  moreover have "latest_word (words_of (ci_records stranded) ''a:1'') = Some ((word 5 ''a:1'' Claim)\<lparr>createdAt := Some ''old''\<rparr>)"
    by code_simp
  moreover have "refreshCadenceS DEFAULT_CLAIM_REAPER * (tolerance DEFAULT_CLAIM_REAPER + 1) = 1080" by code_simp
  ultimately show ?thesis
    using sweep_robs_no_live_worker[of ?rel never_dates "[stranded]" 5000 DEFAULT_CLAIM_REAPER]
    by (fastforce simp: word_def stranded_def)
qed

theorem winner_is_live_owner_witness:
  "liveOwner (classifyIssueClaims duel (\<lambda>_. False)) = Some ''a:1''"
proof -
  have "map_sum (\<lambda>_. ()) verdict (reconcileClaim duel (claims_as 10 ''a:1'') (\<lambda>_. False)) = Inr Won" by code_simp
  then obtain d where d: "reconcileClaim duel (claims_as 10 ''a:1'') (\<lambda>_. False) = Inr d" "verdict d = Won"
    by (cases "reconcileClaim duel (claims_as 10 ''a:1'') (\<lambda>_. False)") auto
  have "latest_word (words_of duel (self_worker (claims_as 10 ''a:1''))) = Some (word 10 ''a:1'' Claim)" by code_simp
  then show ?thesis
    using winner_is_live_owner[OF _ _ _ _ _ _ _ _ d(1), of "word 10 ''a:1'' Claim"] d(2)
    by (simp add: duel_def thread_def word_def sees_own_def claim_ids_mem claims_as_def)
qed

theorem resolved_policy_safe_witness:
  "0 < refreshCadenceS (resolveClaimReaperConfig (\<lambda>_. Some ''0'') (\<lambda>_. ''-1''))"
  using resolved_policy_safe[of "\<lambda>_. Some ''0''" "\<lambda>_. ''-1''" never_dates 0] by (simp add: Let_def)

end
