(* ===== verification/Local_Lease.thy ===== *)
theory Local_Lease
  imports Claim
begin

text \<open>
  The per-host issue lease and its composition with the claim protocol: the last layer of
  \<open>packages/worker/src/engine/tracker/claim.ts\<close>.

  The lease of one issue is the state of one path. An acquirer is a sequence of file-system
  calls, each awaited, so another process may run between any two: \<open>acquire_step\<close> is one such
  call, \<open>acquireFsIssueLease\<close> the run of one acquirer alone, and a schedule interleaves two. The
  creation of the root directory and the clearing of the quarantine name, which is unique to
  the attempt, do not touch the path and are not steps. Liveness is injected by the host and is
  a parameter.
\<close>

section \<open>The path\<close>

datatype TrackerClaimLiveness = Alive | Dead | Unknown

text \<open>Nothing, something that is no directory, or the directory with its \<open>pid\<close> and \<open>owner\<close> files.\<close>

datatype lease_path = NoPath | PoisonedPath | LeaseDir "string option" "string option"

definition nonempty_trimmed :: "string option \<Rightarrow> string option" where
  "nonempty_trimmed f = (case f of None \<Rightarrow> None | Some s \<Rightarrow> if trim s = [] then None else Some (trim s))"

definition readLeaseOwner :: "lease_path \<Rightarrow> string option" where
  "readLeaseOwner p = (case p of LeaseDir _ f \<Rightarrow> nonempty_trimmed f | _ \<Rightarrow> None)"

definition is_pid_text :: "string \<Rightarrow> bool" where
  "is_pid_text s \<longleftrightarrow> s \<noteq> [] \<and> list_all is_digit s \<and> hd s \<noteq> CHR ''0''"

definition readLeasePid :: "lease_path \<Rightarrow> nat option" where
  "readLeasePid p =
     (case p of
        LeaseDir f _ \<Rightarrow>
          (case nonempty_trimmed f of None \<Rightarrow> None | Some s \<Rightarrow> if is_pid_text s then Some (nat_of_digits s) else None)
      | _ \<Rightarrow> None)"

definition pid_file :: "nat \<Rightarrow> string" where
  "pid_file n = show_nat n"

definition owner_file :: "string \<Rightarrow> string" where
  "owner_file w = w @ newline"

section \<open>The acquirer\<close>

datatype LocalLeaseDecision =
    Acquired "string option"
  | Held string string

record acquirer =
  a_owner :: string
  a_pid :: nat
  a_liveness :: "string \<Rightarrow> TrackerClaimLiveness"
  a_pidAlive :: "nat \<Rightarrow> TrackerClaimLiveness"

definition holderLivenessVerdict ::
    "nat option \<Rightarrow> string option \<Rightarrow> (string \<Rightarrow> TrackerClaimLiveness) \<Rightarrow> (nat \<Rightarrow> TrackerClaimLiveness) \<Rightarrow>
     TrackerClaimLiveness" where
  "holderLivenessVerdict holderPid holderOwner liveness pidAlive =
     (case (holderPid, holderOwner) of
        (None, Some w) \<Rightarrow> liveness w
      | _ \<Rightarrow>
          (let pv = map_option pidAlive holderPid; ov = map_option liveness holderOwner in
           if pv = Some Alive \<or> ov = Some Alive then Alive
           else if pv = Some Dead \<or> ov = Some Dead \<or> (holderPid = None \<and> holderOwner = None) then Dead
           else Unknown))"

definition ours :: "acquirer \<Rightarrow> string option \<Rightarrow> nat option \<Rightarrow> bool" where
  "ours a holderOwner holderPid \<longleftrightarrow>
     holderOwner = Some (a_owner a) \<or> (holderOwner = None \<and> holderPid = Some (a_pid a))"

definition held_by :: "string option \<Rightarrow> nat option \<Rightarrow> string" where
  "held_by holderOwner holderPid =
     (case holderOwner of
        Some w \<Rightarrow> w
      | None \<Rightarrow> (case holderPid of Some n \<Rightarrow> show_nat n | None \<Rightarrow> ''unknown''))"

text \<open>Where an acquirer stands: the call it makes next, or its end.\<close>

datatype lease_pc =
    TryMkdir
  | WritePid "string option"
  | WriteOwner "string option"
  | ReadOwner
  | ReadPid "string option"
  | RefreshPid "string option"
  | RefreshOwner "string option"
  | RenameAway string
  | RemoveAway string
  | ReMkdir string
  | Finished LocalLeaseDecision
  | Threw

definition RECLAIM_LOST :: string where
  "RECLAIM_LOST = ''lost local lease reclaim race''"

text \<open>What follows the two reads.\<close>

definition after_reads :: "acquirer \<Rightarrow> string option \<Rightarrow> nat option \<Rightarrow> lease_pc" where
  "after_reads a holderOwner holderPid =
     (if ours a holderOwner holderPid
      then (if holderPid = None then RefreshPid holderOwner else RefreshOwner holderOwner)
      else (case holderLivenessVerdict holderPid holderOwner (a_liveness a) (a_pidAlive a) of
              Alive \<Rightarrow> Finished (Held (held_by holderOwner holderPid) ''local lease owner is alive'')
            | Unknown \<Rightarrow> Finished (Held (held_by holderOwner holderPid) ''local lease owner liveness unknown'')
            | Dead \<Rightarrow> RenameAway (held_by holderOwner holderPid)))"

text \<open>One file-system call. A write into a directory that is gone throws.\<close>

fun acquire_step :: "acquirer \<Rightarrow> lease_path \<Rightarrow> lease_pc \<Rightarrow> lease_path \<times> lease_pc" where
  "acquire_step a p TryMkdir = (if p = NoPath then (LeaseDir None None, WritePid None) else (p, ReadOwner))"
| "acquire_step a p (WritePid prev) =
     (case p of LeaseDir _ f \<Rightarrow> (LeaseDir (Some (pid_file (a_pid a))) f, WriteOwner prev) | _ \<Rightarrow> (p, Threw))"
| "acquire_step a p (WriteOwner prev) =
     (case p of LeaseDir f _ \<Rightarrow> (LeaseDir f (Some (owner_file (a_owner a))), Finished (Acquired prev)) | _ \<Rightarrow> (p, Threw))"
| "acquire_step a p ReadOwner = (p, ReadPid (readLeaseOwner p))"
| "acquire_step a p (ReadPid ow) = (p, after_reads a ow (readLeasePid p))"
| "acquire_step a p (RefreshPid ow) =
     (case p of LeaseDir _ f \<Rightarrow> (LeaseDir (Some (pid_file (a_pid a))) f, RefreshOwner ow) | _ \<Rightarrow> (p, Threw))"
| "acquire_step a p (RefreshOwner ow) =
     (if ow \<noteq> None then (p, Finished (Acquired None))
      else (case p of
              LeaseDir f _ \<Rightarrow> (LeaseDir f (Some (owner_file (a_owner a))), Finished (Acquired None))
            | _ \<Rightarrow> (p, Threw)))"
| "acquire_step a p (RenameAway h) =
     (if p = NoPath then (p, Finished (Held h RECLAIM_LOST)) else (NoPath, RemoveAway h))"
| "acquire_step a p (RemoveAway h) = (p, ReMkdir h)"
| "acquire_step a p (ReMkdir h) =
     (if p = NoPath then (LeaseDir None None, WritePid (Some h)) else (p, Finished (Held h RECLAIM_LOST)))"
| "acquire_step a p (Finished d) = (p, Finished d)"
| "acquire_step a p Threw = (p, Threw)"

text \<open>An acquirer alone: no run takes more than eight calls.\<close>

fun run_alone :: "acquirer \<Rightarrow> nat \<Rightarrow> lease_path \<times> lease_pc \<Rightarrow> lease_path \<times> lease_pc" where
  "run_alone a 0 s = s"
| "run_alone a (Suc n) s = run_alone a n (acquire_step a (fst s) (snd s))"

definition acquireFsIssueLease :: "acquirer \<Rightarrow> lease_path \<Rightarrow> lease_path \<times> lease_pc" where
  "acquireFsIssueLease a p = run_alone a 8 (p, TryMkdir)"

definition releaseFsIssueLease :: "string \<Rightarrow> nat \<Rightarrow> lease_path \<Rightarrow> lease_path" where
  "releaseFsIssueLease me pid p =
     (if p = NoPath then NoPath
      else if readLeaseOwner p = Some me \<or> (readLeaseOwner p = None \<and> readLeasePid p = Some pid) then NoPath
      else p)"

text \<open>Two acquirers under a schedule: \<open>True\<close> lets the first move.\<close>

fun run_schedule ::
    "acquirer \<Rightarrow> acquirer \<Rightarrow> bool list \<Rightarrow> lease_path \<times> lease_pc \<times> lease_pc \<Rightarrow> lease_path \<times> lease_pc \<times> lease_pc" where
  "run_schedule a b [] s = s"
| "run_schedule a b (True # sch) (p, x, y) =
     (let (p', x') = acquire_step a p x in run_schedule a b sch (p', x', y))"
| "run_schedule a b (False # sch) (p, x, y) =
     (let (p', y') = acquire_step b p y in run_schedule a b sch (p', x, y'))"

section \<open>The dual lease\<close>

text \<open>
  The remote half is the claim protocol; its parameters are those of \<open>acquireClaim\<close>. The record
  carries no runner time, and the staleness is the dead owner's or the injected one.
\<close>

definition dual_stale ::
    "(string \<Rightarrow> TrackerClaimLiveness) \<Rightarrow> (ClaimRecord \<Rightarrow> bool) option \<Rightarrow> ClaimRecord \<Rightarrow> bool" where
  "dual_stale liveness isStale r \<longleftrightarrow>
     liveness (worker r) = Dead \<or> (case isStale of None \<Rightarrow> False | Some f \<Rightarrow> f r)"

definition local_loss :: "string \<Rightarrow> string \<Rightarrow> ClaimDecision" where
  "local_loss h why =
     \<lparr>verdict = LostRace, winner = Some h, reason = why, winnerClaimId = None, winnerCreatedAt = None,
      recovered = []\<rparr>"

definition acquireIssueLease ::
    "acquirer \<Rightarrow> claim_faults \<Rightarrow> (string \<Rightarrow> int option) \<Rightarrow> jsnum \<Rightarrow> (nat \<Rightarrow> string + RawClaimComment list) \<Rightarrow>
     string option \<Rightarrow> int \<Rightarrow> (ClaimRecord \<Rightarrow> bool) option \<Rightarrow> int option \<Rightarrow> int \<Rightarrow> lease_path \<Rightarrow>
     (claim_error + ClaimDecision) \<times> ClaimCall list \<times> lease_path" where
  "acquireIssueLease a fails dateParse post reads rnr issue isStale attempts now p =
     (let opts = \<lparr>isStale_opt = dual_stale (a_liveness a) isStale, suppressConcede = False, deathFor = None,
                  verifyAttempts = attempts, nowS = now, hasAudit = False\<rparr>;
          (p1, pc) = acquireFsIssueLease a p in
      case pc of
        Finished (Held h why) \<Rightarrow> (Inr (local_loss h why), [], p1)
      | Finished (Acquired _) \<Rightarrow>
          (let (r, trace) = acquireClaim fails dateParse post reads (a_owner a) rnr None issue opts;
               released = releaseFsIssueLease (a_owner a) (a_pid a) p1 in
           case r of
             Inl e \<Rightarrow> (Inl e, trace, released)
           | Inr d \<Rightarrow> (Inr d, trace, if verdict d = LostRace then released else p1))
      | _ \<Rightarrow> (Inl (GhError ''ENOENT''), [], p1))"

definition retireIssueLease ::
    "claim_faults \<Rightarrow> string \<Rightarrow> string option \<Rightarrow> nat \<Rightarrow> lease_path \<Rightarrow> claim_error option \<times> ClaimCall list \<times> lease_path" where
  "retireIssueLease fails me rnr pid p =
     (let call = ConcedeCall (renderClaimComment (claimant me rnr None) Concede (Some Released)) in
      case fails [] call of
        Some e \<Rightarrow> (Some (GhError e), [], p)
      | None \<Rightarrow> (None, [call], releaseFsIssueLease me pid p))"

section \<open>Lemmas\<close>

text \<open>A directory with both files written, and the missing ones filled in.\<close>

definition written_lease :: "acquirer \<Rightarrow> lease_path" where
  "written_lease a = LeaseDir (Some (pid_file (a_pid a))) (Some (owner_file (a_owner a)))"

definition filled :: "acquirer \<Rightarrow> lease_path \<Rightarrow> lease_path" where
  "filled a p =
     (case p of
        LeaseDir f g \<Rightarrow>
          LeaseDir (if readLeasePid p = None then Some (pid_file (a_pid a)) else f)
            (if readLeaseOwner p = None then Some (owner_file (a_owner a)) else g)
      | _ \<Rightarrow> p)"

lemma run_alone_Finished [simp]: "run_alone a n (p, Finished d) = (p, Finished d)"
  by (induction n) simp_all

lemma ours_dir: "ours a (readLeaseOwner p) (readLeasePid p) \<Longrightarrow> \<exists>f g. p = LeaseDir f g"
  by (cases p) (auto simp: ours_def readLeaseOwner_def readLeasePid_def)

lemma acquire_alone:
  "acquireFsIssueLease a p =
     (if p = NoPath then (written_lease a, Finished (Acquired None))
      else if ours a (readLeaseOwner p) (readLeasePid p) then (filled a p, Finished (Acquired None))
      else (case holderLivenessVerdict (readLeasePid p) (readLeaseOwner p) (a_liveness a) (a_pidAlive a) of
              Alive \<Rightarrow> (p, Finished (Held (held_by (readLeaseOwner p) (readLeasePid p)) ''local lease owner is alive''))
            | Unknown \<Rightarrow> (p, Finished (Held (held_by (readLeaseOwner p) (readLeasePid p)) ''local lease owner liveness unknown''))
            | Dead \<Rightarrow> (written_lease a, Finished (Acquired (Some (held_by (readLeaseOwner p) (readLeasePid p)))))))"
proof (cases "p = NoPath")
  case True
  then show ?thesis by (simp add: acquireFsIssueLease_def eval_nat_numeral written_lease_def)
next
  case ne: False
  show ?thesis
  proof (cases "ours a (readLeaseOwner p) (readLeasePid p)")
    case True
    then obtain f g where p: "p = LeaseDir f g" using ours_dir by blast
    show ?thesis using True ne
      by (cases "readLeasePid p"; cases "readLeaseOwner p")
         (simp_all add: acquireFsIssueLease_def eval_nat_numeral after_reads_def filled_def p)
  next
    case False
    then show ?thesis using ne
      by (cases "holderLivenessVerdict (readLeasePid p) (readLeaseOwner p) (a_liveness a) (a_pidAlive a)")
         (simp_all add: acquireFsIssueLease_def eval_nat_numeral after_reads_def written_lease_def)
  qed
qed

text \<open>An owner token that survives the file format.\<close>

definition plain_token :: "string \<Rightarrow> bool" where
  "plain_token w \<longleftrightarrow> w \<noteq> [] \<and> \<not> is_ws (hd w) \<and> \<not> is_ws (last w)"

lemma trim_owner_file: "plain_token w \<Longrightarrow> trim (owner_file w) = w"
proof -
  assume w: "plain_token w"
  then have "dropWhile is_ws (w @ newline) = w @ newline" by (cases w) (auto simp: plain_token_def)
  moreover have "trim_end (w @ newline) = trim_end w"
    by (simp add: trim_end_def newline_def is_ws_def)
  ultimately show ?thesis
    using w trim_end_id[of w] by (simp add: trim_def owner_file_def plain_token_def)
qed

lemma owner_of_owner_file: "plain_token w \<Longrightarrow> readLeaseOwner (LeaseDir f (Some (owner_file w))) = Some w"
  by (simp add: readLeaseOwner_def nonempty_trimmed_def trim_owner_file) (simp add: plain_token_def)

lemma acquired_reads_own:
  assumes "plain_token (a_owner a)" and "acquireFsIssueLease a p = (p', Finished (Acquired prev))"
  shows "readLeaseOwner p' = Some (a_owner a)"
proof -
  have w: "readLeaseOwner (written_lease a) = Some (a_owner a)"
    using assms(1) by (simp add: written_lease_def owner_of_owner_file)
  have f: "readLeaseOwner (filled a p) = Some (a_owner a)" if us: "ours a (readLeaseOwner p) (readLeasePid p)"
  proof -
    obtain x y where p: "p = LeaseDir x y" using ours_dir[OF us] by blast
    show ?thesis
    proof (cases "readLeaseOwner p")
      case None
      then show ?thesis using assms(1) by (simp add: filled_def p owner_of_owner_file)
    next
      case (Some o')
      then have "readLeaseOwner (filled a p) = readLeaseOwner p" by (simp add: filled_def p readLeaseOwner_def)
      then show ?thesis using us Some by (simp add: ours_def)
    qed
  qed
  show ?thesis
    using assms(2) w f unfolding acquire_alone
    by (auto split: if_splits TrackerClaimLiveness.splits)
qed

lemma release_own: "readLeaseOwner p = Some w \<Longrightarrow> releaseFsIssueLease w n p = NoPath"
  by (simp add: releaseFsIssueLease_def)

section \<open>Properties\<close>

text \<open>
  An acquirer alone always decides, and decides by the holder: a free path becomes its
  lease; a lease of its own stays its own with the missing file filled in; a holder that is
  alive or whose liveness is unknown keeps the path exactly as it was; a dead or unreadable one
  is replaced and named.
\<close>

theorem lease_decided_by_holder:
  "acquireFsIssueLease a p =
     (case p of
        NoPath \<Rightarrow> (written_lease a, Finished (Acquired None))
      | _ \<Rightarrow>
          let ow = readLeaseOwner p; pd = readLeasePid p; h = held_by ow pd in
          if ow = Some (a_owner a) \<or> (ow = None \<and> pd = Some (a_pid a))
          then (filled a p, Finished (Acquired None))
          else if holderLivenessVerdict pd ow (a_liveness a) (a_pidAlive a) = Alive
          then (p, Finished (Held h ''local lease owner is alive''))
          else if holderLivenessVerdict pd ow (a_liveness a) (a_pidAlive a) = Unknown
          then (p, Finished (Held h ''local lease owner liveness unknown''))
          else (written_lease a, Finished (Acquired (Some h))))"
proof (cases "p = NoPath")
  case True
  then show ?thesis by (simp add: acquire_alone)
next
  case False
  let ?v = "holderLivenessVerdict (readLeasePid p) (readLeaseOwner p) (a_liveness a) (a_pidAlive a)"
  show ?thesis unfolding acquire_alone ours_def Let_def using False by (cases ?v; cases p) simp_all
qed

text \<open>
  C18. The host slot never strands. Take a worker that runs alone on the path and whose token is
  neither empty nor begins or ends with white space. On a path that another holds, alive or of
  unknown liveness, the dual lease is lost to that holder, nothing is posted and the path is
  untouched. On any other path it ends with the worker as the owner of the path when it won, and
  with the path free when it lost the race or the verification failed.
\<close>

theorem slot_never_strands:
  assumes "plain_token (a_owner a)"
    and "acquireIssueLease a fails dateParse post reads rnr issue isStale attempts now p = (r, trace, p')"
  shows "if p \<noteq> NoPath \<and> readLeaseOwner p \<noteq> Some (a_owner a) \<and>
            \<not> (readLeaseOwner p = None \<and> readLeasePid p = Some (a_pid a)) \<and>
            holderLivenessVerdict (readLeasePid p) (readLeaseOwner p) (a_liveness a) (a_pidAlive a) \<noteq> Dead
         then trace = [] \<and> p' = p \<and>
           (\<exists>d. r = Inr d \<and> verdict d = LostRace \<and> winner d = Some (held_by (readLeaseOwner p) (readLeasePid p)))
         else (case r of
                 Inl e \<Rightarrow> p' = NoPath
               | Inr d \<Rightarrow> if verdict d = Won then readLeaseOwner p' = Some (a_owner a) else p' = NoPath)"
    (is "if ?refused then ?lost else ?settled")
proof (cases ?refused)
  case True
  then have "acquireFsIssueLease a p = (p, Finished (Held (held_by (readLeaseOwner p) (readLeasePid p)) ''local lease owner is alive'')) \<or>
      acquireFsIssueLease a p = (p, Finished (Held (held_by (readLeaseOwner p) (readLeasePid p)) ''local lease owner liveness unknown''))"
    unfolding acquire_alone ours_def by (auto split: TrackerClaimLiveness.splits)
  then have ?lost using assms(2) by (auto simp: acquireIssueLease_def Let_def local_loss_def)
  then show ?thesis using True by simp
next
  case False
  then have "\<exists>p1 prev. acquireFsIssueLease a p = (p1, Finished (Acquired prev))"
    unfolding acquire_alone ours_def by auto
  then obtain p1 prev where acq: "acquireFsIssueLease a p = (p1, Finished (Acquired prev))" by blast
  have own: "readLeaseOwner p1 = Some (a_owner a)" using acquired_reads_own[OF assms(1) acq] .
  note rel = release_own[OF own]
  have two: "v \<noteq> LostRace \<longleftrightarrow> v = Won" for v by (cases v) simp_all
  have ?settled
    using assms(2) acq own rel by (auto simp: acquireIssueLease_def Let_def two split: sum.splits prod.splits if_splits)
  then show ?thesis using False by argo
qed

text \<open>
  Between the creation of the directory and the writing of its files the lease has no
  owner, and a second acquirer takes it for a dead one: whatever the liveness oracles say, there
  is a schedule in which two acquirers of a free path both acquire it.
\<close>

theorem both_acquire_free_path:
  "\<exists>schedule p'. run_schedule a b schedule (NoPath, TryMkdir, TryMkdir) =
      (p', Finished (Acquired None), Finished (Acquired (Some ''unknown'')))"
proof -
  let ?s = "[True, False, False, False, False, False, False, True, True, False, False]"
  have none: "readLeaseOwner (LeaseDir None None) = None" "readLeasePid (LeaseDir None None) = None"
    by (simp_all add: readLeaseOwner_def readLeasePid_def nonempty_trimmed_def)
  have dead: "after_reads b None None = RenameAway ''unknown''"
    by (simp add: after_reads_def ours_def holderLivenessVerdict_def held_by_def Let_def)
  show ?thesis by (intro exI[of _ ?s] exI) (simp add: none dead)
qed

definition lone_acquirer :: acquirer where
  "lone_acquirer = \<lparr>a_owner = ''h:me'', a_pid = 77, a_liveness = \<lambda>_. Unknown, a_pidAlive = \<lambda>_. Unknown\<rparr>"

theorem slot_never_strands_witness:
  "snd (snd (acquireIssueLease lone_acquirer (\<lambda>_ _. None) (\<lambda>_. None) (IntNum 8) held_thread None 5 None
      (Some 1) 0 NoPath)) = NoPath"
proof -
  let ?run = "acquireIssueLease lone_acquirer (\<lambda>_ _. None) (\<lambda>_. None) (IntNum 8) held_thread None 5 None (Some 1) 0 NoPath"
  have "map_sum (\<lambda>_. ()) verdict (fst ?run) = Inr LostRace" by code_simp
  then obtain d where d: "fst ?run = Inr d" "verdict d = LostRace" by (cases "fst ?run") auto
  have "plain_token (a_owner lone_acquirer)" by code_simp
  from slot_never_strands[OF this, of "\<lambda>_ _. None" "\<lambda>_. None" "IntNum 8" held_thread None 5 None "Some 1" 0 NoPath
      "fst ?run" "fst (snd ?run)" "snd (snd ?run)"] d
  show ?thesis by simp
qed

end
