(* ===== verification/Resource_Lease.thy ===== *)
theory Resource_Lease
  imports Engine_Config
begin

text \<open>
  Host-scoped resource admission: \<open>apps/redskilled/src/resource-lease.ts\<close>.

  The runtime's state is the insertion-ordered map from lease ids to leases. Each operation is
  a sequence of atomic turns of the event loop, cut at its \<open>await\<close>s; between two turns every
  other operation may run. The clock, the memory sample and the fresh id are inputs of a turn;
  the persistence callback and the waking of waiters have no effect on the map. Times are
  milliseconds, \<open>toISO\<close> prints one and \<open>dateParse\<close> reads one, \<open>None\<close> standing for \<open>NaN\<close>.
\<close>

section \<open>Data\<close>

definition DEFAULT_REDSKILLED_RESOURCE_LEASE_TTL_MS :: int where
  "DEFAULT_REDSKILLED_RESOURCE_LEASE_TTL_MS = 30000"

definition DEFAULT_REDSKILLED_RESOURCE_SAFETY_POLL_MS :: int where
  "DEFAULT_REDSKILLED_RESOURCE_SAFETY_POLL_MS = 5000"

record RedskilledResourceLeaseRequest =
  q_resource :: string
  q_holder_id :: string
  q_worker_id :: "string option"
  q_minimum :: jsnum
  q_ttl_ms :: jsnum
  q_wait_timeout_ms :: jsnum

record RedskilledResourceLease =
  lease_id :: string
  resource :: string
  holder_id :: string
  worker_id :: "string option"
  minimum_available_memory_bytes :: int
  acquired_at :: string
  renewed_at :: string
  expires_at :: string

type_synonym leases = "(string \<times> RedskilledResourceLease) list"

datatype resource_error =
    EmptyIdentity
  | InvalidBounds
  | AdmissionTimeout string int

definition isRedskilledResourceLease :: "jsval \<Rightarrow> bool" where
  "isRedskilledResourceLease v \<longleftrightarrow>
     is_record v \<and>
     get_prop v ''version'' = JNum (Num 1) \<and>
     is_nonempty_str (get_prop v ''lease_id'') \<and>
     is_nonempty_str (get_prop v ''resource'') \<and>
     is_nonempty_str (get_prop v ''holder_id'') \<and>
     (get_prop v ''worker_id'' = JUndefined \<or> is_nonempty_str (get_prop v ''worker_id'')) \<and>
     is_num (get_prop v ''minimum_available_memory_bytes'') \<and>
     is_str (get_prop v ''acquired_at'') \<and>
     is_str (get_prop v ''renewed_at'') \<and>
     is_str (get_prop v ''expires_at'')"

section \<open>Expiry\<close>

definition expired :: "(string \<Rightarrow> int option) \<Rightarrow> int \<Rightarrow> RedskilledResourceLease \<Rightarrow> bool" where
  "expired dateParse now l = (case dateParse (expires_at l) of None \<Rightarrow> False | Some t \<Rightarrow> t \<le> now)"

definition pruneExpired :: "(string \<Rightarrow> int option) \<Rightarrow> int \<Rightarrow> leases \<Rightarrow> leases" where
  "pruneExpired dateParse now ls = filter (\<lambda>(_, l). \<not> expired dateParse now l) ls"

section \<open>Acquiring\<close>

definition spent :: "leases \<Rightarrow> string \<Rightarrow> bool" where
  "spent ls res \<longleftrightarrow> list_ex (\<lambda>(_, l). resource l = res) ls"

definition at_least_zero :: "jsnum \<Rightarrow> bool" where
  "at_least_zero x = (case x of Num r \<Rightarrow> 0 \<le> r | _ \<Rightarrow> False)"

definition above_zero :: "jsnum \<Rightarrow> bool" where
  "above_zero x = (case x of Num r \<Rightarrow> 0 < r | _ \<Rightarrow> False)"

definition request_error :: "RedskilledResourceLeaseRequest \<Rightarrow> resource_error option" where
  "request_error q =
     (if trim (q_resource q) = [] \<or> trim (q_holder_id q) = [] then Some EmptyIdentity
      else if \<not> at_least_zero (q_minimum q) \<or> \<not> above_zero (q_ttl_ms q) \<or> \<not> at_least_zero (q_wait_timeout_ms q)
      then Some InvalidBounds
      else None)"

text \<open>Where an acquire stands after an \<open>await\<close>.\<close>

datatype acquire_pc =
    Prune
  | Sample
  | Decide bool
  | Waiting int
  | Granted RedskilledResourceLease
  | Refused resource_error

definition new_lease ::
    "(int \<Rightarrow> string) \<Rightarrow> RedskilledResourceLeaseRequest \<Rightarrow> string \<Rightarrow> int \<Rightarrow> RedskilledResourceLease" where
  "new_lease toISO q uuid now =
     \<lparr>lease_id = uuid, resource = q_resource q, holder_id = q_holder_id q, worker_id = q_worker_id q,
      minimum_available_memory_bytes = int_of_num (q_minimum q),
      acquired_at = toISO now, renewed_at = toISO now,
      expires_at = toISO (now + max 1 (int_of_num (q_ttl_ms q)))\<rparr>"

definition enough :: "jsnum \<Rightarrow> jsnum \<Rightarrow> bool" where
  "enough available minimum =
     (case (available, minimum) of (Num a, Num m) \<Rightarrow> m \<le> a | _ \<Rightarrow> False)"

text \<open>\<open>Math.min\<close> over the expiries of the conflicting leases, the poll and what remains; \<open>None\<close> is \<open>NaN\<close>.\<close>

definition wait_ms :: "(string \<Rightarrow> int option) \<Rightarrow> int \<Rightarrow> int \<Rightarrow> int \<Rightarrow> leases \<Rightarrow> string \<Rightarrow> int option" where
  "wait_ms dateParse now safetyPollMs remaining ls res =
     (let ts = map (\<lambda>(_, l). map_option (\<lambda>t. max 1 (t - now)) (dateParse (expires_at l)))
                 (filter (\<lambda>(_, l). resource l = res) ls) in
      if None \<in> set ts then None
      else Some (foldr (\<lambda>t m. min (the t) m) ts (min safetyPollMs remaining)))"

text \<open>\<open>setTimeout\<close> takes a delay that is no number, or below a millisecond, as one millisecond.\<close>

definition delay_of :: "int option \<Rightarrow> int" where
  "delay_of ms = (case ms of None \<Rightarrow> 1 | Some m \<Rightarrow> max 1 m)"

text \<open>One turn of an acquire begun at \<open>started\<close>.\<close>

definition acquire_turn ::
    "(string \<Rightarrow> int option) \<Rightarrow> (int \<Rightarrow> string) \<Rightarrow> int \<Rightarrow> int \<Rightarrow> RedskilledResourceLeaseRequest \<Rightarrow>
     int \<Rightarrow> jsnum \<Rightarrow> string \<Rightarrow> leases \<Rightarrow> acquire_pc \<Rightarrow> leases \<times> acquire_pc" where
  "acquire_turn dateParse toISO safetyPollMs started q now available uuid ls pc =
     (case pc of
        Prune \<Rightarrow> (pruneExpired dateParse now ls, Sample)
      | Sample \<Rightarrow> (ls, Decide (spent ls (q_resource q)))
      | Decide conflict \<Rightarrow>
          if \<not> conflict \<and> \<not> spent ls (q_resource q) \<and> enough available (q_minimum q)
          then (let l = new_lease toISO q uuid now in (obj_set ls uuid l, Granted l))
          else (let remaining = started + max 0 (int_of_num (q_wait_timeout_ms q)) - now in
                if remaining \<le> 0
                then (ls, Refused (AdmissionTimeout (q_resource q) (int_of_num (q_wait_timeout_ms q))))
                else (ls, Waiting (delay_of (wait_ms dateParse now safetyPollMs remaining ls (q_resource q)))))
      | Waiting _ \<Rightarrow> (ls, Prune)
      | Granted l \<Rightarrow> (ls, Granted l)
      | Refused e \<Rightarrow> (ls, Refused e))"

definition acquire_start :: "RedskilledResourceLeaseRequest \<Rightarrow> acquire_pc" where
  "acquire_start q = (case request_error q of Some e \<Rightarrow> Refused e | None \<Rightarrow> Prune)"

section \<open>Renewing and releasing\<close>

text \<open>The turn of a renewal that follows its pruning.\<close>

definition renew_turn ::
    "(int \<Rightarrow> string) \<Rightarrow> int \<Rightarrow> int \<Rightarrow> string \<Rightarrow> leases \<Rightarrow> leases \<times> RedskilledResourceLease option" where
  "renew_turn toISO now ttlMs leaseId ls =
     (case map_of ls leaseId of
        None \<Rightarrow> (ls, None)
      | Some held \<Rightarrow>
          (let l = held\<lparr>renewed_at := toISO now, expires_at := toISO (now + max 1 ttlMs)\<rparr> in
           (obj_set ls leaseId l, Some l)))"

definition release_turn :: "string \<Rightarrow> leases \<Rightarrow> leases \<times> bool" where
  "release_turn leaseId ls = (filter (\<lambda>(k, _). k \<noteq> leaseId) ls, leaseId \<in> fst ` set ls)"

definition held_by_holder :: "string \<Rightarrow> RedskilledResourceLease \<Rightarrow> bool" where
  "held_by_holder h l \<longleftrightarrow> holder_id l = h \<or> worker_id l = Some h"

definition releaseHolder_turn :: "string \<Rightarrow> leases \<Rightarrow> leases \<times> nat" where
  "releaseHolder_turn h ls =
     (filter (\<lambda>(_, l). \<not> held_by_holder h l) ls, length (filter (\<lambda>(_, l). held_by_holder h l) ls))"

section \<open>The runtime\<close>

text \<open>
  Any number of acquires in flight, each with its request and start, over one map of leases;
  every turn of every operation, in any order and at any time.
\<close>

record runtime =
  held :: leases
  flight :: "nat \<Rightarrow> (RedskilledResourceLeaseRequest \<times> int \<times> acquire_pc) option"

inductive runtime_step ::
    "(string \<Rightarrow> int option) \<Rightarrow> (int \<Rightarrow> string) \<Rightarrow> int \<Rightarrow> runtime \<Rightarrow> runtime \<Rightarrow> bool"
  for dateParse toISO poll where
  begin_acquire: "flight s i = None \<Longrightarrow>
    runtime_step dateParse toISO poll s (s\<lparr>flight := (flight s)(i \<mapsto> (q, now, acquire_start q))\<rparr>)"
| turn: "flight s i = Some (q, started, pc) \<Longrightarrow>
    acquire_turn dateParse toISO poll started q now available uuid (held s) pc = (ls, pc') \<Longrightarrow>
    uuid \<notin> fst ` set (held s) \<Longrightarrow>
    runtime_step dateParse toISO poll s (s\<lparr>held := ls, flight := (flight s)(i \<mapsto> (q, started, pc'))\<rparr>)"
| prune: "runtime_step dateParse toISO poll s (s\<lparr>held := pruneExpired dateParse now (held s)\<rparr>)"
| renew: "runtime_step dateParse toISO poll s (s\<lparr>held := fst (renew_turn toISO now ttl lid (held s))\<rparr>)"
| release: "runtime_step dateParse toISO poll s (s\<lparr>held := fst (release_turn lid (held s))\<rparr>)"
| releaseHolder: "runtime_step dateParse toISO poll s (s\<lparr>held := fst (releaseHolder_turn h (held s))\<rparr>)"

inductive_cases runtime_stepE: "runtime_step dateParse toISO poll s t"

section \<open>Lemmas\<close>

text \<open>One lease per resource, one entry per id.\<close>

definition exclusive :: "leases \<Rightarrow> bool" where
  "exclusive ls \<longleftrightarrow> distinct (map (\<lambda>(_, l). resource l) ls) \<and> distinct (map fst ls)"

lemma exclusive_filter: "exclusive ls \<Longrightarrow> exclusive (filter P ls)"
  by (simp add: exclusive_def distinct_map_filter)

lemma spent_iff: "spent ls r \<longleftrightarrow> r \<in> (\<lambda>(_, l). resource l) ` set ls"
  by (auto simp: spent_def list_ex_iff)

lemma exclusive_grant:
  "exclusive ls \<Longrightarrow> \<not> spent ls (resource l) \<Longrightarrow> uuid \<notin> fst ` set ls \<Longrightarrow> exclusive (obj_set ls uuid l)"
  by (auto simp: exclusive_def obj_set_fresh spent_iff)

lemma obj_set_resources:
  "map_of ls k = Some h \<Longrightarrow> resource l = resource h \<Longrightarrow>
     map (\<lambda>(_, l). resource l) (obj_set ls k l) = map (\<lambda>(_, l). resource l) ls \<and>
     map fst (obj_set ls k l) = map fst ls"
  by (induction ls k l rule: obj_set.induct) (auto split: if_splits)

lemma exclusive_renew: "exclusive ls \<Longrightarrow> exclusive (fst (renew_turn toISO now ttl lid ls))"
  using obj_set_resources[of ls lid]
  by (auto simp: renew_turn_def exclusive_def Let_def split: option.splits)

lemma exclusive_turn:
  assumes "exclusive ls" and "uuid \<notin> fst ` set ls"
    and "acquire_turn dateParse toISO poll started q now available uuid ls pc = (ls', pc')"
  shows "exclusive ls'"
  using assms exclusive_grant[OF assms(1) _ assms(2), of "new_lease toISO q uuid now"]
  by (auto simp: acquire_turn_def pruneExpired_def exclusive_filter Let_def new_lease_def
      split: acquire_pc.splits if_splits)

lemma runtime_step_exclusive:
  assumes "exclusive (held s)" and "runtime_step dateParse toISO poll s t"
  shows "exclusive (held t)"
  using assms(2)
  by (rule runtime_stepE)
     (use assms(1) exclusive_turn exclusive_renew in
       \<open>auto simp: pruneExpired_def release_turn_def releaseHolder_turn_def intro: exclusive_filter\<close>)

interpretation lease_runtime: stepwise_invariant "\<lambda>s. exclusive (held s)" "runtime_step dateParse toISO poll"
    "\<lambda>s. exclusive (held s)" for dateParse toISO poll
  by unfold_locales (auto intro: runtime_step_exclusive)

lemma foldr_min_bounds: "foldr (\<lambda>t m. min (the t) m) ts b \<le> (b::int)"
  by (induction ts) (auto simp: min_le_iff_disj)

lemma wait_ms_bound: "wait_ms dateParse now poll rem ls res = Some m \<Longrightarrow> m \<le> min poll rem"
  unfolding wait_ms_def Let_def
  by (rule ord_eq_le_trans[OF _ foldr_min_bounds]) (auto split: if_splits)

section \<open>Properties\<close>

text \<open>
  C15. At most one lease per resource, whatever runs when: from a restored set with no double
  resource, through any interleaving of acquires, renewals, releases and expiries, no two held
  leases name the same resource.
\<close>

theorem one_lease_per_resource:
  assumes "exclusive (held s)" and "(runtime_step dateParse toISO poll)\<^sup>*\<^sup>* s t"
    and "(i, l) \<in> set (held t)" and "(j, m) \<in> set (held t)" and "resource l = resource m"
  shows "i = j \<and> l = m"
proof -
  have "exclusive (held t)" using lease_runtime.reachable_inv assms(1,2) by blast
  then have "inj_on (\<lambda>(_, l). resource l) (set (held t))" by (simp add: exclusive_def distinct_map)
  from inj_onD[OF this _ assms(3,4)] show ?thesis using assms(5) by simp
qed

text \<open>
  A waiting request wakes in time: the delay before the next attempt is at least a
  millisecond and at most the safety poll and the time that remains, whatever the leases say of
  their expiry; so waiting makes progress and never overruns the deadline.
\<close>

theorem wait_makes_progress:
  assumes "1 \<le> poll" and "acquire_turn dateParse toISO poll started q now available uuid ls (Decide conflict) = (ls', Waiting ms)"
  shows "1 \<le> ms \<and> ms \<le> poll \<and> now + ms \<le> started + max 0 (int_of_num (q_wait_timeout_ms q))"
proof -
  let ?rem = "started + max 0 (int_of_num (q_wait_timeout_ms q)) - now"
  let ?w = "wait_ms dateParse now poll ?rem ls (q_resource q)"
  have rem: "0 < ?rem" and ms: "ms = delay_of ?w"
    using assms(2) by (auto simp: acquire_turn_def Let_def split: if_splits)
  show ?thesis
    using assms(1) rem wait_ms_bound[of dateParse now poll ?rem ls "q_resource q"]
    by (cases ?w) (auto simp: ms delay_of_def)
qed

text \<open>
  A restored lease whose expiry is no readable time passes the validator's type check and
  never expires: at every time the pruning keeps it, and an acquire of its resource is never
  granted while it stands.
\<close>

theorem unreadable_expiry_blocks:
  assumes "(k, l) \<in> set ls" and "dateParse (expires_at l) = None" and "resource l = q_resource q"
  shows "(k, l) \<in> set (pruneExpired dateParse now ls) \<and>
         (\<forall>pc ls' g. acquire_turn dateParse toISO poll started q now available uuid ls pc = (ls', Granted g) \<longrightarrow>
            pc = Granted g \<and> ls' = ls)"
proof -
  have "spent ls (q_resource q)" using assms(1,3) by (force simp: spent_def list_ex_iff)
  moreover have "(k, l) \<in> set (pruneExpired dateParse now ls)"
    using assms(1,2) by (simp add: pruneExpired_def expired_def)
  ultimately show ?thesis
    by (auto simp: acquire_turn_def Let_def split: acquire_pc.splits if_splits)
qed

section \<open>Witnesses\<close>

definition gate_request :: RedskilledResourceLeaseRequest where
  "gate_request = \<lparr>q_resource = ''gate'', q_holder_id = ''w1'', q_worker_id = None, q_minimum = Num 100,
                   q_ttl_ms = Num 1000, q_wait_timeout_ms = Num 60\<rparr>"

definition idle :: runtime where
  "idle = \<lparr>held = [], flight = \<lambda>_. None\<rparr>"

definition millis :: "string \<Rightarrow> int option" where
  "millis t = (if t \<noteq> [] \<and> list_all is_digit t then Some (int (nat_of_digits t)) else None)"

theorem one_lease_per_resource_witness:
  "\<exists>t i l. (runtime_step millis show_int 5)\<^sup>*\<^sup>* idle t \<and> (i, l) \<in> set (held t) \<and> resource l = ''gate''"
proof -
  let ?l = "new_lease show_int gate_request ''u'' 0"
  let ?s0 = "idle\<lparr>flight := [0 \<mapsto> (gate_request, 0, Prune)]\<rparr>"
  let ?s1 = "idle\<lparr>flight := [0 \<mapsto> (gate_request, 0, Sample)]\<rparr>"
  let ?s2 = "idle\<lparr>flight := [0 \<mapsto> (gate_request, 0, Decide False)]\<rparr>"
  let ?t = "\<lparr>held = [(''u'', ?l)], flight = [0 \<mapsto> (gate_request, 0, Granted ?l)]\<rparr>"
  have "acquire_start gate_request = Prune" by code_simp
  then have "runtime_step millis show_int 5 idle ?s0"
    using runtime_step.begin_acquire[of idle 0 millis show_int 5 gate_request 0] by (simp add: idle_def)
  moreover have "runtime_step millis show_int 5 ?s0 ?s1"
    using runtime_step.turn[of ?s0 0 gate_request 0 Prune millis show_int 5 0 NaN "''u''" "[]" Sample]
    by (simp add: idle_def acquire_turn_def pruneExpired_def)
  moreover have "runtime_step millis show_int 5 ?s1 ?s2"
    using runtime_step.turn[of ?s1 0 gate_request 0 Sample millis show_int 5 0 NaN "''u''" "[]" "Decide False"]
    by (simp add: idle_def acquire_turn_def spent_def)
  moreover have "runtime_step millis show_int 5 ?s2 ?t"
    using runtime_step.turn[of ?s2 0 gate_request 0 "Decide False" millis show_int 5 0 "Num 100" "''u''" "[(''u'', ?l)]" "Granted ?l"]
    by (simp add: idle_def acquire_turn_def spent_def enough_def gate_request_def Let_def)
  ultimately have run: "(runtime_step millis show_int 5)\<^sup>*\<^sup>* idle ?t" by (meson converse_rtranclp_into_rtranclp rtranclp.rtrancl_refl)
  have "exclusive (held idle)" by (simp add: idle_def exclusive_def)
  then have "''u'' = ''u'' \<and> ?l = ?l"
    using one_lease_per_resource[of idle millis show_int 5 ?t "''u''" ?l "''u''" ?l] run by simp
  then show ?thesis using run by (intro exI[of _ ?t] exI[of _ "''u''"] exI[of _ ?l]) (simp add: new_lease_def gate_request_def)
qed

theorem wait_makes_progress_witness:
  "acquire_turn millis show_int 5 0 gate_request 10 (Num 1) ''u'' [] (Decide False) = ([], Waiting 5) \<and> 10 + 5 \<le> (60 :: int)"
proof -
  have w: "acquire_turn millis show_int 5 0 gate_request 10 (Num 1) ''u'' [] (Decide False) = ([], Waiting 5)" by code_simp
  then show ?thesis
    using wait_makes_progress[of 5 millis show_int 0 gate_request 10 "Num 1" "''u''" "[]" False "[]" 5]
    by (simp add: gate_request_def)
qed

theorem unreadable_expiry_blocks_witness:
  "(''k'', (new_lease show_int gate_request ''k'' 0)\<lparr>expires_at := ''soon''\<rparr>) \<in>
     set (pruneExpired millis 999999 [(''k'', (new_lease show_int gate_request ''k'' 0)\<lparr>expires_at := ''soon''\<rparr>)])"
proof -
  have "millis ''soon'' = None" by code_simp
  then show ?thesis
    using unreadable_expiry_blocks[of "''k''" "(new_lease show_int gate_request ''k'' 0)\<lparr>expires_at := ''soon''\<rparr>"
      "[(''k'', (new_lease show_int gate_request ''k'' 0)\<lparr>expires_at := ''soon''\<rparr>)]" millis gate_request 999999]
    by (simp add: new_lease_def)
qed

end
