(* ===== verification/Demand_Loop.thy ===== *)
theory Demand_Loop
  imports Prelude
begin

text \<open>
  When the daemon asks for a Worker: \<open>apps/redskilled/src/harvest-deadline.ts\<close>, the birth
  outcomes of \<open>apps/redskilled/src/daemon/birth-outcome.ts\<close> and the planner and birth breaker
  of \<open>apps/redskilled/src/demand-loop.ts\<close>.

  Projects, queues, live counts and breaker records are keyed by label; a \<open>Record\<close> is a partial
  map. The collation of \<open>localeCompare\<close> and the printing of dates and of fractional numbers
  belong to the host's locale and engine: \<open>collate\<close> gives the sort key of a label, \<open>toISO\<close> and
  \<open>showNum\<close> the texts, all three parameters.
\<close>

section \<open>The harvest deadline\<close>

definition REDSKILLED_DEFAULT_HARVEST_FRACTION :: rat where
  "REDSKILLED_DEFAULT_HARVEST_FRACTION = 7 / 10"

text \<open>What an operator wrote, and the same once its shape was checked.\<close>

record RedskilledHarvestDeclaration =
  d_budget_ms :: "jsnum option"
  d_harvest_fraction :: "jsnum option"

record checked_harvest =
  budget_ms :: "rat option"
  harvest_fraction :: "rat option"

datatype harvest_error =
    BudgetNotPositive string
  | FractionOutOfRange string
  | FractionWithoutBudget string

definition requireHarvestDeclaration ::
    "RedskilledHarvestDeclaration \<Rightarrow> string \<Rightarrow> harvest_error + checked_harvest" where
  "requireHarvestDeclaration declaration projectLabel =
     (case (d_budget_ms declaration, d_harvest_fraction declaration) of
        (None, None) \<Rightarrow> Inr \<lparr>budget_ms = None, harvest_fraction = None\<rparr>
      | (None, Some (Num f)) \<Rightarrow>
          if f \<le> 0 \<or> f > 1 then Inl (FractionOutOfRange projectLabel) else Inl (FractionWithoutBudget projectLabel)
      | (None, Some _) \<Rightarrow> Inl (FractionOutOfRange projectLabel)
      | (Some (Num b), None) \<Rightarrow>
          if b \<le> 0 then Inl (BudgetNotPositive projectLabel)
          else Inr \<lparr>budget_ms = Some b, harvest_fraction = None\<rparr>
      | (Some (Num b), Some (Num f)) \<Rightarrow>
          if b \<le> 0 then Inl (BudgetNotPositive projectLabel)
          else if f \<le> 0 \<or> f > 1 then Inl (FractionOutOfRange projectLabel)
          else Inr \<lparr>budget_ms = Some b, harvest_fraction = Some f\<rparr>
      | (Some (Num b), Some _) \<Rightarrow>
          if b \<le> 0 then Inl (BudgetNotPositive projectLabel) else Inl (FractionOutOfRange projectLabel)
      | (Some _, _) \<Rightarrow> Inl (BudgetNotPositive projectLabel))"

record RedskilledHarvestWatch = checked_harvest +
  startedAtMs :: "int option"

datatype RedskilledHarvestState = Inert | Admitting | Harvesting

record RedskilledHarvestDecision =
  h_state :: RedskilledHarvestState
  admits :: bool
  budgetMs :: "rat option"
  fraction :: "rat option"
  harvestAtMs :: "rat option"
  deadlineAtMs :: "rat option"
  h_detail :: string

definition INERT :: RedskilledHarvestDecision where
  "INERT = \<lparr>h_state = Inert, admits = True, budgetMs = None, fraction = None, harvestAtMs = None,
            deadlineAtMs = None,
            h_detail = ''no drain budget was declared, so no harvest deadline stands and admission is unchanged''\<rparr>"

definition harvest_detail :: "(rat \<Rightarrow> string) \<Rightarrow> (rat \<Rightarrow> string) \<Rightarrow> bool \<Rightarrow> rat \<Rightarrow> rat \<Rightarrow> rat \<Rightarrow> rat \<Rightarrow> string" where
  "harvest_detail toISO showNum harvesting b f starts deadline =
     (if harvesting
      then ''the declared '' @ showNum b @ ''ms budget passed its harvest fraction of '' @ showNum f @ '' at '' @
           toISO starts @ '', so no new claim is admitted before the budget ends at '' @ toISO deadline @ '' '' @ em_dash @
           '' work already in flight keeps landing''
      else ''the declared '' @ showNum b @ ''ms budget admits new claims until '' @ toISO starts @
           '', after which the drain harvests what it holds until '' @ toISO deadline)"

text \<open>An instant that did not parse is \<open>None\<close>; every comparison with it is false.\<close>

definition decideHarvest ::
    "(rat \<Rightarrow> string) \<Rightarrow> (rat \<Rightarrow> string) \<Rightarrow> RedskilledHarvestWatch option \<Rightarrow> int option \<Rightarrow> RedskilledHarvestDecision" where
  "decideHarvest toISO showNum watch nowMs =
     (case watch of
        None \<Rightarrow> INERT
      | Some w \<Rightarrow>
          (case (budget_ms w, startedAtMs w) of
             (Some b, Some started) \<Rightarrow>
               (let f = (case harvest_fraction w of None \<Rightarrow> REDSKILLED_DEFAULT_HARVEST_FRACTION | Some f \<Rightarrow> f);
                    starts = of_int started + b * f;
                    deadline = of_int started + b;
                    harvesting = (case nowMs of None \<Rightarrow> False | Some n \<Rightarrow> starts \<le> of_int n) in
                \<lparr>h_state = (if harvesting then Harvesting else Admitting), admits = (\<not> harvesting),
                 budgetMs = Some b, fraction = Some f, harvestAtMs = Some starts, deadlineAtMs = Some deadline,
                 h_detail = harvest_detail toISO showNum harvesting b f starts deadline\<rparr>)
           | _ \<Rightarrow> INERT))"

definition harvestWatchOf ::
    "(string \<Rightarrow> int option) \<Rightarrow> checked_harvest \<Rightarrow> string option \<Rightarrow> RedskilledHarvestWatch option" where
  "harvestWatchOf dateParse registration registered_at =
     (case budget_ms registration of
        None \<Rightarrow> None
      | Some b \<Rightarrow>
          (case dateParse (case registered_at of None \<Rightarrow> [] | Some t \<Rightarrow> t) of
             None \<Rightarrow> None
           | Some t \<Rightarrow>
               Some \<lparr>budget_ms = Some b, harvest_fraction = harvest_fraction registration, startedAtMs = Some t\<rparr>))"

text \<open>How one death reads: the words of the Worker protocol.\<close>

datatype RedskilledWorkerBirthOutcome = NoEligibleWork | WorkReported | Unreported

record RedskilledHarvestTally =
  harvested :: nat
  stranded :: nat

definition EMPTY_HARVEST_TALLY :: RedskilledHarvestTally where
  "EMPTY_HARVEST_TALLY = \<lparr>harvested = 0, stranded = 0\<rparr>"

definition foldHarvestOutcome ::
    "RedskilledHarvestTally option \<Rightarrow> RedskilledWorkerBirthOutcome \<Rightarrow> RedskilledHarvestTally" where
  "foldHarvestOutcome tally out =
     (let h = (case tally of None \<Rightarrow> EMPTY_HARVEST_TALLY | Some t \<Rightarrow> t) in
      case out of
        WorkReported \<Rightarrow> h\<lparr>harvested := Suc (harvested h)\<rparr>
      | Unreported \<Rightarrow> h\<lparr>stranded := Suc (stranded h)\<rparr>
      | NoEligibleWork \<Rightarrow> h)"

definition foldProjectHarvest ::
    "(string \<rightharpoonup> RedskilledHarvestTally) \<Rightarrow> string \<Rightarrow> RedskilledWorkerBirthOutcome \<Rightarrow>
     (string \<rightharpoonup> RedskilledHarvestTally)" where
  "foldProjectHarvest tallies label out = tallies(label \<mapsto> foldHarvestOutcome (tallies label) out)"

record RedskilledHarvestReport =
  r_state :: RedskilledHarvestState
  r_budget_ms :: "rat option"
  r_fraction :: "rat option"
  r_harvest_at :: "string option"
  r_deadline_at :: "string option"
  r_harvested :: nat
  r_stranded :: int
  r_detail :: string

definition harvestReport ::
    "(rat \<Rightarrow> string) \<Rightarrow> (rat \<Rightarrow> string) \<Rightarrow> (string \<Rightarrow> int option) \<Rightarrow> checked_harvest option \<Rightarrow> string option \<Rightarrow>
     RedskilledHarvestTally option \<Rightarrow> int \<Rightarrow> int option \<Rightarrow> string \<Rightarrow> RedskilledHarvestReport" where
  "harvestReport toISO showNum dateParse declaration registeredAt tally live queueDepth observedAt =
     (let watch = (case declaration of None \<Rightarrow> None | Some d \<Rightarrow> harvestWatchOf dateParse d registeredAt);
          decision = decideHarvest toISO showNum watch (dateParse observedAt);
          t = (case tally of None \<Rightarrow> EMPTY_HARVEST_TALLY | Some t \<Rightarrow> t);
          leftBehind = (if h_state decision = Harvesting
                        then max 0 live + max 0 (case queueDepth of None \<Rightarrow> 0 | Some d \<Rightarrow> d) else 0) in
      \<lparr>r_state = h_state decision, r_budget_ms = budgetMs decision, r_fraction = fraction decision,
       r_harvest_at = map_option toISO (harvestAtMs decision), r_deadline_at = map_option toISO (deadlineAtMs decision),
       r_harvested = harvested t, r_stranded = int (stranded t) + leftBehind, r_detail = h_detail decision\<rparr>)"

section \<open>The birth breaker\<close>

definition REDSKILLED_SHORT_LIFE_MS :: int where
  "REDSKILLED_SHORT_LIFE_MS = 60000"

definition REDSKILLED_SHORT_LIFE_STREAK :: nat where
  "REDSKILLED_SHORT_LIFE_STREAK = 3"

definition REDSKILLED_BIRTH_HALT_MS :: int where
  "REDSKILLED_BIRTH_HALT_MS = 600000"

text \<open>
  The terminal sentinel of a Worker's log tail: the first text of the form
  \<open><promise> WORD </promise>\<close>, the tag and the word in any case and white space around the
  word, whose word is one of the three of the protocol.
\<close>

definition promise_word :: "string \<Rightarrow> string option" where
  "promise_word t =
     (let body = dropWhile is_ws (drop 9 t);
          hit = (\<lambda>w. starts_with w (to_lower body) \<and>
                     starts_with ''</promise>'' (dropWhile is_ws (drop (length w) (to_lower body)))) in
      if \<not> starts_with ''<promise>'' (to_lower t) then None
      else if hit ''done'' then Some ''done''
      else if hit ''blocked'' then Some ''blocked''
      else if hit ''no more tasks'' then Some ''no more tasks''
      else None)"

fun promise_sentinel :: "string \<Rightarrow> string option" where
  "promise_sentinel [] = None"
| "promise_sentinel (c # cs) =
     (case promise_word (c # cs) of Some w \<Rightarrow> Some w | None \<Rightarrow> promise_sentinel cs)"

definition workerTerminalOutcome ::
    "int option \<Rightarrow> string option \<Rightarrow> string option \<Rightarrow> bool \<Rightarrow> RedskilledWorkerBirthOutcome" where
  "workerTerminalOutcome exitCode signal tail oneShot =
     (if exitCode \<noteq> Some 0 \<or> signal \<noteq> None then Unreported
      else if oneShot then WorkReported
      else (case (case tail of None \<Rightarrow> None | Some t \<Rightarrow> promise_sentinel t) of
              None \<Rightarrow> Unreported
            | Some w \<Rightarrow> if w = ''no more tasks'' then NoEligibleWork else WorkReported))"

record RedskilledBirthHealth =
  shortLifeStreak :: nat
  haltUntilMs :: "int option"
  openedAtMs :: "int option"
  probeWorkerId :: "string option"
  lossOutcome :: "RedskilledWorkerBirthOutcome option"

definition EMPTY_BIRTH_HEALTH :: RedskilledBirthHealth where
  "EMPTY_BIRTH_HEALTH =
     \<lparr>shortLifeStreak = 0, haltUntilMs = None, openedAtMs = None, probeWorkerId = None, lossOutcome = None\<rparr>"

definition foldWorkerDeath ::
    "RedskilledBirthHealth \<Rightarrow> int \<Rightarrow> int \<Rightarrow> RedskilledWorkerBirthOutcome \<Rightarrow> RedskilledBirthHealth" where
  "foldWorkerDeath health lifetimeMs nowMs out =
     (if out \<noteq> Unreported then EMPTY_BIRTH_HEALTH
      else if REDSKILLED_SHORT_LIFE_MS \<le> lifetimeMs then EMPTY_BIRTH_HEALTH
      else (let streak = Suc (shortLifeStreak health);
                wasLatched = (haltUntilMs health \<noteq> None \<or> probeWorkerId health \<noteq> None) in
            if \<not> wasLatched \<and> streak < REDSKILLED_SHORT_LIFE_STREAK
            then \<lparr>shortLifeStreak = streak, haltUntilMs = None, openedAtMs = None, probeWorkerId = None,
                  lossOutcome = Some out\<rparr>
            else \<lparr>shortLifeStreak = streak, haltUntilMs = Some (nowMs + REDSKILLED_BIRTH_HALT_MS),
                  openedAtMs = Some nowMs, probeWorkerId = None, lossOutcome = Some out\<rparr>))"

text \<open>The fold the daemon runs: a lifetime that is no number or negative counts as long.\<close>

definition foldProjectBirthHealth ::
    "(string \<rightharpoonup> RedskilledBirthHealth) \<Rightarrow> string \<Rightarrow> int option \<Rightarrow> RedskilledWorkerBirthOutcome \<Rightarrow> int \<Rightarrow>
     (string \<rightharpoonup> RedskilledBirthHealth)" where
  "foldProjectBirthHealth health label lifetimeMs out nowMs =
     (case lifetimeMs of
        None \<Rightarrow> health(label \<mapsto> EMPTY_BIRTH_HEALTH)
      | Some l \<Rightarrow>
          if l < 0 then health(label \<mapsto> EMPTY_BIRTH_HEALTH)
          else health(label \<mapsto> foldWorkerDeath
                 (case health label of None \<Rightarrow> EMPTY_BIRTH_HEALTH | Some h \<Rightarrow> h) l nowMs out))"

definition beginBirthProbe :: "RedskilledBirthHealth \<Rightarrow> string \<Rightarrow> RedskilledBirthHealth" where
  "beginBirthProbe health workerId =
     (if haltUntilMs health = None then health else health\<lparr>probeWorkerId := Some workerId\<rparr>)"

definition resetBirthHealth :: RedskilledBirthHealth where
  "resetBirthHealth = EMPTY_BIRTH_HEALTH"

definition describeBirthOutcome :: "RedskilledWorkerBirthOutcome \<Rightarrow> string" where
  "describeBirthOutcome out =
     (case out of
        NoEligibleWork \<Rightarrow> ''exited cleanly reporting no eligible work''
      | WorkReported \<Rightarrow> ''exited cleanly reporting a terminal outcome on its work''
      | Unreported \<Rightarrow> ''died before reporting any terminal outcome'')"

definition outcome_text :: "RedskilledWorkerBirthOutcome \<Rightarrow> string" where
  "outcome_text out =
     (case out of NoEligibleWork \<Rightarrow> ''no-eligible-work'' | WorkReported \<Rightarrow> ''work-reported'' | Unreported \<Rightarrow> ''unreported'')"

definition lossPhrase :: "RedskilledWorkerBirthOutcome option \<Rightarrow> string" where
  "lossPhrase out =
     (case out of
        None \<Rightarrow> ''outcome class unstated by the caller''
      | Some x \<Rightarrow> ''outcome class '' @ json_quote (outcome_text x) @ '': '' @ describeBirthOutcome x)"

datatype latch_state = OpenLatch | HalfOpen

record RedskilledBirthLatch =
  l_project :: string
  l_state :: latch_state
  opened_at :: string
  l_reason :: string
  closes :: string
  probe_worker_id :: "string option"

definition describeBirthLatch ::
    "(rat \<Rightarrow> string) \<Rightarrow> string \<Rightarrow> RedskilledBirthHealth \<Rightarrow> int \<Rightarrow> RedskilledBirthLatch option" where
  "describeBirthLatch toISO label health nowMs =
     (case (haltUntilMs health, openedAtMs health) of
        (Some halt, Some opened) \<Rightarrow>
          Some
            \<lparr>l_project = label, l_state = (if halt \<le> nowMs then HalfOpen else OpenLatch),
             opened_at = toISO (of_int opened),
             l_reason = show_nat (shortLifeStreak health) @ '' Workers from this project died before surviving '' @
                show_int REDSKILLED_SHORT_LIFE_MS @ ''ms ('' @ lossPhrase (lossOutcome health) @ '')'',
             closes =
               (if halt \<le> nowMs
                then (case probeWorkerId health of
                        None \<Rightarrow> ''the next demand tick admits one probe Worker; surviving the short-life window closes the latch''
                      | Some w \<Rightarrow> ''probe Worker '' @ json_quote w @ '' surviving '' @ show_int REDSKILLED_SHORT_LIFE_MS @
                          ''ms closes the latch; a fast death re-opens it with a fresh cooldown'')
                else ''the cooldown ends at '' @ toISO (of_int halt) @
                     '', then one probe Worker is admitted; surviving the short-life window closes the latch''),
             probe_worker_id = probeWorkerId health\<rparr>
      | _ \<Rightarrow> None)"

text \<open>The records of a \<open>Record\<close> in its order, as a list of entries.\<close>

definition describeBirthLatches ::
    "(string \<Rightarrow> string) \<Rightarrow> (rat \<Rightarrow> string) \<Rightarrow> (string \<times> RedskilledBirthHealth) list \<Rightarrow> int \<Rightarrow> RedskilledBirthLatch list" where
  "describeBirthLatches collate toISO health nowMs =
     List.map_filter (\<lambda>(label, h). describeBirthLatch toISO label h nowMs) (sort_key (\<lambda>(label, _). collate label) health)"

definition birthHaltMap :: "(string \<rightharpoonup> RedskilledBirthHealth) \<Rightarrow> int \<Rightarrow> (string \<rightharpoonup> int)" where
  "birthHaltMap health nowMs =
     (\<lambda>label. case health label of
        None \<Rightarrow> None
      | Some h \<Rightarrow> (case haltUntilMs h of None \<Rightarrow> None | Some t \<Rightarrow> if nowMs < t then Some t else None))"

section \<open>The planner\<close>

record RedskilledDemandProject =
  project_label :: string
  selector :: string
  p_argv :: "string list"
  p_workspace_path :: string
  p_target :: int
  items :: "string list option"
  harvest :: "RedskilledHarvestWatch option"

datatype RedskilledDemandOutcome =
    Asking
  | AtTarget
  | QueueDrained
  | QueueUnknown
  | BackingOff
  | BirthHalted
  | HalfOpenProbe
  | HarvestDeadline

record RedskilledDemandIntent =
  i_label :: string
  i_outcome :: RedskilledDemandOutcome
  i_queue_depth :: "int option"
  i_target :: int
  i_live :: int
  wanted :: int
  i_detail :: string

record RedskilledDemandBirth =
  b_label :: string
  b_index :: int
  b_argv :: "string list"
  b_workspace_path :: string
  work_item :: "string option"

text \<open>
  What one tick reads. In \<open>in_queue\<close> no entry is a project no poll has counted, and an entry
  \<open>None\<close> a poll that produced no depth.
\<close>

record PlanHostDemandInput =
  in_projects :: "RedskilledDemandProject list"
  in_queue :: "string \<rightharpoonup> int option"
  in_live :: "string \<rightharpoonup> int"
  in_nowMs :: int
  backoffUntilMs :: "int option"
  birthHaltUntilMs :: "string \<rightharpoonup> int"
  birthHealth :: "string \<rightharpoonup> RedskilledBirthHealth"

definition live_of :: "PlanHostDemandInput \<Rightarrow> RedskilledDemandProject \<Rightarrow> int" where
  "live_of inp p = max 0 (case in_live inp (project_label p) of None \<Rightarrow> 0 | Some n \<Rightarrow> n)"

definition depth_of :: "PlanHostDemandInput \<Rightarrow> RedskilledDemandProject \<Rightarrow> int option" where
  "depth_of inp p = (case in_queue inp (project_label p) of None \<Rightarrow> None | Some d \<Rightarrow> d)"

definition halt_of :: "PlanHostDemandInput \<Rightarrow> RedskilledDemandProject \<Rightarrow> int option" where
  "halt_of inp p =
     (case birthHealth inp (project_label p) of
        None \<Rightarrow> birthHaltUntilMs inp (project_label p)
      | Some h \<Rightarrow> (case haltUntilMs h of None \<Rightarrow> birthHaltUntilMs inp (project_label p) | Some t \<Rightarrow> Some t))"

definition probe_of :: "PlanHostDemandInput \<Rightarrow> RedskilledDemandProject \<Rightarrow> string option" where
  "probe_of inp p = (case birthHealth inp (project_label p) of None \<Rightarrow> None | Some h \<Rightarrow> probeWorkerId h)"

definition half_open :: "PlanHostDemandInput \<Rightarrow> RedskilledDemandProject \<Rightarrow> bool" where
  "half_open inp p =
     (case birthHealth inp (project_label p) of
        None \<Rightarrow> False
      | Some h \<Rightarrow> (case haltUntilMs h of None \<Rightarrow> False | Some t \<Rightarrow> t \<le> in_nowMs inp))"

definition quoted :: "RedskilledDemandProject \<Rightarrow> string" where
  "quoted p = json_quote (project_label p)"

text \<open>The sentence of each outcome.\<close>

definition halted_detail :: "(rat \<Rightarrow> string) \<Rightarrow> PlanHostDemandInput \<Rightarrow> RedskilledDemandProject \<Rightarrow> int \<Rightarrow> string" where
  "halted_detail toISO inp p t =
     ''project '' @ quoted p @ '' lost '' @ show_nat REDSKILLED_SHORT_LIFE_STREAK @ '' Workers in a row inside '' @
     show_int REDSKILLED_SHORT_LIFE_MS @ ''ms of birth (each '' @
     lossPhrase (case birthHealth inp (project_label p) of None \<Rightarrow> None | Some h \<Rightarrow> lossOutcome h) @
     ''), so it is not asked for another before '' @ toISO (of_int t) @ '' '' @ em_dash @
     '' a Worker that cannot survive boot will not survive the next one either, and every birth spends host quota shared with every project''"

definition probe_detail :: "RedskilledDemandProject \<Rightarrow> string \<Rightarrow> string" where
  "probe_detail p w =
     ''project '' @ quoted p @ '' is half-open and probe Worker '' @ json_quote w @ '' has not yet survived '' @
     show_int REDSKILLED_SHORT_LIFE_MS @ ''ms, so no second birth is admitted''"

definition unknown_detail :: "PlanHostDemandInput \<Rightarrow> RedskilledDemandProject \<Rightarrow> string" where
  "unknown_detail inp p =
     (if in_queue inp (project_label p) \<noteq> None
      then ''the last poll produced no depth for project '' @ quoted p @ '', and an absent depth is not a drained queue''
      else ''no poll has counted project '' @ quoted p @
           '' yet, so it is not asked for a Worker on a depth nobody measured'')"

definition holds_detail :: "PlanHostDemandInput \<Rightarrow> RedskilledDemandProject \<Rightarrow> int \<Rightarrow> string" where
  "holds_detail inp p d =
     ''project '' @ quoted p @ '' holds '' @ show_int (live_of inp p) @ '' Worker(s) against a target of '' @
     show_int (p_target p) @ '' and a queue of '' @ show_int d @ '', so it asks for ''"

definition half_open_detail :: "RedskilledDemandProject \<Rightarrow> int \<Rightarrow> string" where
  "half_open_detail p n =
     ''project '' @ quoted p @ '' finished its birth-breaker cooldown, so exactly one probe Worker is admitted before the remaining '' @
     show_int (max 0 (n - 1)) @ '' birth(s)''"

definition holding :: "PlanHostDemandInput \<Rightarrow> bool" where
  "holding inp = (case backoffUntilMs inp of None \<Rightarrow> False | Some t \<Rightarrow> in_nowMs inp < t)"

definition halted :: "PlanHostDemandInput \<Rightarrow> RedskilledDemandProject \<Rightarrow> bool" where
  "halted inp p = (case halt_of inp p of None \<Rightarrow> False | Some t \<Rightarrow> in_nowMs inp < t)"

definition room :: "PlanHostDemandInput \<Rightarrow> RedskilledDemandProject \<Rightarrow> int \<Rightarrow> int" where
  "room inp p d = max 0 (min (max 0 (p_target p - live_of inp p)) d)"

definition intent_of ::
    "(rat \<Rightarrow> string) \<Rightarrow> (rat \<Rightarrow> string) \<Rightarrow> PlanHostDemandInput \<Rightarrow> RedskilledDemandProject \<Rightarrow> RedskilledDemandIntent" where
  "intent_of toISO showNum inp p =
     (let base = (\<lambda>out n why. \<lparr>i_label = project_label p, i_outcome = out, i_queue_depth = depth_of inp p,
                    i_target = p_target p, i_live = live_of inp p, wanted = n, i_detail = why\<rparr>);
          deadline = decideHarvest toISO showNum (harvest p) (Some (in_nowMs inp)) in
      if \<not> admits deadline then base HarvestDeadline 0 (h_detail deadline)
      else if holding inp
      then base BackingOff 0 (''the host refused a Worker, so no project is asked for one again before '' @
             toISO (of_int (the (backoffUntilMs inp))))
      else if halted inp p then base BirthHalted 0 (halted_detail toISO inp p (the (halt_of inp p)))
      else (case probe_of inp p of
              Some w \<Rightarrow> base HalfOpenProbe 0 (probe_detail p w)
            | None \<Rightarrow>
                (case depth_of inp p of
                   None \<Rightarrow> base QueueUnknown 0 (unknown_detail inp p)
                 | Some d \<Rightarrow>
                     if d = 0
                     then base QueueDrained 0 (''project '' @ quoted p @ '' has nothing queued, so it is asked for no Worker'')
                     else (let n = room inp p d in
                           if n = 0 then base AtTarget 0 (holds_detail inp p d @ ''none'')
                           else if half_open inp p then base HalfOpenProbe 1 (half_open_detail p n)
                           else base Asking n (holds_detail inp p d @ show_int n @ '' more'')))))"

text \<open>The births of one project: one per round, each with the item at its place after the live ones.\<close>

definition birth_of :: "PlanHostDemandInput \<Rightarrow> RedskilledDemandProject \<Rightarrow> nat \<Rightarrow> RedskilledDemandBirth" where
  "birth_of inp p i =
     (let available = drop (nat (live_of inp p)) (case items p of None \<Rightarrow> [] | Some xs \<Rightarrow> xs) in
      \<lparr>b_label = project_label p, b_index = live_of inp p + int i, b_argv = p_argv p,
       b_workspace_path = p_workspace_path p,
       work_item = (if i < length available then Some (available ! i) else None)\<rparr>)"

text \<open>\<open>rounds[index]\<close>, created empty when absent, takes one more birth.\<close>

fun push_round :: "nat \<Rightarrow> 'b \<Rightarrow> 'b list list \<Rightarrow> 'b list list" where
  "push_round 0 b [] = [[b]]"
| "push_round 0 b (r # rs) = (r @ [b]) # rs"
| "push_round (Suc i) b [] = [] # push_round i b []"
| "push_round (Suc i) b (r # rs) = r # push_round i b rs"

definition add_births ::
    "(rat \<Rightarrow> string) \<Rightarrow> (rat \<Rightarrow> string) \<Rightarrow> PlanHostDemandInput \<Rightarrow> RedskilledDemandProject \<Rightarrow>
     RedskilledDemandBirth list list \<Rightarrow> RedskilledDemandBirth list list" where
  "add_births toISO showNum inp p rounds =
     foldl (\<lambda>rs i. push_round i (birth_of inp p i) rs) rounds [0..<nat (wanted (intent_of toISO showNum inp p))]"

definition planHostDemand ::
    "(string \<Rightarrow> string) \<Rightarrow> (rat \<Rightarrow> string) \<Rightarrow> (rat \<Rightarrow> string) \<Rightarrow> PlanHostDemandInput \<Rightarrow>
     RedskilledDemandIntent list \<times> RedskilledDemandBirth list" where
  "planHostDemand collate toISO showNum inp =
     (let projects = sort_key (\<lambda>p. collate (project_label p)) (in_projects inp) in
      (map (intent_of toISO showNum inp) projects,
       concat (foldl (\<lambda>rs p. add_births toISO showNum inp p rs) [] projects)))"

section \<open>Lemmas on rounds\<close>

text \<open>Round \<open>i\<close> after all projects were added: the births of index \<open>i\<close>, in project order.\<close>

definition nth_round :: "'b list list \<Rightarrow> nat \<Rightarrow> 'b list" where
  "nth_round rs i = (if i < length rs then rs ! i else [])"

lemma nth_round_Nil [simp]: "nth_round [] i = []"
  by (simp add: nth_round_def)

lemma nth_round_Cons [simp]: "nth_round (r # rs) 0 = r" "nth_round (r # rs) (Suc i) = nth_round rs i"
  by (simp_all add: nth_round_def)

lemma nth_round_push [simp]: "nth_round (push_round j b rs) i = nth_round rs i @ (if i = j then [b] else [])"
proof (induction j b rs arbitrary: i rule: push_round.induct)
  case (3 j b) then show ?case by (cases i) simp_all
next
  case (4 j b r rs) then show ?case by (cases i) simp_all
qed (case_tac i; simp)+

lemma length_push [simp]: "length (push_round j b rs) = max (Suc j) (length rs)"
  by (induction j b rs rule: push_round.induct) auto

lemma nth_round_pushes:
  "nth_round (foldl (\<lambda>rs i. push_round i (f i) rs) rs [0..<n]) i = nth_round rs i @ (if i < n then [f i] else [])"
  by (induction n) (auto simp: less_Suc_eq)

lemma length_pushes: "length (foldl (\<lambda>rs i. push_round i (f i) rs) rs [0..<n]) = max n (length rs)"
  by (induction n) auto

lemma concat_rounds: "length rs \<le> m \<Longrightarrow> concat rs = concat (map (nth_round rs) [0..<m])"
proof (induction rs arbitrary: m)
  case Nil
  then show ?case by (simp add: concat_eq_Nil_conv)
next
  case (Cons r rs)
  then obtain k where m: "m = Suc k" "length rs \<le> k" by (cases m) auto
  have "map (nth_round (r # rs)) [0..<Suc k] = r # map (nth_round rs) [0..<k]"
    by (simp add: upt_conv_Cons map_Suc_upt[symmetric] del: upt_Suc)
  then show ?case using Cons.IH[OF m(2)] by (simp add: m(1) del: upt_Suc)
qed

section \<open>Lemmas on the planner\<close>

text \<open>What a project is due, in one closed form: the specification of the planner.\<close>

definition births_due :: "PlanHostDemandInput \<Rightarrow> RedskilledDemandProject \<Rightarrow> nat" where
  "births_due inp p =
     (if \<not> admits (decideHarvest (\<lambda>_. []) (\<lambda>_. []) (harvest p) (Some (in_nowMs inp)))
         \<or> holding inp \<or> halted inp p \<or> probe_of inp p \<noteq> None
      then 0
      else case depth_of inp p of
             None \<Rightarrow> 0
           | Some d \<Rightarrow> (let n = nat (min (p_target p - live_of inp p) d) in if half_open inp p then min 1 n else n))"

lemma admits_texts: "admits (decideHarvest toISO showNum w now) = admits (decideHarvest (\<lambda>_. []) (\<lambda>_. []) w now)"
  by (simp add: decideHarvest_def Let_def split: option.splits)

lemma wanted_due: "nat (wanted (intent_of toISO showNum inp p)) = births_due inp p"
  by (auto simp: intent_of_def births_due_def Let_def admits_texts[of toISO showNum] room_def split: option.splits)

lemma wanted_nonneg: "0 \<le> wanted (intent_of toISO showNum inp p)"
  by (simp add: intent_of_def Let_def room_def split: option.splits)

lemma rounds_nth:
  "nth_round (foldl (\<lambda>rs p. add_births toISO showNum inp p rs) rs ps) i =
     nth_round rs i @ map (\<lambda>p. birth_of inp p i) (filter (\<lambda>p. i < births_due inp p) ps)"
  by (induction ps arbitrary: rs) (simp_all add: add_births_def nth_round_pushes wanted_due)

lemma rounds_length:
  "\<forall>p \<in> set ps. births_due inp p \<le> m \<Longrightarrow> length rs \<le> m \<Longrightarrow>
     length (foldl (\<lambda>rs p. add_births toISO showNum inp p rs) rs ps) \<le> m"
  by (induction ps arbitrary: rs) (simp_all add: add_births_def length_pushes wanted_due)

lemma label_of_birth [simp]: "b_label (birth_of inp p i) = project_label p"
  by (simp add: birth_of_def Let_def)

lemma concat_upt_if: "concat (map (\<lambda>i. if i < n then [f i] else []) [0..<m]) = map f [0..<min n m]"
proof (induction m)
  case (Suc m)
  consider "n \<le> m" | "n = Suc m" | "Suc m < n" by linarith
  then show ?case using Suc by cases (simp_all add: min_def)
qed simp

text \<open>One project alone, out of a list of projects with distinct labels.\<close>

lemma filter_one_label:
  assumes "distinct (map project_label ps)" and "p \<in> set ps"
  shows "filter (\<lambda>b. b_label b = project_label p) (map (\<lambda>q. birth_of inp q i) (filter P ps)) =
     (if P p then [birth_of inp p i] else [])"
proof -
  have one: "filter (\<lambda>q. project_label q = project_label p) ps = [p]"
    using assms by (induction ps) (auto simp: filter_empty_conv rev_image_eqI)
  have "filter (\<lambda>b. b_label b = project_label p) (map (\<lambda>q. birth_of inp q i) (filter P ps)) =
      map (\<lambda>q. birth_of inp q i) (filter P (filter (\<lambda>q. project_label q = project_label p) ps))"
    by (simp add: filter_map o_def conj_commute)
  then show ?thesis by (simp add: one)
qed

definition births_for ::
    "(string \<Rightarrow> string) \<Rightarrow> (rat \<Rightarrow> string) \<Rightarrow> (rat \<Rightarrow> string) \<Rightarrow> PlanHostDemandInput \<Rightarrow> RedskilledDemandProject \<Rightarrow>
     RedskilledDemandBirth list" where
  "births_for collate toISO showNum inp p =
     filter (\<lambda>b. b_label b = project_label p) (snd (planHostDemand collate toISO showNum inp))"

definition births_bound :: "PlanHostDemandInput \<Rightarrow> nat" where
  "births_bound inp = Max (insert 0 (births_due inp ` set (in_projects inp)))"

lemma births_bound: "p \<in> set (in_projects inp) \<Longrightarrow> births_due inp p \<le> births_bound inp"
  by (simp add: births_bound_def)

lemma births_by_rounds:
  assumes "\<forall>p \<in> set (in_projects inp). births_due inp p \<le> m"
  shows "snd (planHostDemand collate toISO showNum inp) =
     concat (map (\<lambda>i. map (\<lambda>p. birth_of inp p i)
       (filter (\<lambda>p. i < births_due inp p) (sort_key (\<lambda>p. collate (project_label p)) (in_projects inp)))) [0..<m])"
proof -
  let ?ps = "sort_key (\<lambda>p. collate (project_label p)) (in_projects inp)"
  have "length (foldl (\<lambda>rs p. add_births toISO showNum inp p rs) [] ?ps) \<le> m"
    using rounds_length[of ?ps inp m "[]"] assms by simp
  moreover have "nth_round (foldl (\<lambda>rs p. add_births toISO showNum inp p rs) [] ?ps) =
      (\<lambda>i. map (\<lambda>p. birth_of inp p i) (filter (\<lambda>p. i < births_due inp p) ?ps))"
    by (rule ext) (simp add: rounds_nth)
  ultimately show ?thesis by (simp add: planHostDemand_def Let_def concat_rounds)
qed

lemma births_of_project:
  assumes "distinct (map project_label (in_projects inp))" and "p \<in> set (in_projects inp)"
  shows "births_for collate toISO showNum inp p = map (birth_of inp p) [0..<births_due inp p]"
proof -
  let ?ps = "sort_key (\<lambda>p. collate (project_label p)) (in_projects inp)"
  let ?m = "births_bound inp"
  have d: "distinct (map project_label ?ps)"
    using assms(1) by (simp add: distinct_map)
  have m: "min (births_due inp p) ?m = births_due inp p" using births_bound[OF assms(2)] by simp
  have "births_for collate toISO showNum inp p =
      concat (map (\<lambda>i. if i < births_due inp p then [birth_of inp p i] else []) [0..<?m])"
    using births_bound assms(2)
    by (simp add: births_for_def births_by_rounds[of inp ?m] filter_concat filter_one_label[OF d] comp_def)
  then show ?thesis by (simp add: concat_upt_if m)
qed

lemma map_filter_take:
  "List.map_filter (\<lambda>i. if i < length xs then Some (xs ! i) else None) [0..<n] = take n xs"
  by (induction n) (auto simp: List.map_filter_def take_Suc_conv_app_nth)

section \<open>Lemmas on the breaker\<close>

text \<open>A death as the daemon folds it: its lifetime, what it reported and when.\<close>

type_synonym death = "int option \<times> RedskilledWorkerBirthOutcome \<times> int"

definition is_loss :: "death \<Rightarrow> bool" where
  "is_loss d = (case d of (Some l, Unreported, _) \<Rightarrow> 0 \<le> l \<and> l < REDSKILLED_SHORT_LIFE_MS | _ \<Rightarrow> False)"

definition fold_death :: "string \<Rightarrow> death \<Rightarrow> (string \<rightharpoonup> RedskilledBirthHealth) \<Rightarrow> (string \<rightharpoonup> RedskilledBirthHealth)" where
  "fold_death label d health = (case d of (l, out, now) \<Rightarrow> foldProjectBirthHealth health label l out now)"

text \<open>The specification: the length of the run of losses that ends now, and when it last grew.\<close>

definition trailing_losses :: "death list \<Rightarrow> nat" where
  "trailing_losses ds = length (takeWhile is_loss (rev ds))"

definition health_after :: "death list \<Rightarrow> RedskilledBirthHealth" where
  "health_after ds =
     (let n = trailing_losses ds; now = snd (snd (last ds)) in
      \<lparr>shortLifeStreak = n,
       haltUntilMs = (if 3 \<le> n then Some (now + 600000) else None),
       openedAtMs = (if 3 \<le> n then Some now else None),
       probeWorkerId = None,
       lossOutcome = (if n = 0 then None else Some Unreported)\<rparr>)"

lemma trailing_snoc: "trailing_losses (ds @ [d]) = (if is_loss d then Suc (trailing_losses ds) else 0)"
  by (simp add: trailing_losses_def)

lemma health_after_Nil: "health_after [] = EMPTY_BIRTH_HEALTH"
  by (simp add: health_after_def trailing_losses_def EMPTY_BIRTH_HEALTH_def)

lemma fold_death_other [simp]: "l \<noteq> label \<Longrightarrow> fold_death label d m l = m l"
  by (simp add: fold_death_def foldProjectBirthHealth_def split: prod.splits option.splits)

lemma fold_death_spec:
  assumes "(case m label of None \<Rightarrow> EMPTY_BIRTH_HEALTH | Some h \<Rightarrow> h) = health_after ds"
  shows "fold_death label d m label = Some (health_after (ds @ [d]))"
proof -
  obtain l out now where d: "d = (l, out, now)" by (cases d)
  show ?thesis
    using assms
    by (cases l; cases out)
       (simp_all add: d fold_death_def foldProjectBirthHealth_def foldWorkerDeath_def health_after_def trailing_snoc
         is_loss_def EMPTY_BIRTH_HEALTH_def REDSKILLED_SHORT_LIFE_MS_def REDSKILLED_SHORT_LIFE_STREAK_def
         REDSKILLED_BIRTH_HALT_MS_def Let_def)
qed

text \<open>The deaths of every project, in the order the daemon folds them, and those of one.\<close>

definition fold_deaths :: "(string \<times> death) list \<Rightarrow> (string \<rightharpoonup> RedskilledBirthHealth)" where
  "fold_deaths es = fold (\<lambda>(label, d). fold_death label d) es Map.empty"

definition own_deaths :: "string \<Rightarrow> (string \<times> death) list \<Rightarrow> death list" where
  "own_deaths label es = map snd (filter (\<lambda>e. fst e = label) es)"

lemma fold_deaths_spec:
  "fold_deaths es label = (if own_deaths label es = [] then None else Some (health_after (own_deaths label es)))"
proof (induction es rule: rev_induct)
  case Nil
  then show ?case by (simp add: fold_deaths_def own_deaths_def)
next
  case (snoc e es)
  obtain l d where e: "e = (l, d)" by (cases e)
  have step: "fold_deaths (es @ [e]) = fold_death l d (fold_deaths es)" by (simp add: fold_deaths_def e)
  show ?case
  proof (cases "l = label")
    case True
    have "(case fold_deaths es label of None \<Rightarrow> EMPTY_BIRTH_HEALTH | Some h \<Rightarrow> h) = health_after (own_deaths label es)"
      using snoc by (simp add: health_after_Nil)
    from fold_death_spec[where m = "fold_deaths es" and ds = "own_deaths label es", OF this] show ?thesis
      by (simp add: step[unfolded e True] e True own_deaths_def)
  next
    case False
    then show ?thesis using snoc by (simp add: step[unfolded e] e own_deaths_def)
  qed
qed

text \<open>What may happen to the record of one project.\<close>

inductive breaker_step :: "RedskilledBirthHealth \<Rightarrow> RedskilledBirthHealth \<Rightarrow> bool" where
  death: "breaker_step h (foldWorkerDeath h lifetime now out)"
| probe: "breaker_step h (beginBirthProbe h w)"
| reset: "breaker_step h resetBirthHealth"

inductive_cases breaker_stepE: "breaker_step h h'"

definition latch_ok :: "RedskilledBirthHealth \<Rightarrow> bool" where
  "latch_ok h \<longleftrightarrow>
     haltUntilMs h = map_option (\<lambda>t. t + REDSKILLED_BIRTH_HALT_MS) (openedAtMs h) \<and>
     (probeWorkerId h \<noteq> None \<longrightarrow> haltUntilMs h \<noteq> None) \<and>
     (haltUntilMs h \<noteq> None \<longrightarrow> REDSKILLED_SHORT_LIFE_STREAK \<le> shortLifeStreak h \<and> lossOutcome h = Some Unreported)"

lemma latch_ok_step: "latch_ok h \<Longrightarrow> breaker_step h h' \<Longrightarrow> latch_ok h'"
  by (erule breaker_stepE)
     (auto simp: latch_ok_def foldWorkerDeath_def beginBirthProbe_def resetBirthHealth_def EMPTY_BIRTH_HEALTH_def Let_def)

lemma latch_ok_empty [simp]: "latch_ok EMPTY_BIRTH_HEALTH"
  by (simp add: latch_ok_def EMPTY_BIRTH_HEALTH_def)

interpretation breaker: stepwise_invariant "\<lambda>h. h = EMPTY_BIRTH_HEALTH" breaker_step latch_ok
  by unfold_locales (auto intro: latch_ok_step)

section \<open>Properties\<close>

text \<open>
  C8. The planner implements its specification, and shares the host fairly: the births of a tick
  are dealt in rounds, one apiece to every project still due one, in label order, before any
  project gets its next; and a project is due nothing past its harvest deadline, under the
  host's backoff, while its breaker is open or a probe lives, or on a depth nobody counted, and
  otherwise the smaller of its free slots and its queue, at most one when half-open.
\<close>

theorem births_dealt_in_rounds:
  assumes "\<forall>p \<in> set (in_projects inp). births_due inp p \<le> m"
  shows "snd (planHostDemand collate toISO showNum inp) =
     concat (map (\<lambda>i. map (\<lambda>p. birth_of inp p i)
       (filter (\<lambda>p. i < births_due inp p) (sort_key (\<lambda>p. collate (project_label p)) (in_projects inp)))) [0..<m])"
  using assms by (rule births_by_rounds)

text \<open>
  No project is over-born and no item is handed out twice: with distinct labels, a tick asks
  for a project at most as many Workers as it has free slots and queued items, and two of its
  births never carry the same item of a list without duplicates.
\<close>

theorem births_within_room:
  assumes "distinct (map project_label (in_projects inp))" and "p \<in> set (in_projects inp)"
    and "distinct (case items p of None \<Rightarrow> [] | Some xs \<Rightarrow> xs)"
    and "births_for collate toISO showNum inp p = bs"
  shows "(bs \<noteq> [] \<longrightarrow> int (length bs) + live_of inp p \<le> p_target p \<and>
           (\<exists>d. depth_of inp p = Some d \<and> int (length bs) \<le> d)) \<and>
         distinct (List.map_filter work_item bs)"
proof -
  let ?n = "births_due inp p"
  let ?av = "drop (nat (live_of inp p)) (case items p of None \<Rightarrow> [] | Some xs \<Rightarrow> xs)"
  have bs: "bs = map (birth_of inp p) [0..<?n]" using births_of_project[OF assms(1,2)] assms(4) by simp
  have item: "work_item (birth_of inp p i) = (if i < length ?av then Some (?av ! i) else None)" for i
    by (simp add: birth_of_def Let_def)
  have "List.map_filter work_item bs = List.map_filter (\<lambda>i. work_item (birth_of inp p i)) [0..<?n]"
    by (simp add: bs List.map_filter_def filter_map comp_def)
  also have "\<dots> = take ?n ?av" by (simp only: item map_filter_take)
  finally have dist: "distinct (List.map_filter work_item bs)"
    using assms(3) by simp
  have "?n \<noteq> 0 \<Longrightarrow> int ?n + live_of inp p \<le> p_target p \<and> (\<exists>d. depth_of inp p = Some d \<and> int ?n \<le> d)"
    by (auto simp: births_due_def Let_def min_def split: option.splits if_splits)
  then show ?thesis using dist by (simp add: bs)
qed

text \<open>
  C14. The breaker counts the run of losses that ends now: after any history of deaths, of any
  projects in any order, the record of a project is the specification's over its own deaths alone:
  its streak is the number of its last deaths in a row that were short and unreported, it is halted
  exactly from the third on, for ten minutes from the last, and one long life or one reported
  outcome clears it; a project without a death has no record.
\<close>

theorem breaker_counts_trailing_losses:
  "fold (\<lambda>(l, lifetime, out, now) health. foldProjectBirthHealth health l lifetime out now) es Map.empty label =
     (let own = map snd (filter (\<lambda>e. fst e = label) es) in
      if own = [] then None else Some (health_after own))"
proof -
  have "(\<lambda>(l, lifetime, out, now) health. foldProjectBirthHealth health l lifetime out now) = (\<lambda>(l, d). fold_death l d)"
    by (auto simp: fun_eq_iff fold_death_def)
  then show ?thesis using fold_deaths_spec[of es label] by (simp add: fold_deaths_def own_deaths_def Let_def)
qed

text \<open>
  C23. One probe at a time: a project whose breaker was opened is asked for no Worker before the
  halt ends and for at most one after; once that one is recorded as the probe, no tick asks for
  another, whatever the queue, the target and the clock say, until its record changes.
\<close>

theorem one_probe_at_a_time:
  assumes "distinct (map project_label (in_projects inp))" and "p \<in> set (in_projects inp)"
    and "birthHealth inp (project_label p) = Some h" and "haltUntilMs h = Some t"
    and "distinct (map project_label (in_projects later))" and "q \<in> set (in_projects later)"
    and "birthHealth later (project_label q) = Some (beginBirthProbe h w)"
  shows "length (births_for collate toISO showNum inp p) \<le> (if t \<le> in_nowMs inp then 1 else 0) \<and>
         births_for collate toISO showNum later q = []"
proof
  show "length (births_for collate toISO showNum inp p) \<le> (if t \<le> in_nowMs inp then 1 else 0)"
    using assms(3,4)
    by (auto simp: births_of_project[OF assms(1,2)] births_due_def halted_def halt_of_def half_open_def Let_def
        split: option.splits)
  show "births_for collate toISO showNum later q = []"
    using assms(4,7) by (simp add: births_of_project[OF assms(5,6)] births_due_def probe_of_def beginBirthProbe_def)
qed

text \<open>
  A breaker that refuses is visible: from a record that went through any deaths, probes and
  resets, whenever the planner halts the project or holds it half-open, the read surfaces
  describe a latch in that very state, with its loss named, and with the probe if one lives.
\<close>

theorem refusing_breaker_is_visible:
  assumes "breaker_step\<^sup>*\<^sup>* EMPTY_BIRTH_HEALTH h" and "birthHealth inp (project_label p) = Some h"
    and "birthHaltUntilMs inp (project_label p) = None"
    and "i_outcome (intent_of toISO showNum inp p) \<in> {BirthHalted, HalfOpenProbe}"
  shows "\<exists>l. describeBirthLatch toISO (project_label p) h (in_nowMs inp) = Some l \<and>
     lossOutcome h = Some Unreported \<and>
     (l_state l = OpenLatch \<longleftrightarrow> i_outcome (intent_of toISO showNum inp p) = BirthHalted) \<and>
     probe_worker_id l = probeWorkerId h"
proof -
  have ok: "latch_ok h" using breaker.reachable_inv[OF _ assms(1)] by simp
  obtain t where t: "haltUntilMs h = Some t"
    using ok assms(2,3,4)
    by (cases "haltUntilMs h")
       (auto simp: intent_of_def Let_def halted_def halt_of_def probe_of_def half_open_def latch_ok_def
        split: option.splits if_splits)
  then obtain u where u: "openedAtMs h = Some u" using ok by (cases "openedAtMs h") (auto simp: latch_ok_def)
  have open_iff: "t \<le> in_nowMs inp \<longleftrightarrow> i_outcome (intent_of toISO showNum inp p) \<noteq> BirthHalted"
    using assms(2,4) t
    by (auto simp: intent_of_def Let_def halted_def halt_of_def split: option.splits if_splits)
  show ?thesis
    using ok t u open_iff by (auto simp: describeBirthLatch_def latch_ok_def)
qed

text \<open>
  A declared budget stops the taking before it ends: an accepted declaration has a deadline
  strictly after the drain's start and no later than the end of its budget; before it the
  deadline refuses nothing, and from it on, for ever, the planner asks for no Worker.
\<close>

theorem harvest_stops_births:
  assumes "requireHarvestDeclaration d label = Inr c" and "budget_ms c = Some b" and "dateParse reg = Some t"
    and "distinct (map project_label (in_projects inp))" and "p \<in> set (in_projects inp)"
    and "harvest p = harvestWatchOf dateParse c (Some reg)"
  shows "\<exists>starts. of_int t < starts \<and> starts \<le> of_int t + b \<and>
     (admits (decideHarvest toISO showNum (harvest p) (Some (in_nowMs inp))) \<longleftrightarrow> of_int (in_nowMs inp) < starts) \<and>
     (starts \<le> of_int (in_nowMs inp) \<longrightarrow> births_for collate toISO showNum inp p = [])"
proof -
  let ?f = "case harvest_fraction c of None \<Rightarrow> REDSKILLED_DEFAULT_HARVEST_FRACTION | Some f \<Rightarrow> f"
  let ?s = "of_int t + b * ?f"
  have b: "0 < b" and f: "0 < ?f" "?f \<le> 1"
    using assms(1,2)
    by (auto simp: requireHarvestDeclaration_def REDSKILLED_DEFAULT_HARVEST_FRACTION_def
        split: option.splits jsnum.splits if_splits)
  have dec: "admits (decideHarvest x y (harvest p) (Some n)) \<longleftrightarrow> of_int n < ?s" for x y n
    using assms(2,3,6) by (simp add: harvestWatchOf_def decideHarvest_def Let_def not_le)
  have "births_for collate toISO showNum inp p = []" if "?s \<le> of_int (in_nowMs inp)"
    using that by (simp add: births_of_project[OF assms(4,5)] births_due_def dec)
  moreover have "b * ?f \<le> b" "0 < b * ?f" using b f by (simp_all add: mult_left_le)
  ultimately show ?thesis using dec by (intro exI[of _ ?s]) simp
qed

text \<open>
  The planner skips as many queued items as a project has live Workers, although the depth it
  asks on counts only what is still available: a project with no more items than live Workers is
  asked for Workers and every one of them is born without an item.
\<close>

theorem fresh_items_unassigned:
  assumes "distinct (map project_label (in_projects inp))" and "p \<in> set (in_projects inp)"
    and "items p = Some xs" and "int (length xs) \<le> live_of inp p"
  shows "length (births_for collate toISO showNum inp p) = births_due inp p \<and>
         (\<forall>b \<in> set (births_for collate toISO showNum inp p). work_item b = None)"
proof -
  have "length xs - nat (live_of inp p) = 0" using assms(4) by simp
  then show ?thesis by (auto simp: births_of_project[OF assms(1,2)] birth_of_def Let_def assms(3))
qed

section \<open>Witnesses\<close>

definition project_named :: "string \<Rightarrow> int \<Rightarrow> string list \<Rightarrow> RedskilledDemandProject" where
  "project_named l n xs =
     \<lparr>project_label = l, selector = ''ready'', p_argv = [''worker''], p_workspace_path = ''/w'', p_target = n,
      items = Some xs, harvest = None\<rparr>"

definition tick_of :: "RedskilledDemandProject list \<Rightarrow> (string \<rightharpoonup> int option) \<Rightarrow> (string \<rightharpoonup> int) \<Rightarrow> int \<Rightarrow>
    (string \<rightharpoonup> RedskilledBirthHealth) \<Rightarrow> PlanHostDemandInput" where
  "tick_of ps q lv now h =
     \<lparr>in_projects = ps, in_queue = q, in_live = lv, in_nowMs = now, backoffUntilMs = None,
      birthHaltUntilMs = Map.empty, birthHealth = h\<rparr>"

definition two_projects :: PlanHostDemandInput where
  "two_projects = tick_of [project_named ''b'' 2 [''x'', ''y''], project_named ''a'' 3 [''u'', ''v'']]
     [''a'' \<mapsto> Some 5, ''b'' \<mapsto> Some 2] [''a'' \<mapsto> 1] 0 Map.empty"

definition opened_breaker :: RedskilledBirthHealth where
  "opened_breaker = health_after [(Some 5, Unreported, 10), (Some 6, Unreported, 20), (Some 7, Unreported, 30)]"

definition halted_tick :: "int \<Rightarrow> RedskilledBirthHealth \<Rightarrow> PlanHostDemandInput" where
  "halted_tick now h = tick_of [project_named ''a'' 3 [''u'']] [''a'' \<mapsto> Some 5] Map.empty now [''a'' \<mapsto> h]"

theorem births_dealt_in_rounds_witness:
  "map (\<lambda>b. (b_label b, b_index b)) (snd (planHostDemand id (\<lambda>_. []) (\<lambda>_. []) two_projects)) =
     [(''a'', 1), (''b'', 0), (''a'', 2), (''b'', 1)]"
proof -
  have "\<forall>p \<in> set (in_projects two_projects). births_due two_projects p \<le> 2" by code_simp
  from births_dealt_in_rounds[OF this, of id "\<lambda>_. []" "\<lambda>_. []"] show ?thesis by (simp only:) code_simp
qed

theorem births_within_room_witness:
  "length (births_for id (\<lambda>_. []) (\<lambda>_. []) two_projects (project_named ''a'' 3 [''u'', ''v''])) = 2 \<and> 2 + 1 \<le> (3::int)"
proof -
  let ?p = "project_named ''a'' 3 [''u'', ''v'']"
  have d: "distinct (map project_label (in_projects two_projects))" "?p \<in> set (in_projects two_projects)"
    by code_simp (simp add: two_projects_def tick_of_def)
  have i: "distinct (case items ?p of None \<Rightarrow> [] | Some xs \<Rightarrow> xs)" by code_simp
  have n: "length (births_for id (\<lambda>_. []) (\<lambda>_. []) two_projects ?p) = 2" by code_simp
  have "live_of two_projects ?p = 1" "p_target ?p = 3" by code_simp+
  then show ?thesis using births_within_room[OF d i refl, of id "\<lambda>_. []" "\<lambda>_. []"] n by auto
qed

theorem one_probe_at_a_time_witness:
  "length (births_for id (\<lambda>_. []) (\<lambda>_. []) (halted_tick 700000 opened_breaker) (project_named ''a'' 3 [''u''])) = 1 \<and>
   births_for id (\<lambda>_. []) (\<lambda>_. []) (halted_tick 900000 (beginBirthProbe opened_breaker ''w9'')) (project_named ''a'' 3 [''u'']) = []"
proof -
  let ?p = "project_named ''a'' 3 [''u'']"
  let ?x = "halted_tick 700000 opened_breaker" and ?y = "halted_tick 900000 (beginBirthProbe opened_breaker ''w9'')"
  have d: "distinct (map project_label (in_projects (halted_tick n h)))" "?p \<in> set (in_projects (halted_tick n h))"
    "birthHealth (halted_tick n h) (project_label ?p) = Some h" "in_nowMs (halted_tick n h) = n" for n h
    by (simp_all add: halted_tick_def tick_of_def project_named_def)
  have t: "haltUntilMs opened_breaker = Some 600030" by code_simp
  have "length (births_for id (\<lambda>_. []) (\<lambda>_. []) ?x ?p) = 1" by code_simp
  moreover have "births_for id (\<lambda>_. []) (\<lambda>_. []) ?y ?p = []"
    by (rule one_probe_at_a_time[THEN conjunct2, of ?x ?p opened_breaker 600030 ?y ?p "''w9''"]) (simp_all add: d t)
  ultimately show ?thesis by simp
qed

theorem refusing_breaker_is_visible_witness:
  "\<exists>l. describeBirthLatch (\<lambda>_. []) ''a'' opened_breaker 100 = Some l \<and> l_state l = OpenLatch"
proof -
  let ?p = "project_named ''a'' 3 [''u'']"
  let ?d = "\<lambda>h n. foldWorkerDeath h 5 n Unreported"
  have "opened_breaker = ?d (?d (?d EMPTY_BIRTH_HEALTH 10) 20) 30" by code_simp
  then have r: "breaker_step\<^sup>*\<^sup>* EMPTY_BIRTH_HEALTH opened_breaker"
    by (metis breaker_step.death converse_rtranclp_into_rtranclp rtranclp.rtrancl_refl)
  have h: "birthHealth (halted_tick 100 opened_breaker) (project_label ?p) = Some opened_breaker"
    "birthHaltUntilMs (halted_tick 100 opened_breaker) (project_label ?p) = None"
    by (simp_all add: halted_tick_def tick_of_def project_named_def)
  have o: "i_outcome (intent_of (\<lambda>_. []) (\<lambda>_. []) (halted_tick 100 opened_breaker) ?p) = BirthHalted" by code_simp
  have "in_nowMs (halted_tick 100 opened_breaker) = 100" "project_label ?p = ''a''" by code_simp+
  then show ?thesis
    using refusing_breaker_is_visible[OF r h, of "\<lambda>_. []" "\<lambda>_. []"] o by auto
qed

definition nightly :: RedskilledDemandProject where
  "nightly = (project_named ''a'' 3 [])
     \<lparr>harvest := harvestWatchOf (\<lambda>_. Some 0) \<lparr>budget_ms = Some 100, harvest_fraction = None\<rparr> (Some ''t'')\<rparr>"

definition nightly_tick :: PlanHostDemandInput where
  "nightly_tick = tick_of [nightly] [''a'' \<mapsto> Some 5] Map.empty 70 Map.empty"

theorem harvest_stops_births_witness:
  "births_for id (\<lambda>_. []) (\<lambda>_. []) nightly_tick nightly = []"
proof -
  let ?c = "\<lparr>budget_ms = Some 100, harvest_fraction = None\<rparr>"
  have c: "requireHarvestDeclaration \<lparr>d_budget_ms = Some (Num 100), d_harvest_fraction = None\<rparr> ''a'' = Inr ?c"
    by (simp add: requireHarvestDeclaration_def)
  have d: "distinct (map project_label (in_projects nightly_tick))" "nightly \<in> set (in_projects nightly_tick)"
    by (simp_all add: nightly_tick_def tick_of_def)
  have h: "harvest nightly = harvestWatchOf (\<lambda>_. Some 0) ?c (Some ''t'')" by (simp add: nightly_def)
  have no: "\<not> admits (decideHarvest (\<lambda>_. []) (\<lambda>_. []) (harvest nightly) (Some (in_nowMs nightly_tick)))" by code_simp
  show ?thesis
    using harvest_stops_births[of _ _ ?c 100 "\<lambda>_. Some 0" "''t''" 0, OF c _ _ d h] no by fastforce
qed

theorem fresh_items_unassigned_witness:
  "map work_item (births_for id (\<lambda>_. []) (\<lambda>_. [])
     (tick_of [project_named ''a'' 2 [''x'']] [''a'' \<mapsto> Some 1] [''a'' \<mapsto> 1] 0 Map.empty) (project_named ''a'' 2 [''x''])) = [None]"
proof -
  let ?x = "tick_of [project_named ''a'' 2 [''x'']] [''a'' \<mapsto> Some 1] [''a'' \<mapsto> 1] 0 Map.empty"
  let ?p = "project_named ''a'' 2 [''x'']"
  have d: "distinct (map project_label (in_projects ?x))" "?p \<in> set (in_projects ?x)" "items ?p = Some [''x'']"
    by (simp_all add: tick_of_def project_named_def)
  have "int (length [''x'']) \<le> live_of ?x ?p" by code_simp
  from fresh_items_unassigned[OF d this, of id "\<lambda>_. []" "\<lambda>_. []"]
  have "length (births_for id (\<lambda>_. []) (\<lambda>_. []) ?x ?p) = births_due ?x ?p"
    "\<forall>b \<in> set (births_for id (\<lambda>_. []) (\<lambda>_. []) ?x ?p). work_item b = None" by auto
  moreover have "births_due ?x ?p = 1" by code_simp
  ultimately show ?thesis by (cases "births_for id (\<lambda>_. []) (\<lambda>_. []) ?x ?p") auto
qed

end
