(* ===== verification/Merge_Driver.thy ===== *)
theory Merge_Driver
  imports Prelude
begin

text \<open>
  The merge driver, \<open>packages/worker/src/engine/merge-driver.ts\<close>: the durable armed set, the
  assessment of one pull request and the pass that lands, updates, retries or gives up.

  The calls to the forge are parameters, functions of the pull request they name: a call that
  throws is an \<open>Inl\<close> (or a \<open>Some\<close>) with its message. The calls a pass makes are recorded in
  order beside its result. The proof kept in a record came off the disk and is untrusted. The TOON
  codec is a parameter of the store; the file is replaced by a rename, so that a write of the store
  is one step. Arming, releasing and a pass each read the store once and write it once, and other
  processes run in between.
\<close>

section \<open>Records\<close>

definition MERGE_DRIVER_MAX_ATTEMPTS :: int where
  "MERGE_DRIVER_MAX_ATTEMPTS = 25"

text \<open>The five statuses, and whatever other text a stored record holds.\<close>

datatype MergeDriverStatus = Armed | Merged | NeedsMedic | NeedsHuman | Released | OtherStatus string

definition status_of_text :: "string \<Rightarrow> MergeDriverStatus" where
  "status_of_text s =
     (if s = ''armed'' then Armed else if s = ''merged'' then Merged else if s = ''needs-medic'' then NeedsMedic
      else if s = ''needs-human'' then NeedsHuman else if s = ''released'' then Released else OtherStatus s)"

fun status_text :: "MergeDriverStatus \<Rightarrow> string" where
  "status_text Armed = ''armed''"
| "status_text Merged = ''merged''"
| "status_text NeedsMedic = ''needs-medic''"
| "status_text NeedsHuman = ''needs-human''"
| "status_text Released = ''released''"
| "status_text (OtherStatus s) = s"

record MergeDriverPrRecord =
  pr :: int
  status :: MergeDriverStatus
  armedAtEpoch :: int
  attempts :: int
  updatedAtEpoch :: int
  lastState :: "string option"
  pr_proof :: "jsval option"
  pr_note :: "string option"

type_synonym MergeDriverState = "(string \<times> MergeDriverPrRecord) list"

datatype pr_state = PrOpen | PrMerged | PrClosed

datatype checks_state = Green | Pending | Failing

record MergeDriverPrView =
  pv_state :: pr_state
  mergeStateStatus :: string
  mergeable :: "string option"
  checks :: checks_state
  unresolvedReviewThreads :: "jsnum option"
  isDraft :: "bool option"
  reviewDecision :: "string option"

datatype MergeDriverBlockerClass =
    NoBlocker | Conflict | Threads | Ci | Gate | Draft | Review | ClosedPr | UnknownBlocker

record MergeDriverProof =
  mergeability_state :: string
  mergeability_source :: string
  pf_unresolved :: int
  ci_state :: checks_state
  wasGreenRegression :: bool
  previousState :: "jsval option"
  gate_state :: string
  draft_isDraft :: bool
  review_decision :: string
  blocker_class :: MergeDriverBlockerClass
  blocker_summary :: string
  blocker_nextAction :: string

section \<open>Reading a stored state\<close>

definition to_upper :: "string \<Rightarrow> string" where
  "to_upper s = map (\<lambda>c. let n = (of_char c :: nat) in if 97 \<le> n \<and> n \<le> 122 then char_of (n - 32) else c) s"

definition upper :: "string option \<Rightarrow> string" where
  "upper v = to_upper (trim (case v of None \<Rightarrow> [] | Some s \<Rightarrow> s))"

definition thread_count :: "jsnum option \<Rightarrow> int" where
  "thread_count v = (case v of None \<Rightarrow> 0 | Some n \<Rightarrow> if isSafeInteger n \<and> 0 < int_of_num n then int_of_num n else 0)"

text \<open>\<open>typeof v === "object" && v !== null\<close>, and \<open>Object.entries\<close>.\<close>

fun is_object_like :: "jsval \<Rightarrow> bool" where
  "is_object_like (JObj _) = True"
| "is_object_like (JArr _) = True"
| "is_object_like _ = False"

fun entries_of :: "jsval \<Rightarrow> (string \<times> jsval) list" where
  "entries_of (JObj fs) = fs"
| "entries_of (JArr vs) = zip (map show_nat [0..<length vs]) vs"
| "entries_of _ = []"

definition safe_int_val :: "jsval \<Rightarrow> bool" where
  "safe_int_val v \<longleftrightarrow> (case v of JNum n \<Rightarrow> isSafeInteger n | _ \<Rightarrow> False)"

definition int_or_zero :: "jsval \<Rightarrow> int" where
  "int_or_zero v = (if safe_int_val v then int_of_num (num_of v) else 0)"

definition str_field :: "jsval \<Rightarrow> string option" where
  "str_field v = (case v of JStr s \<Rightarrow> Some s | _ \<Rightarrow> None)"

definition isMergeDriverProof :: "jsval \<Rightarrow> bool" where
  "isMergeDriverProof v \<longleftrightarrow>
     is_record v \<and>
     get_prop v ''authority'' = JStr ''github-merge-assessment'' \<and>
     is_object_like (get_prop v ''mergeability'') \<and>
     is_object_like (get_prop v ''ci'') \<and>
     is_str (get_prop (get_prop v ''blocker'') ''class'') \<and>
     is_str (get_prop (get_prop v ''blocker'') ''summary'') \<and>
     is_str (get_prop (get_prop v ''blocker'') ''nextAction'')"

definition digits_key :: "string \<Rightarrow> bool" where
  "digits_key k \<longleftrightarrow> k \<noteq> [] \<and> list_all is_digit k"

definition record_of_val :: "jsval \<Rightarrow> MergeDriverPrRecord option" where
  "record_of_val r =
     (if \<not> is_object_like r \<or> \<not> safe_int_val (get_prop r ''pr'') then None
      else (case get_prop r ''status'' of
              JStr s \<Rightarrow>
                Some
                  \<lparr>pr = int_of_num (num_of (get_prop r ''pr'')),
                   status = status_of_text s,
                   armedAtEpoch = int_or_zero (get_prop r ''armedAtEpoch''),
                   attempts = int_or_zero (get_prop r ''attempts''),
                   updatedAtEpoch = int_or_zero (get_prop r ''updatedAtEpoch''),
                   lastState = str_field (get_prop r ''lastState''),
                   pr_proof = (if isMergeDriverProof (get_prop r ''proof'') then Some (get_prop r ''proof'') else None),
                   pr_note = str_field (get_prop r ''note'')\<rparr>
            | _ \<Rightarrow> None))"

definition keep_entry :: "MergeDriverState \<Rightarrow> string \<times> jsval \<Rightarrow> MergeDriverState" where
  "keep_entry prs e =
     (if \<not> digits_key (fst e) then prs
      else case record_of_val (snd e) of None \<Rightarrow> prs | Some r \<Rightarrow> js_put prs (fst e) r)"

definition validateDriverState :: "jsval \<Rightarrow> MergeDriverState" where
  "validateDriverState v =
     (if \<not> is_record v \<or> get_prop v ''version'' \<noteq> JNum (IntNum 1) \<or> \<not> is_object_like (get_prop v ''prs'') then []
      else foldl keep_entry [] (entries_of (get_prop v ''prs'')))"

text \<open>The value a state is encoded from.\<close>

definition record_val :: "MergeDriverPrRecord \<Rightarrow> jsval" where
  "record_val r =
     JObj ([(''pr'', JNum (IntNum (pr r))), (''status'', JStr (status_text (status r))),
            (''armedAtEpoch'', JNum (IntNum (armedAtEpoch r))), (''attempts'', JNum (IntNum (attempts r))),
            (''updatedAtEpoch'', JNum (IntNum (updatedAtEpoch r)))] @
           opt_field ''lastState'' JStr (lastState r) @ opt_field ''proof'' id (pr_proof r) @
           opt_field ''note'' JStr (pr_note r))"

definition state_val :: "MergeDriverState \<Rightarrow> jsval" where
  "state_val s = JObj [(''version'', JNum (IntNum 1)), (''prs'', JObj (map (\<lambda>(k, r). (k, record_val r)) s))]"

text \<open>
  The store: what is written is validated first, and a file that is missing or does not decode reads
  as the empty state.
\<close>

definition store_write :: "(jsval \<Rightarrow> string) \<Rightarrow> MergeDriverState \<Rightarrow> string" where
  "store_write encode s = encode (state_val (validateDriverState (state_val s)))"

definition store_read :: "(string \<Rightarrow> jsval option) \<Rightarrow> string option \<Rightarrow> MergeDriverState" where
  "store_read decode file =
     (case file of
        None \<Rightarrow> []
      | Some text \<Rightarrow> (case decode text of None \<Rightarrow> [] | Some v \<Rightarrow> validateDriverState v))"

section \<open>The assessment of one pull request\<close>

definition truthy_val :: "jsval \<Rightarrow> bool" where
  "truthy_val v \<longleftrightarrow> \<not> nullish v \<and> v \<noteq> JBool False \<and> v \<noteq> JNum (IntNum 0) \<and> v \<noteq> JNum NaN \<and> v \<noteq> JStr []"

definition checks_text :: "checks_state \<Rightarrow> string" where
  "checks_text c = (case c of Green \<Rightarrow> ''green'' | Pending \<Rightarrow> ''pending'' | Failing \<Rightarrow> ''failing'')"

definition or_unknown :: "string \<Rightarrow> string" where
  "or_unknown s = (if s = [] then ''UNKNOWN'' else s)"

definition previous_ci :: "jsval option \<Rightarrow> jsval" where
  "previous_ci previous = (case previous of None \<Rightarrow> JUndefined | Some v \<Rightarrow> get_prop (get_prop v ''ci'') ''state'')"

text \<open>The first blocker that holds, in the order of the assessment, with its sentence and its cure.\<close>

definition blocker_of :: "MergeDriverPrView \<Rightarrow> bool \<Rightarrow> MergeDriverBlockerClass \<times> string \<times> string" where
  "blocker_of view regression =
     (let m = upper (mergeable view); ms = or_unknown (upper (Some (mergeStateStatus view)));
          n = thread_count (unresolvedReviewThreads view); rd = or_unknown (upper (reviewDecision view)) in
      if pv_state view = PrClosed
      then (ClosedPr, ''pull request is closed without merge'', ''Open a replacement PR or release the driver record.'')
      else if m = ''CONFLICTING'' \<or> ms = ''DIRTY''
      then (Conflict, ''GitHub reports merge conflicts'',
            ''Rebase or merge the base branch locally, resolve conflicts, then push the repaired head.'')
      else if 0 < n
      then (Threads, show_int n @ '' review thread'' @ (if n = 1 then [] else ''s'') @ '' unresolved'',
            ''Resolve the review threads in GitHub, then let the merge driver read the PR again.'')
      else if checks view = Failing
      then (Ci, if regression then ''CI regressed from green to failing'' else ''CI has failing checks'',
            ''Inspect the failing check logs, fix the branch, and push a new head.'')
      else if isDraft view = Some True
      then (Draft, ''pull request is still a draft'', ''Mark the pull request ready for review.'')
      else if rd = ''REVIEW_REQUIRED'' \<or> rd = ''CHANGES_REQUESTED''
      then (Review, ''review decision is '' @ rd, ''Obtain the required approval or address the requested changes.'')
      else if ms = ''BLOCKED''
      then (Gate, ''GitHub merge assessment is blocked after visible checks and reviews'',
            ''Inspect branch protection and merge queue requirements in GitHub.'')
      else if checks view = Pending \<or> ms = ''BEHIND'' \<or> ms = ''UNKNOWN''
      then (UnknownBlocker, ''merge assessment is not settled'', ''Wait for GitHub to finish computing mergeability and checks.'')
      else (NoBlocker, ''GitHub reports the PR mergeable'', ''Merge with the merge-commit strategy.''))"

definition buildMergeProof :: "MergeDriverPrView \<Rightarrow> jsval option \<Rightarrow> MergeDriverProof" where
  "buildMergeProof view previous =
     (let m = upper (mergeable view); ms = or_unknown (upper (Some (mergeStateStatus view)));
          prev = previous_ci previous;
          regression = (prev = JStr ''green'' \<and> checks view = Failing);
          (cls, summary, nextAction) = blocker_of view regression in
      \<lparr>mergeability_state = (if m \<noteq> [] then m else ms),
       mergeability_source = (if m \<noteq> [] then ''mergeable'' else ''mergeStateStatus''),
       pf_unresolved = thread_count (unresolvedReviewThreads view),
       ci_state = checks view, wasGreenRegression = regression,
       previousState = (if truthy_val prev then Some prev else None),
       gate_state = ms, draft_isDraft = (isDraft view = Some True),
       review_decision = or_unknown (upper (reviewDecision view)),
       blocker_class = cls, blocker_summary = summary, blocker_nextAction = nextAction\<rparr>)"

definition class_text :: "MergeDriverBlockerClass \<Rightarrow> string" where
  "class_text c =
     (case c of NoBlocker \<Rightarrow> ''none'' | Conflict \<Rightarrow> ''conflict'' | Threads \<Rightarrow> ''threads'' | Ci \<Rightarrow> ''ci'' | Gate \<Rightarrow> ''gate''
      | Draft \<Rightarrow> ''draft'' | Review \<Rightarrow> ''review'' | ClosedPr \<Rightarrow> ''closed'' | UnknownBlocker \<Rightarrow> ''unknown'')"

definition proof_val :: "MergeDriverProof \<Rightarrow> jsval" where
  "proof_val p =
     JObj
       [(''authority'', JStr ''github-merge-assessment''),
        (''mergeability'', JObj [(''state'', JStr (mergeability_state p)), (''source'', JStr (mergeability_source p))]),
        (''reviewThreads'', JObj [(''unresolved'', JNum (IntNum (pf_unresolved p)))]),
        (''ci'', JObj ([(''state'', JStr (checks_text (ci_state p))), (''wasGreenRegression'', JBool (wasGreenRegression p))] @
                       opt_field ''previousState'' id (previousState p))),
        (''gate'', JObj [(''state'', JStr (gate_state p))]),
        (''draft'', JObj [(''isDraft'', JBool (draft_isDraft p))]),
        (''review'', JObj [(''decision'', JStr (review_decision p))]),
        (''blocker'', JObj [(''class'', JStr (class_text (blocker_class p))), (''summary'', JStr (blocker_summary p)),
                            (''nextAction'', JStr (blocker_nextAction p))])]"

section \<open>Arming and releasing\<close>

definition armed_record :: "int \<Rightarrow> int \<Rightarrow> MergeDriverPrRecord" where
  "armed_record n now =
     \<lparr>pr = n, status = Armed, armedAtEpoch = now, attempts = 0, updatedAtEpoch = now, lastState = None,
      pr_proof = None, pr_note = None\<rparr>"

definition armPr :: "MergeDriverState \<Rightarrow> int \<Rightarrow> int \<Rightarrow> MergeDriverState \<times> MergeDriverPrRecord" where
  "armPr s n now = (js_put s (show_int n) (armed_record n now), armed_record n now)"

definition releasePr :: "MergeDriverState \<Rightarrow> int \<Rightarrow> int \<Rightarrow> MergeDriverState \<times> MergeDriverPrRecord option" where
  "releasePr s n now =
     (case map_of s (show_int n) of
        None \<Rightarrow> (s, None)
      | Some r \<Rightarrow> (let r' = r\<lparr>status := Released, updatedAtEpoch := now\<rparr> in (js_put s (show_int n) r', Some r')))"

section \<open>The pass\<close>

datatype MergeDriverAction =
    ActMerged | AlreadyMerged | UpdatedBranch | ActWaiting | TerminalMedic | TerminalHuman | Retrying

record MergeDriverPassEntry =
  e_pr :: int
  e_action :: MergeDriverAction
  e_note :: "string option"

datatype driver_call = ViewPr int | UpdateBranch int | MergePr int | Countersign int

record driver_io =
  viewPr :: "int \<Rightarrow> string + MergeDriverPrView"
  updateBranch :: "int \<Rightarrow> string option"
  merge_call :: "int \<Rightarrow> string option"
  countersign :: "(int \<Rightarrow> string + string option) option"

definition entry :: "MergeDriverPrRecord \<Rightarrow> MergeDriverAction \<Rightarrow> string option \<Rightarrow> MergeDriverPassEntry" where
  "entry r a n = \<lparr>e_pr = pr r, e_action = a, e_note = n\<rparr>"

definition view_text :: "MergeDriverPrView \<Rightarrow> string" where
  "view_text v =
     (case pv_state v of PrOpen \<Rightarrow> ''OPEN'' | PrMerged \<Rightarrow> ''MERGED'' | PrClosed \<Rightarrow> ''CLOSED'') @ ''/'' @
     mergeStateStatus v @ ''/'' @ checks_text (checks v)"

text \<open>The stamp of a record: the attempt counted, the assessment kept, the rest patched.\<close>

definition stamped :: "MergeDriverPrRecord \<Rightarrow> int \<Rightarrow> MergeDriverPrRecord" where
  "stamped r now = r\<lparr>attempts := attempts r + 1, updatedAtEpoch := now\<rparr>"

definition assessed :: "MergeDriverPrRecord \<Rightarrow> int \<Rightarrow> MergeDriverPrView \<Rightarrow> MergeDriverProof \<Rightarrow> MergeDriverPrRecord" where
  "assessed r now v p = (stamped r now)\<lparr>lastState := Some (view_text v), pr_proof := Some (proof_val p)\<rparr>"

text \<open>The merge, behind the countersign gate when there is one. A gate that throws ends the pass.\<close>

definition try_merge ::
    "driver_io \<Rightarrow> MergeDriverPrRecord \<Rightarrow> MergeDriverPrRecord \<Rightarrow>
     (string + MergeDriverPrRecord \<times> MergeDriverPassEntry) \<times> driver_call list" where
  "try_merge io r base =
     (let merging = (\<lambda>calls. case merge_call io (pr r) of
             None \<Rightarrow> (Inr (base\<lparr>status := Merged\<rparr>, entry r ActMerged None), calls @ [MergePr (pr r)])
           | Some e \<Rightarrow> (Inr (base\<lparr>pr_note := Some (''merge failed: '' @ e)\<rparr>, entry r Retrying (Some ''merge failed'')),
                        calls @ [MergePr (pr r)])) in
      case countersign io of
        None \<Rightarrow> merging []
      | Some gate \<Rightarrow>
          (case gate (pr r) of
             Inl e \<Rightarrow> (Inl e, [Countersign (pr r)])
           | Inr (Some m) \<Rightarrow>
               (Inr (base\<lparr>status := NeedsHuman, pr_note := Some m\<rparr>, entry r TerminalHuman (Some m)), [Countersign (pr r)])
           | Inr None \<Rightarrow> merging [Countersign (pr r)]))"

definition drive_view ::
    "driver_io \<Rightarrow> int \<Rightarrow> MergeDriverPrRecord \<Rightarrow> MergeDriverPrView \<Rightarrow>
     (string + MergeDriverPrRecord \<times> MergeDriverPassEntry) \<times> driver_call list" where
  "drive_view io now r v =
     (let p = buildMergeProof v (pr_proof r); base = assessed r now v p; why = blocker_summary p;
          stop = (\<lambda>st a. (Inr (base\<lparr>status := st, pr_note := Some why\<rparr>, entry r a (Some why)), [])) in
      if pv_state v = PrMerged then (Inr (base\<lparr>status := Merged\<rparr>, entry r AlreadyMerged None), [])
      else if pv_state v = PrClosed then stop NeedsHuman TerminalHuman
      else if blocker_class p \<in> {Conflict, Threads, Ci} then stop NeedsMedic TerminalMedic
      else if blocker_class p \<in> {Draft, Review, Gate} then stop NeedsHuman TerminalHuman
      else if mergeStateStatus v = ''BEHIND''
      then (case updateBranch io (pr r) of
              None \<Rightarrow> (Inr (base, entry r UpdatedBranch None), [UpdateBranch (pr r)])
            | Some e \<Rightarrow> (Inr (base\<lparr>pr_note := Some (''update-branch failed: '' @ e)\<rparr>,
                              entry r Retrying (Some ''update-branch failed'')), [UpdateBranch (pr r)]))
      else if (mergeStateStatus v = ''CLEAN'' \<or> mergeStateStatus v = ''UNSTABLE'') \<and> checks v = Green
      then try_merge io r base
      else (Inr (base, entry r ActWaiting None), []))"

definition drive_pr ::
    "driver_io \<Rightarrow> int \<Rightarrow> int \<Rightarrow> MergeDriverPrRecord \<Rightarrow>
     (string + MergeDriverPrRecord \<times> MergeDriverPassEntry) \<times> driver_call list" where
  "drive_pr io maxAttempts now r =
     (if maxAttempts < attempts r + 1
      then (Inr ((stamped r now)\<lparr>status := NeedsHuman,
                   pr_note := Some (''attempts bound ('' @ show_int maxAttempts @ '') exhausted'')\<rparr>,
                 entry r TerminalHuman (Some ''attempts bound exhausted'')), [])
      else (case viewPr io (pr r) of
              Inl e \<Rightarrow> (Inr ((stamped r now)\<lparr>pr_note := Some (''view failed: '' @ e)\<rparr>,
                            entry r Retrying (Some ''view failed'')), [ViewPr (pr r)])
            | Inr v \<Rightarrow> (let (res, calls) = drive_view io now r v in (res, ViewPr (pr r) # calls))))"

fun drive_all ::
    "driver_io \<Rightarrow> int \<Rightarrow> int \<Rightarrow> MergeDriverPrRecord list \<Rightarrow> MergeDriverState \<Rightarrow>
     (string + MergeDriverState \<times> MergeDriverPassEntry list) \<times> driver_call list" where
  "drive_all io maxAttempts now [] next_prs = (Inr (next_prs, []), [])"
| "drive_all io maxAttempts now (r # rs) next_prs =
     (if status r \<noteq> Armed then drive_all io maxAttempts now rs next_prs
      else (let (res, calls) = drive_pr io maxAttempts now r in
            case res of
              Inl e \<Rightarrow> (Inl e, calls)
            | Inr (r', en) \<Rightarrow>
                (let (rest, more) = drive_all io maxAttempts now rs (js_put next_prs (show_int (pr r)) r') in
                 (case rest of Inl e \<Rightarrow> Inl e | Inr (t, es) \<Rightarrow> Inr (t, en # es), calls @ more))))"

text \<open>One pass over a state read: the state written, unless a call threw, the entries and the calls.\<close>

definition runMergeDriverPass ::
    "driver_io \<Rightarrow> int option \<Rightarrow> int \<Rightarrow> MergeDriverState \<Rightarrow>
     (string + MergeDriverState \<times> MergeDriverPassEntry list) \<times> driver_call list" where
  "runMergeDriverPass io maxAttempts now s =
     drive_all io (case maxAttempts of None \<Rightarrow> MERGE_DRIVER_MAX_ATTEMPTS | Some n \<Rightarrow> n) now (map snd s) s"

section \<open>Several writers of one store\<close>

text \<open>
  An operation reads the store, works on what it read, and writes; a release of what is not there
  and a pass that throws write nothing. Between the two calls others run.
\<close>

datatype driver_op = OpArm int int | OpRelease int int | OpPass driver_io "int option" int

datatype op_pc =
    NotRead
  | HasRead MergeDriverState
  | AnswersRecord "MergeDriverPrRecord option"
  | AnswersPass "MergeDriverPassEntry list"
  | Throws string

definition op_finish :: "driver_op \<Rightarrow> MergeDriverState \<Rightarrow> MergeDriverState option \<times> op_pc" where
  "op_finish op s =
     (case op of
        OpArm n now \<Rightarrow> (let (t, r) = armPr s n now in (Some t, AnswersRecord (Some r)))
      | OpRelease n now \<Rightarrow>
          (case releasePr s n now of
             (t, None) \<Rightarrow> (None, AnswersRecord None)
           | (t, Some r) \<Rightarrow> (Some t, AnswersRecord (Some r)))
      | OpPass io maxAttempts now \<Rightarrow>
          (case fst (runMergeDriverPass io maxAttempts now s) of
             Inl e \<Rightarrow> (None, Throws e)
           | Inr (t, es) \<Rightarrow> (Some t, AnswersPass es)))"

definition store_step ::
    "nat \<Rightarrow> MergeDriverState \<times> (driver_op \<times> op_pc) list \<Rightarrow> MergeDriverState \<times> (driver_op \<times> op_pc) list" where
  "store_step i q =
     (let (store, ops) = q in
      if i < length ops
      then (let (op, pc) = ops ! i in
            case pc of
              NotRead \<Rightarrow> (store, ops[i := (op, HasRead store)])
            | HasRead s \<Rightarrow>
                (let (w, pc') = op_finish op s in
                 (case w of None \<Rightarrow> store | Some t \<Rightarrow> t, ops[i := (op, pc')]))
            | _ \<Rightarrow> q)
      else q)"

definition store_steps ::
    "nat list \<Rightarrow> MergeDriverState \<Rightarrow> driver_op list \<Rightarrow> MergeDriverState \<times> (driver_op \<times> op_pc) list" where
  "store_steps is store ops = fold store_step is (store, map (\<lambda>op. (op, NotRead)) ops)"

section \<open>Lemmas\<close>

text \<open>Every record stands under its own number, once.\<close>

definition keyed :: "MergeDriverState \<Rightarrow> bool" where
  "keyed s \<longleftrightarrow> distinct (map fst s) \<and> (\<forall>(k, r) \<in> set s. k = show_int (pr r))"

lemma keyed_prs: "keyed s \<Longrightarrow> distinct (map pr (map snd s))"
proof -
  assume k: "keyed s"
  have "map fst s = map show_int (map pr (map snd s))" using k by (auto simp: keyed_def)
  then show ?thesis using k by (metis keyed_def distinct_map)
qed

lemma keyed_lookup: "keyed s \<Longrightarrow> map_of s k = Some r \<Longrightarrow> k = show_int (pr r) \<and> r \<in> set (map snd s)"
  by (force simp: keyed_def dest: map_of_SomeD)

lemma keyed_nth: "keyed s \<Longrightarrow> r \<in> set (map snd s) \<Longrightarrow> map_of s (show_int (pr r)) = Some r"
  by (force simp: keyed_def intro: map_of_is_SomeI)

lemma set_js_put: "distinct (map fst m) \<Longrightarrow> set (js_put m k v) = insert (k, v) {e \<in> set m. fst e \<noteq> k}"
proof -
  assume d: "distinct (map fst m)"
  have "e \<in> set (js_put m k v) \<longleftrightarrow> e = (k, v) \<or> (e \<in> set m \<and> fst e \<noteq> k)" for e
    using map_of_eq_Some_iff[OF d, of "fst e" "snd e"]
      map_of_eq_Some_iff[OF distinct_js_put[OF d], of k v "fst e" "snd e"]
    by (cases e) (auto split: if_splits)
  then show ?thesis by auto
qed

lemma keyed_put: "keyed s \<Longrightarrow> k = show_int (pr r) \<Longrightarrow> keyed (js_put s k r)"
  by (auto simp: keyed_def distinct_js_put set_js_put)

lemma try_merge_pr: "try_merge io r b = (Inr (r', e), c) \<Longrightarrow> pr r' = pr b \<and> attempts r' = attempts b"
  by (auto simp: try_merge_def Let_def split: option.splits sum.splits)

lemma drive_pr_result:
  assumes "drive_pr io m now r = (Inr (r', e), c)"
  shows "pr r' = pr r \<and> attempts r' = attempts r + 1 \<and> (status r = Armed \<and> status r' = Armed \<longrightarrow> attempts r' \<le> m)"
  using assms
  by (auto simp: drive_pr_def drive_view_def assessed_def stamped_def Let_def dest!: try_merge_pr
      split: if_splits sum.splits option.splits prod.splits)

lemma drive_all_keeps:
  "drive_all io m now rs s = (Inr (t, es), cs) \<Longrightarrow> \<forall>r \<in> set rs. status r = Armed \<longrightarrow> show_int (pr r) \<noteq> k \<Longrightarrow>
     map_of t k = map_of s k"
  by (induction io m now rs s arbitrary: t es cs rule: drive_all.induct)
     (auto simp: Let_def split: if_splits sum.splits prod.splits)

lemma drive_all_drives:
  "drive_all io m now rs s = (Inr (t, es), cs) \<Longrightarrow> distinct (map pr rs) \<Longrightarrow> r \<in> set rs \<Longrightarrow> status r = Armed \<Longrightarrow>
     \<exists>r' e c. drive_pr io m now r = (Inr (r', e), c) \<and> map_of t (show_int (pr r)) = Some r'"
proof (induction io m now rs s arbitrary: t es cs rule: drive_all.induct)
  case (2 io m now x rs s)
  show ?case
  proof (cases "status x = Armed")
    case armed: True
    obtain x' en calls t' es' more where d: "drive_pr io m now x = (Inr (x', en), calls)"
      and rest: "drive_all io m now rs (js_put s (show_int (pr x)) x') = (Inr (t', es'), more)" and t: "t = t'"
      using "2.prems"(1) armed by (auto simp: Let_def split: sum.splits prod.splits)
    show ?thesis
    proof (cases "r = x")
      case True
      have "\<forall>r \<in> set rs. show_int (pr r) \<noteq> show_int (pr x)"
        using "2.prems"(2) by (metis distinct.simps(2) image_eqI list.set_map list.simps(9) show_int_inj)
      then have "map_of t (show_int (pr x)) = Some x'"
        using drive_all_keeps[OF rest, of "show_int (pr x)"] t by simp
      then show ?thesis using d True by blast
    next
      case False
      then show ?thesis using "2.IH"(2)[OF _ d[symmetric] refl refl refl rest] armed "2.prems" t by auto
    qed
  next
    case False
    then show ?thesis using 2 by auto
  qed
qed simp

lemma drive_all_calls:
  "MergePr n \<in> set (snd (drive_all io m now rs s)) \<Longrightarrow>
     \<exists>r \<in> set rs. status r = Armed \<and> MergePr n \<in> set (snd (drive_pr io m now r))"
proof (induction io m now rs s rule: drive_all.induct)
  case (2 io m now x rs s)
  show ?case
  proof (cases "status x = Armed")
    case armed: True
    obtain res calls where d: "drive_pr io m now x = (res, calls)" by (cases "drive_pr io m now x")
    show ?thesis
    proof (cases res)
      case (Inl e)
      then show ?thesis using "2.prems" armed d by simp
    next
      case (Inr q)
      obtain x' en where q: "q = (x', en)" by (cases q)
      have d': "drive_pr io m now x = (Inr (x', en), calls)" using d Inr q by simp
      then have "MergePr n \<in> set calls \<or> MergePr n \<in> set (snd (drive_all io m now rs (js_put s (show_int (pr x)) x')))"
        using "2.prems" armed d Inr by (auto simp: Let_def split: prod.splits)
      then show ?thesis using "2.IH"(2)[OF _ d'[symmetric] refl refl refl] armed d' by auto
    qed
  next
    case False
    then show ?thesis using 2 by auto
  qed
qed simp

text \<open>One pass seen from one key.\<close>

lemma pass_lookup:
  assumes "keyed s" and "runMergeDriverPass io m now s = (Inr (t, es), cs)"
  shows "map_of s k = None \<Longrightarrow> map_of t k = None"
    and "map_of s k = Some r \<Longrightarrow> status r \<noteq> Armed \<Longrightarrow> map_of t k = Some r"
    and "map_of s k = Some r \<Longrightarrow> status r = Armed \<Longrightarrow>
      \<exists>r' e c. drive_pr io (case m of None \<Rightarrow> MERGE_DRIVER_MAX_ATTEMPTS | Some n \<Rightarrow> n) now r = (Inr (r', e), c) \<and>
        map_of t k = Some r'"
proof -
  let ?m = "case m of None \<Rightarrow> MERGE_DRIVER_MAX_ATTEMPTS | Some n \<Rightarrow> n"
  have run: "drive_all io ?m now (map snd s) s = (Inr (t, es), cs)" using assms(2) by (simp add: runMergeDriverPass_def)
  have keep: "\<forall>r \<in> set (map snd s). status r = Armed \<longrightarrow> show_int (pr r) \<noteq> k \<Longrightarrow> map_of t k = map_of s k" for k
    using drive_all_keeps[OF run] by blast
  show "map_of t k = None" if "map_of s k = None"
    using keep[of k] keyed_nth[OF assms(1)] that by fastforce
  show "map_of t k = Some r" if "map_of s k = Some r" "status r \<noteq> Armed"
    using keep[of k] keyed_nth[OF assms(1)] that by fastforce
  show "\<exists>r' e c. drive_pr io ?m now r = (Inr (r', e), c) \<and> map_of t k = Some r'" if "map_of s k = Some r" "status r = Armed"
    using drive_all_drives[OF run keyed_prs[OF assms(1)]] keyed_lookup[OF assms(1) that(1)] that(2) by blast
qed

lemma drive_all_keyed: "drive_all io m now rs s = (Inr (t, es), cs) \<Longrightarrow> keyed s \<Longrightarrow> keyed t"
proof (induction io m now rs s arbitrary: t es cs rule: drive_all.induct)
  case (2 io m now x rs s)
  show ?case
  proof (cases "status x = Armed")
    case armed: True
    obtain x' en calls t' es' more where d: "drive_pr io m now x = (Inr (x', en), calls)"
      and rest: "drive_all io m now rs (js_put s (show_int (pr x)) x') = (Inr (t', es'), more)" and t: "t = t'"
      using "2.prems"(1) armed by (auto simp: Let_def split: sum.splits prod.splits)
    have "keyed (js_put s (show_int (pr x)) x')" using drive_pr_result[OF d] "2.prems"(2) by (auto intro: keyed_put)
    then show ?thesis using "2.IH"(2)[OF _ d[symmetric] refl refl refl rest] armed t by auto
  next
    case False
    then show ?thesis using 2 by auto
  qed
qed simp

text \<open>A record the store gives back as it was.\<close>

definition stored_ok :: "MergeDriverPrRecord \<Rightarrow> bool" where
  "stored_ok r \<longleftrightarrow>
     \<bar>pr r\<bar> < 2 ^ 53 \<and> \<bar>armedAtEpoch r\<bar> < 2 ^ 53 \<and> \<bar>attempts r\<bar> < 2 ^ 53 \<and> \<bar>updatedAtEpoch r\<bar> < 2 ^ 53 \<and>
     status_of_text (status_text (status r)) = status r \<and>
     (case pr_proof r of None \<Rightarrow> True | Some p \<Rightarrow> isMergeDriverProof p)"

lemma safe_IntNum: "isSafeInteger (IntNum i) \<longleftrightarrow> \<bar>i\<bar> < 2 ^ 53"
proof -
  have "\<bar>of_int i\<bar> < (2 ^ 53 :: rat) \<longleftrightarrow> (of_int \<bar>i\<bar> :: rat) < of_int (2 ^ 53)" by simp
  then show ?thesis by (simp add: isSafeInteger_def isInteger_def del: of_int_abs of_int_power of_int_numeral)
qed

lemma safe_val_bound: "safe_int_val v \<Longrightarrow> \<bar>int_of_num (num_of v)\<bar> < 2 ^ 53"
proof -
  assume "safe_int_val v"
  then obtain x where v: "v = JNum (Num x)" and x: "of_int \<lfloor>x\<rfloor> = x" "isSafeInteger (Num x)"
    by (auto simp: safe_int_val_def isSafeInteger_def isInteger_def split: jsval.splits jsnum.splits)
  have "isSafeInteger (IntNum \<lfloor>x\<rfloor>)" using x(2) by (simp only: x(1))
  then show ?thesis by (simp only: safe_IntNum) (simp add: v num_of_def int_of_num_def)
qed

lemma int_or_zero_bound: "\<bar>int_or_zero v\<bar> < 2 ^ 53"
  using safe_val_bound by (simp add: int_or_zero_def)

lemma status_of_text_idem: "status_of_text (status_text (status_of_text s)) = status_of_text s"
  by (simp add: status_of_text_def)

lemma record_of_val_ok: "record_of_val v = Some r \<Longrightarrow> stored_ok r"
  by (auto simp: record_of_val_def stored_ok_def status_of_text_idem int_or_zero_bound[simplified] safe_val_bound[simplified]
      split: if_splits jsval.splits)

lemma not_proof_undefined [simp]: "\<not> isMergeDriverProof JUndefined"
  by (simp add: isMergeDriverProof_def)

lemma record_of_record_val: "stored_ok r \<Longrightarrow> record_of_val (record_val r) = Some r"
  by (cases r; cases "lastState r"; cases "pr_proof r"; cases "pr_note r")
     (simp_all add: record_of_val_def record_val_def stored_ok_def safe_int_val_def int_or_zero_def safe_IntNum[simplified]
       opt_field_def num_of_def str_field_def)

lemma keep_entries_ok:
  "enumerated m \<and> (\<forall>(k, r) \<in> set m. digits_key k \<and> stored_ok r) \<Longrightarrow>
     enumerated (foldl keep_entry m es) \<and> (\<forall>(k, r) \<in> set (foldl keep_entry m es). digits_key k \<and> stored_ok r)"
proof (induction es arbitrary: m)
  case (Cons e es)
  have "enumerated (keep_entry m e) \<and> (\<forall>(k, r) \<in> set (keep_entry m e). digits_key k \<and> stored_ok r)"
    using Cons.prems set_js_put[of m "fst e"] record_of_val_ok[of "snd e"]
    by (auto simp: keep_entry_def enumerated_js_put enumerated_def[of m] split: option.splits)
  then show ?case using Cons.IH by simp
qed simp

lemma keep_stored:
  "\<forall>(k, r) \<in> set s. digits_key k \<and> stored_ok r \<Longrightarrow>
     foldl keep_entry m (map (\<lambda>(k, r). (k, record_val r)) s) = foldl (\<lambda>m (k, r). js_put m k r) m s"
  by (induction s arbitrary: m) (auto simp: keep_entry_def record_of_record_val)

lemma validate_state_val:
  "enumerated s \<Longrightarrow> \<forall>(k, r) \<in> set s. digits_key k \<and> stored_ok r \<Longrightarrow> validateDriverState (state_val s) = s"
  by (simp add: validateDriverState_def state_val_def keep_stored js_puts_enumerated)

text \<open>Every state the validator returns can be stored, whatever was decoded.\<close>

lemma validated_storable:
  "enumerated (validateDriverState v) \<and> (\<forall>(k, r) \<in> set (validateDriverState v). digits_key k \<and> stored_ok r)"
  using keep_entries_ok[of "[]"] by (simp add: validateDriverState_def)

text \<open>A sequence of passes, each with the forge as it is then.\<close>

fun drive_passes :: "int \<Rightarrow> (driver_io \<times> int) list \<Rightarrow> MergeDriverState \<Rightarrow> string + MergeDriverState" where
  "drive_passes m [] s = Inr s"
| "drive_passes m ((io, now) # rest) s =
     (case fst (runMergeDriverPass io (Some m) now s) of
        Inl e \<Rightarrow> Inl e
      | Inr (t, _) \<Rightarrow> drive_passes m rest t)"

definition gate_answers :: "driver_io \<Rightarrow> bool" where
  "gate_answers io \<longleftrightarrow> (case countersign io of None \<Rightarrow> True | Some gate \<Rightarrow> \<forall>n. \<exists>v. gate n = Inr v)"

lemma drive_pr_returns: "gate_answers io \<Longrightarrow> \<exists>q c. drive_pr io m now r = (Inr q, c)"
  by (auto simp: gate_answers_def drive_pr_def drive_view_def try_merge_def Let_def split: option.splits sum.splits prod.splits)
     (metis Inl_Inr_False)+

lemma drive_all_returns: "gate_answers io \<Longrightarrow> \<exists>q c. drive_all io m now rs s = (Inr q, c)"
proof (induction rs arbitrary: s)
  case (Cons r rs)
  obtain r' e c where d: "drive_pr io m now r = (Inr (r', e), c)"
    using drive_pr_returns[OF Cons.prems, of m now r] by (metis surj_pair)
  obtain q c' where "drive_all io m now rs (js_put s (show_int (pr r)) r') = (Inr q, c')"
    using Cons.IH[OF Cons.prems] by blast
  moreover obtain q2 c2 where "drive_all io m now rs s = (Inr q2, c2)" using Cons.IH[OF Cons.prems] by blast
  ultimately show ?case using d by (cases q) auto
qed simp

text \<open>What stands when a merge is called, and what each pass does to what is armed.\<close>

definition mergeable_view :: "MergeDriverPrView \<Rightarrow> bool" where
  "mergeable_view v \<longleftrightarrow>
     pv_state v = PrOpen \<and> mergeStateStatus v \<in> {''CLEAN'', ''UNSTABLE''} \<and> checks v = Green \<and>
     upper (mergeable v) \<noteq> ''CONFLICTING'' \<and> thread_count (unresolvedReviewThreads v) \<le> 0 \<and>
     isDraft v \<noteq> Some True \<and> upper (reviewDecision v) \<notin> {''REVIEW_REQUIRED'', ''CHANGES_REQUESTED''}"

lemma try_merge_calls:
  "MergePr n \<in> set (snd (try_merge io r b)) \<Longrightarrow> n = pr r \<and> (\<forall>gate. countersign io = Some gate \<longrightarrow> gate n = Inr None)"
  by (auto simp: try_merge_def Let_def split: option.splits sum.splits)

lemma class_of_proof:
  "blocker_class (buildMergeProof v previous) =
     fst (blocker_of v (previous_ci previous = JStr ''green'' \<and> checks v = Failing))"
  by (cases "blocker_of v (previous_ci previous = JStr ''green'' \<and> checks v = Failing)")
     (simp add: buildMergeProof_def Let_def)

lemma drive_view_calls:
  assumes "MergePr n \<in> set (snd (drive_view io now r v))"
  shows "n = pr r \<and> mergeable_view v \<and> (\<forall>gate. countersign io = Some gate \<longrightarrow> gate n = Inr None)"
proof -
  let ?p = "buildMergeProof v (pr_proof r)"
  have c: "pv_state v = PrOpen" "blocker_class ?p \<notin> {Conflict, Threads, Ci, Draft, Review, Gate}"
    "mergeStateStatus v \<in> {''CLEAN'', ''UNSTABLE''}" "checks v = Green"
    and t: "MergePr n \<in> set (snd (try_merge io r (assessed r now v ?p)))"
    using assms by (auto simp: drive_view_def Let_def split: if_splits option.splits pr_state.splits)
      (metis pr_state.exhaust)+
  obtain b where cls: "blocker_class ?p = fst (blocker_of v b)" using class_of_proof by blast
  have "mergeable_view v"
    using c cls
    by (auto simp: mergeable_view_def blocker_of_def Let_def or_unknown_def split: if_splits)
  then show ?thesis using try_merge_calls[OF t] by blast
qed

lemma drive_pr_calls:
  assumes "MergePr n \<in> set (snd (drive_pr io m now r))"
  shows "n = pr r \<and> attempts r < m \<and> (\<exists>v. viewPr io n = Inr v \<and> mergeable_view v) \<and>
         (\<forall>gate. countersign io = Some gate \<longrightarrow> gate n = Inr None)"
proof -
  obtain v where v: "viewPr io (pr r) = Inr v" "attempts r < m" "MergePr n \<in> set (snd (drive_view io now r v))"
    using assms by (auto simp: drive_pr_def Let_def split: if_splits sum.splits prod.splits)
  show ?thesis using drive_view_calls[OF v(3)] v(1,2) by auto
qed

lemma pass_step:
  assumes "keyed s" and "runMergeDriverPass io (Some m) now s = (Inr (t, es), cs)"
    and "map_of t k = Some r'" and "status r' = Armed"
  shows "\<exists>r. map_of s k = Some r \<and> status r = Armed \<and> attempts r' = attempts r + 1 \<and> attempts r' \<le> m"
proof -
  obtain r where r: "map_of s k = Some r" using pass_lookup(1)[OF assms(1,2), of k] assms(3) by (cases "map_of s k") auto
  moreover have "status r = Armed" using pass_lookup(2)[OF assms(1,2) r] assms(3,4) by auto
  moreover obtain e c where "drive_pr io m now r = (Inr (r', e), c)"
    using pass_lookup(3)[OF assms(1,2) r] calculation(2) assms(3) by auto
  ultimately show ?thesis using drive_pr_result assms(4) by blast
qed

lemma pass_keyed: "runMergeDriverPass io m now s = (Inr (t, es), cs) \<Longrightarrow> keyed s \<Longrightarrow> keyed t"
  using drive_all_keyed by (auto simp: runMergeDriverPass_def)

lemma passes_armed:
  "keyed s \<Longrightarrow> drive_passes m ps s = Inr t \<Longrightarrow> map_of t k = Some r' \<Longrightarrow> status r' = Armed \<Longrightarrow>
     \<exists>r. map_of s k = Some r \<and> status r = Armed \<and> attempts r' = attempts r + int (length ps) \<and>
         (ps = [] \<or> attempts r' \<le> m)"
proof (induction m ps s rule: drive_passes.induct)
  case (2 m io now rest s)
  then obtain u es cs where u: "runMergeDriverPass io (Some m) now s = (Inr (u, es), cs)"
    by (auto split: sum.splits) (metis prod.collapse)
  have "keyed u" using pass_keyed[OF u] "2.prems"(1) by blast
  then obtain ru where ru: "map_of u k = Some ru" "status ru = Armed" "attempts r' = attempts ru + int (length rest)"
      "rest = [] \<or> attempts r' \<le> m"
    using "2.IH"[of "(u, es)"] "2.prems" u by auto
  then show ?case using pass_step[OF "2.prems"(1) u ru(1,2)] by (auto simp: algebra_simps)
qed simp

lemma passes_return: "\<forall>(io, now) \<in> set ps. gate_answers io \<Longrightarrow> \<exists>t. drive_passes m ps s = Inr t"
proof (induction m ps s rule: drive_passes.induct)
  case (2 m io now rest s)
  then obtain q c where "runMergeDriverPass io (Some m) now s = (Inr q, c)"
    using drive_all_returns[of io] by (fastforce simp: runMergeDriverPass_def)
  then show ?case using 2 by (cases q) auto
qed simp

section \<open>Properties\<close>

text \<open>
  C3. Only what the forge assessed and the gate judged is merged: every merge a pass calls is of
  a pull request that was armed and had attempts left, of the bound given or the default one, and
  whose view of this very pass is open, in merge state CLEAN or UNSTABLE with green checks, without
  conflict, unresolved thread, draft or pending review, and which the countersign gate, when there
  is one, has just allowed.
\<close>

theorem merge_only_when_judged:
  assumes "MergePr n \<in> set (snd (runMergeDriverPass io maxAttempts now s))"
  shows "(\<exists>r \<in> set (map snd s). status r = Armed \<and> pr r = n \<and>
            attempts r < (case maxAttempts of None \<Rightarrow> MERGE_DRIVER_MAX_ATTEMPTS | Some m \<Rightarrow> m)) \<and>
         (\<exists>v. viewPr io n = Inr v \<and> pv_state v = PrOpen \<and> mergeStateStatus v \<in> {''CLEAN'', ''UNSTABLE''} \<and> checks v = Green \<and>
            upper (mergeable v) \<noteq> ''CONFLICTING'' \<and> thread_count (unresolvedReviewThreads v) \<le> 0 \<and>
            isDraft v \<noteq> Some True \<and> upper (reviewDecision v) \<notin> {''REVIEW_REQUIRED'', ''CHANGES_REQUESTED''}) \<and>
         (\<forall>gate. countersign io = Some gate \<longrightarrow> gate n = Inr None)"
proof -
  let ?m = "case maxAttempts of None \<Rightarrow> MERGE_DRIVER_MAX_ATTEMPTS | Some m \<Rightarrow> m"
  obtain r where "r \<in> set (map snd s)" "status r = Armed" "MergePr n \<in> set (snd (drive_pr io ?m now r))"
    using assms drive_all_calls[of n io ?m now "map snd s" s] unfolding runMergeDriverPass_def by blast
  then show ?thesis using drive_pr_calls[of n io ?m now r] unfolding mergeable_view_def by blast
qed

text \<open>
  C21. No pull request is driven for ever: more passes than the attempts bound always return, and
  leave nothing armed, whatever the forge answers in each of them, errors included.
\<close>

theorem armed_set_drains:
  assumes "keyed s" and "\<forall>r \<in> set (map snd s). 0 \<le> attempts r" and "0 \<le> m" and "m < int (length ps)"
    and "\<forall>(io, now) \<in> set ps. gate_answers io"
  shows "\<exists>t. drive_passes m ps s = Inr t \<and> (\<forall>k r. map_of t k = Some r \<longrightarrow> status r \<noteq> Armed)"
proof -
  obtain t where t: "drive_passes m ps s = Inr t" using passes_return[OF assms(5)] by blast
  have "status r' \<noteq> Armed" if k: "map_of t k = Some r'" for k r'
  proof
    assume "status r' = Armed"
    then obtain r where r: "map_of s k = Some r" "attempts r' = attempts r + int (length ps)" "ps = [] \<or> attempts r' \<le> m"
      using passes_armed[OF assms(1) t k] by blast
    moreover have "0 \<le> attempts r" using keyed_lookup[OF assms(1) r(1)] assms(2) by blast
    ultimately show False using assms(3,4) by auto
  qed
  then show ?thesis using t by blast
qed

text \<open>
  C30. The driver keeps its state well formed and touches only what is armed: arming, releasing
  and a pass leave every record under its own number, once; and a pass neither adds nor drops a
  record, and leaves every merged, released or given-up one exactly as it was.
\<close>

theorem driver_state_kept:
  assumes "keyed s"
  shows "keyed (fst (armPr s n now)) \<and> keyed (fst (releasePr s n now)) \<and>
     (\<forall>io m t es cs. runMergeDriverPass io m now s = (Inr (t, es), cs) \<longrightarrow>
        keyed t \<and> dom (map_of t) = dom (map_of s) \<and>
        (\<forall>k r. map_of s k = Some r \<and> status r \<noteq> Armed \<longrightarrow> map_of t k = Some r))"
proof (intro conjI allI impI)
  show "keyed (fst (armPr s n now))" using assms by (simp add: armPr_def armed_record_def keyed_put)
  show "keyed (fst (releasePr s n now))"
    using assms keyed_lookup[OF assms, of "show_int n"]
    by (auto simp: releasePr_def Let_def intro!: keyed_put split: option.splits)
next
  fix io m t es cs
  assume run: "runMergeDriverPass io m now s = (Inr (t, es), cs)"
  show "keyed t" using pass_keyed[OF run assms] .
  show "dom (map_of t) = dom (map_of s)"
    using pass_lookup[OF assms run] by (auto simp: dom_def) (metis option.exhaust)+
next
  fix io m t es cs k r
  assume "runMergeDriverPass io m now s = (Inr (t, es), cs)" "map_of s k = Some r \<and> status r \<noteq> Armed"
  then show "map_of t k = Some r" using pass_lookup(2)[OF assms] by blast
qed

text \<open>
  C31. A driver state is read back as it was written: the same records under the same keys in the
  same order, with their attempts, times, proofs and notes. The codec is only asked to decode the
  value it encoded; the state is one whose keys are numerals in the order an object enumerates them,
  whose numbers are safe integers, and whose proofs are assessments.
\<close>

theorem stored_state_reads_back:
  assumes "decode (encode (state_val s)) = Some (state_val s)" and "enumerated s"
    and "\<forall>(k, r) \<in> set s. digits_key k \<and>
      \<bar>pr r\<bar> < 2 ^ 53 \<and> \<bar>armedAtEpoch r\<bar> < 2 ^ 53 \<and> \<bar>attempts r\<bar> < 2 ^ 53 \<and> \<bar>updatedAtEpoch r\<bar> < 2 ^ 53 \<and>
      status_of_text (status_text (status r)) = status r \<and>
      (case pr_proof r of None \<Rightarrow> True | Some p \<Rightarrow> isMergeDriverProof p)"
  shows "store_read decode (Some (store_write encode s)) = s"
proof -
  have "\<forall>(k, r) \<in> set s. digits_key k \<and> stored_ok r" using assms(3) unfolding stored_ok_def by blast
  then have "validateDriverState (state_val s) = s" by (rule validate_state_val[OF assms(2)])
  then show ?thesis using assms(1) by (simp add: store_read_def store_write_def)
qed

text \<open>
  C40. An arm that ends during a pass is lost: whatever the store holds, when a pass has read it
  before the arm writes and writes after it, in either order of the two reads, the arm has answered
  with its record and the store has held it, and yet the store the pass leaves has under that number
  what it had before: nothing, or the record that had ended.
\<close>

theorem arm_during_pass_is_lost:
  assumes "keyed s" and "\<forall>r. map_of s (show_int n) = Some r \<longrightarrow> status r \<noteq> Armed"
    and "fst (runMergeDriverPass io maxAttempts now s) = Inr (t, es)"
    and "reads = [0, 1] \<or> reads = [1, 0]"
  shows "map_of (fst (store_steps (reads @ [1]) s [OpPass io maxAttempts now, OpArm n later])) (show_int n) =
           Some (armed_record n later) \<and>
         snd (snd (store_steps (reads @ [1, 0]) s [OpPass io maxAttempts now, OpArm n later]) ! 1) =
           AnswersRecord (Some (armed_record n later)) \<and>
         map_of (fst (store_steps (reads @ [1, 0]) s [OpPass io maxAttempts now, OpArm n later])) (show_int n) =
           map_of s (show_int n)"
proof -
  obtain cs where run: "runMergeDriverPass io maxAttempts now s = (Inr (t, es), cs)" using assms(3) by (metis prod.collapse)
  have "map_of t (show_int n) = map_of s (show_int n)"
    using pass_lookup(1,2)[OF assms(1) run, of "show_int n"] assms(2) by (cases "map_of s (show_int n)") auto
  then show ?thesis
    using assms(3,4) by (auto simp: store_steps_def store_step_def op_finish_def armPr_def Let_def)
qed

section \<open>Witnesses\<close>

definition clean_view :: MergeDriverPrView where
  "clean_view = \<lparr>pv_state = PrOpen, mergeStateStatus = ''CLEAN'', mergeable = Some ''MERGEABLE'', checks = Green,
                unresolvedReviewThreads = None, isDraft = Some False, reviewDecision = Some ''APPROVED''\<rparr>"

definition willing_forge :: driver_io where
  "willing_forge = \<lparr>viewPr = \<lambda>_. Inr clean_view, updateBranch = \<lambda>_. None, merge_call = \<lambda>_. None,
                   countersign = Some (\<lambda>_. Inr None)\<rparr>"

definition dead_forge :: driver_io where
  "dead_forge = \<lparr>viewPr = \<lambda>_. Inl ''offline'', updateBranch = \<lambda>_. None, merge_call = \<lambda>_. None, countersign = None\<rparr>"

definition one_armed :: MergeDriverState where
  "one_armed = [(''7'', armed_record 7 0)]"

lemma one_armed_keyed: "keyed one_armed"
proof -
  have "show_int 7 = ''7''" by code_simp
  then show ?thesis by (simp add: keyed_def one_armed_def armed_record_def)
qed

theorem merge_only_when_judged_witness:
  "MergePr 7 \<in> set (snd (runMergeDriverPass willing_forge None 9 one_armed)) \<and>
   (\<exists>v. viewPr willing_forge 7 = Inr v \<and> checks v = Green)"
proof -
  have "MergePr 7 \<in> set (snd (runMergeDriverPass willing_forge None 9 one_armed))" by code_simp
  then show ?thesis using merge_only_when_judged[of 7 willing_forge None 9 one_armed] by blast
qed

theorem armed_set_drains_witness:
  "\<exists>t. drive_passes 2 [(dead_forge, 1), (dead_forge, 2), (dead_forge, 3)] one_armed = Inr t \<and>
       (\<forall>k r. map_of t k = Some r \<longrightarrow> status r \<noteq> Armed)"
  by (rule armed_set_drains)
     (simp_all add: one_armed_keyed, simp_all add: one_armed_def armed_record_def dead_forge_def gate_answers_def)

theorem driver_state_kept_witness:
  "keyed (fst (armPr one_armed 8 1))"
  using driver_state_kept[OF one_armed_keyed, of 8 1] by blast

definition judged_record :: MergeDriverPrRecord where
  "judged_record =
     \<lparr>pr = 7, status = NeedsHuman, armedAtEpoch = 1, attempts = 3, updatedAtEpoch = 9, lastState = Some ''OPEN/CLEAN/green'',
      pr_proof = Some (proof_val (buildMergeProof clean_view None)), pr_note = Some ''not judged''\<rparr>"

theorem stored_state_reads_back_witness:
  "store_read (\<lambda>t. if t = ''text'' then Some (state_val [(''7'', judged_record)]) else None)
     (Some (store_write (\<lambda>v. ''text'') [(''7'', judged_record)])) = [(''7'', judged_record)]"
proof (rule stored_state_reads_back)
  show "enumerated [(''7'', judged_record)]" by (simp add: enumerated_def)
  have "isMergeDriverProof (proof_val (buildMergeProof clean_view None))" by code_simp
  then show "\<forall>(k, r) \<in> set [(''7'', judged_record)]. digits_key k \<and>
      \<bar>pr r\<bar> < 2 ^ 53 \<and> \<bar>armedAtEpoch r\<bar> < 2 ^ 53 \<and> \<bar>attempts r\<bar> < 2 ^ 53 \<and> \<bar>updatedAtEpoch r\<bar> < 2 ^ 53 \<and>
      status_of_text (status_text (status r)) = status r \<and>
      (case pr_proof r of None \<Rightarrow> True | Some p \<Rightarrow> isMergeDriverProof p)"
    by (simp add: judged_record_def status_of_text_def digits_key_def is_digit_def)
qed simp

theorem arm_during_pass_is_lost_witness:
  "\<exists>store. store = fst (store_steps [0, 1, 1, 0] one_armed [OpPass willing_forge None 9, OpArm 8 5]) \<and> map_of store ''8'' = None"
proof -
  have n: "show_int 8 = ''8''" by code_simp
  have free: "map_of one_armed (show_int 8) = None" by (simp add: n) code_simp
  have "gate_answers willing_forge" by (simp add: gate_answers_def willing_forge_def)
  then obtain q cs where q: "runMergeDriverPass willing_forge None 9 one_armed = (Inr q, cs)"
    using drive_all_returns[of willing_forge] by (fastforce simp: runMergeDriverPass_def)
  obtain t es where "q = (t, es)" by (cases q)
  then have "fst (runMergeDriverPass willing_forge None 9 one_armed) = Inr (t, es)" using q by simp
  from arm_during_pass_is_lost[OF one_armed_keyed _ this, of 8 "[0, 1]" 5] show ?thesis using free n by simp
qed

end
