(* ===== verification/Land_Lock.thy ===== *)
theory Land_Lock
  imports Prelude
begin

text \<open>
  The land lock, \<open>packages/worker/src/engine/land-lock.ts\<close>: a lock file that serializes landings
  on one host.

  An acquirer is a sequence of awaited file-system calls with synchronous code between them, so
  a step is one call and what follows it up to the next, and other processes run between any
  two. The file is nothing, a text that is no JSON (the empty text of a file just created is
  one), or the value it parses to; what a holder writes parses to its record.

  \<open>createExclusive\<close> is two calls, as in the port of the repository
  (\<open>apps/plugin-dev/src/runtime/land-lock.ts\<close>): \<open>open\<close> with the flag \<open>wx\<close>, which creates an empty
  file or fails, and \<open>writeFile\<close> through the handle, which reaches the file that was opened even if
  the path names another one, or none, by then; a record is short and its write one step. The disk
  counts the files created at the path, so that a handle names one of them. A call that throws where
  the port does not catch ends the acquire and is not modelled. The clock is read at each step; the
  pid oracle is a parameter.
\<close>

section \<open>The record\<close>

record LandLockRecord =
  holder :: string
  lk_pid :: jsnum
  acquiredAtMs :: jsnum

datatype lock_file = NoFile | BadText | Json jsval

definition record_json :: "LandLockRecord \<Rightarrow> jsval" where
  "record_json r = JObj [(''holder'', JStr (holder r)), (''pid'', JNum (lk_pid r)), (''acquiredAtMs'', JNum (acquiredAtMs r))]"

definition parseRecord :: "lock_file \<Rightarrow> LandLockRecord option" where
  "parseRecord f =
     (case f of
        Json v \<Rightarrow>
          (case (get_prop v ''holder'', get_prop v ''pid'', get_prop v ''acquiredAtMs'') of
             (JStr h, JNum p, JNum a) \<Rightarrow> Some \<lparr>holder = h, lk_pid = p, acquiredAtMs = a\<rparr>
           | _ \<Rightarrow> None)
      | _ \<Rightarrow> None)"

definition same_num :: "jsnum \<Rightarrow> jsnum \<Rightarrow> bool" where
  "same_num a b \<longleftrightarrow> a = b \<and> a \<noteq> NaN"

definition sameRecord :: "LandLockRecord \<Rightarrow> LandLockRecord \<Rightarrow> bool" where
  "sameRecord a b \<longleftrightarrow>
     holder a = holder b \<and> same_num (lk_pid a) (lk_pid b) \<and> same_num (acquiredAtMs a) (acquiredAtMs b)"

datatype LandSerialization = NativeMergeQueue | UnderLandLock | Unserialized

definition resolveLandSerialization :: "bool option \<Rightarrow> bool option \<Rightarrow> LandSerialization" where
  "resolveLandSerialization nativeMergeQueue hasLandLock =
     (if nativeMergeQueue = Some True then NativeMergeQueue
      else if hasLandLock = Some True then UnderLandLock else Unserialized)"

section \<open>The acquirer\<close>

text \<open>How many files have been created at the path, and what is there now.\<close>

type_synonym lock_disk = "nat \<times> lock_file"

record LandLockOptions =
  lo_holder :: string
  lo_pid :: int
  waitTimeoutMs_opt :: "int option"
  pollMs_opt :: "int option"
  staleAfterMs_opt :: "int option"

definition waitTimeoutMs :: "LandLockOptions \<Rightarrow> int" where
  "waitTimeoutMs opts = (case waitTimeoutMs_opt opts of None \<Rightarrow> 15 * 60000 | Some n \<Rightarrow> n)"

definition pollMs :: "LandLockOptions \<Rightarrow> int" where
  "pollMs opts = (case pollMs_opt opts of None \<Rightarrow> 1000 | Some n \<Rightarrow> n)"

definition staleAfterMs :: "LandLockOptions \<Rightarrow> int" where
  "staleAfterMs opts = (case staleAfterMs_opt opts of None \<Rightarrow> 30 * 60000 | Some n \<Rightarrow> n)"

text \<open>\<open>now - at >= limit\<close>, and \<open>Math.max(0, now - at)\<close>, for an instant read from a file.\<close>

definition older_than :: "int \<Rightarrow> jsnum \<Rightarrow> int \<Rightarrow> bool" where
  "older_than now a limit = (case a of Num x \<Rightarrow> of_int limit \<le> of_int now - x | NegInf \<Rightarrow> True | _ \<Rightarrow> False)"

definition elapsed_ms :: "int \<Rightarrow> jsnum \<Rightarrow> jsnum" where
  "elapsed_ms now a = (case a of Num x \<Rightarrow> Num (max 0 (of_int now - x)) | NegInf \<Rightarrow> PosInf | PosInf \<Rightarrow> Num 0 | NaN \<Rightarrow> NaN)"

definition abandoned :: "LandLockOptions \<Rightarrow> (jsnum \<Rightarrow> bool) \<Rightarrow> int \<Rightarrow> LandLockRecord option \<Rightarrow> bool" where
  "abandoned opts isHolderAlive now r =
     (case r of
        None \<Rightarrow> True
      | Some l \<Rightarrow> older_than now (acquiredAtMs l) (staleAfterMs opts) \<or> \<not> isHolderAlive (lk_pid l))"

record LandLockWaitInfo =
  w_holder :: string
  heldBy :: "string option"
  heldByPid :: "jsnum option"
  heldForMs :: "jsnum option"
  waitedMs :: int
  remainingMs :: int
  w_attempt :: nat

definition wait_info :: "LandLockOptions \<Rightarrow> int \<Rightarrow> int \<Rightarrow> LandLockRecord option \<Rightarrow> nat \<Rightarrow> LandLockWaitInfo" where
  "wait_info opts started now r n =
     \<lparr>w_holder = lo_holder opts, heldBy = map_option holder r, heldByPid = map_option lk_pid r,
      heldForMs = map_option (\<lambda>l. elapsed_ms now (acquiredAtMs l)) r,
      waitedMs = max 0 (now - started), remainingMs = max 0 (started + waitTimeoutMs opts - now), w_attempt = n\<rparr>"

definition mine_at :: "LandLockOptions \<Rightarrow> int \<Rightarrow> LandLockRecord" where
  "mine_at opts now = \<lparr>holder = lo_holder opts, lk_pid = IntNum (lo_pid opts), acquiredAtMs = IntNum now\<rparr>"

text \<open>The call an acquirer makes next, or its end; a sleeper told its wait.\<close>

datatype lock_pc =
    TryCreate
  | WriteRecord nat LandLockRecord
  | ReadFile
  | RemoveFile "LandLockRecord option"
  | RetryCreate "LandLockRecord option"
  | Sleeping LandLockWaitInfo
  | TimedOut
  | Holding LandLockRecord
  | ReadRelease LandLockRecord
  | RemoveRelease
  | LockReleased

text \<open>After a failed attempt: give up at the deadline, else tell the wait and sleep.\<close>

definition after_attempt :: "LandLockOptions \<Rightarrow> int \<Rightarrow> int \<Rightarrow> LandLockRecord option \<Rightarrow> nat \<Rightarrow> nat \<times> lock_pc" where
  "after_attempt opts started now r n =
     (if started + waitTimeoutMs opts \<le> now then (n, TimedOut)
      else (Suc n, Sleeping (wait_info opts started now r (Suc n))))"

text \<open>The \<open>open\<close> of \<open>createExclusive\<close>; a creator goes on to write through its handle.\<close>

definition try_open :: "LandLockOptions \<Rightarrow> int \<Rightarrow> lock_disk \<Rightarrow> (lock_disk \<times> lock_pc) option" where
  "try_open opts now d =
     (if snd d = NoFile then Some ((Suc (fst d), BadText), WriteRecord (Suc (fst d)) (mine_at opts now)) else None)"

definition write_handle :: "nat \<Rightarrow> LandLockRecord \<Rightarrow> lock_disk \<Rightarrow> lock_disk" where
  "write_handle h m d = (if fst d = h \<and> snd d \<noteq> NoFile then (fst d, Json (record_json m)) else d)"

definition lock_step ::
    "LandLockOptions \<Rightarrow> (jsnum \<Rightarrow> bool) \<Rightarrow> int \<Rightarrow> int \<Rightarrow> lock_disk \<Rightarrow> nat \<Rightarrow> lock_pc \<Rightarrow> lock_disk \<times> nat \<times> lock_pc" where
  "lock_step opts isHolderAlive started now d n pc =
     (case pc of
        TryCreate \<Rightarrow> (case try_open opts now d of Some (d', pc') \<Rightarrow> (d', n, pc') | None \<Rightarrow> (d, n, ReadFile))
      | WriteRecord h m \<Rightarrow> (write_handle h m d, n, Holding m)
      | ReadFile \<Rightarrow>
          (let r = parseRecord (snd d) in
           (d, if abandoned opts isHolderAlive now r then (n, RemoveFile r) else after_attempt opts started now r n))
      | RemoveFile r \<Rightarrow> ((fst d, NoFile), n, RetryCreate r)
      | RetryCreate r \<Rightarrow>
          (case try_open opts now d of Some (d', pc') \<Rightarrow> (d', n, pc') | None \<Rightarrow> (d, after_attempt opts started now r n))
      | Sleeping _ \<Rightarrow> (d, n, TryCreate)
      | TimedOut \<Rightarrow> (d, n, TimedOut)
      | Holding m \<Rightarrow> (d, n, ReadRelease m)
      | ReadRelease m \<Rightarrow>
          (case parseRecord (snd d) of
             None \<Rightarrow> (d, n, RemoveRelease)
           | Some r \<Rightarrow> if sameRecord r m then (d, n, RemoveRelease) else (d, n, LockReleased))
      | RemoveRelease \<Rightarrow> ((fst d, NoFile), n, LockReleased)
      | LockReleased \<Rightarrow> (d, n, LockReleased))"

section \<open>Many acquirers\<close>

record contender =
  c_opts :: LandLockOptions
  c_started :: int
  c_attempt :: nat
  c_pc :: lock_pc

text \<open>Who moves and when; each move is one step of that contender on the shared disk.\<close>

definition move ::
    "(jsnum \<Rightarrow> bool) \<Rightarrow> nat \<times> int \<Rightarrow> lock_disk \<times> contender list \<Rightarrow> lock_disk \<times> contender list" where
  "move isHolderAlive e s =
     (let (i, now) = e; (d, cs) = s in
      if i < length cs
      then (let c = cs ! i; (d', n', pc') = lock_step (c_opts c) isHolderAlive (c_started c) now d (c_attempt c) (c_pc c) in
            (d', cs[i := c\<lparr>c_attempt := n', c_pc := pc'\<rparr>]))
      else s)"

definition run_moves ::
    "(jsnum \<Rightarrow> bool) \<Rightarrow> (nat \<times> int) list \<Rightarrow> lock_disk \<times> contender list \<Rightarrow> lock_disk \<times> contender list" where
  "run_moves isHolderAlive es s = fold (move isHolderAlive) es s"

text \<open>A contender that has the lock: it was granted and has not begun its release.\<close>

definition holds :: "contender \<Rightarrow> bool" where
  "holds c = (case c_pc c of Holding _ \<Rightarrow> True | _ \<Rightarrow> False)"

definition holders :: "contender list \<Rightarrow> nat set" where
  "holders cs = {i. i < length cs \<and> holds (cs ! i)}"

definition fresh_contender :: "LandLockOptions \<Rightarrow> int \<Rightarrow> contender" where
  "fresh_contender opts started = \<lparr>c_opts = opts, c_started = started, c_attempt = 0, c_pc = TryCreate\<rparr>"

section \<open>One acquirer\<close>

text \<open>
  One \<open>acquire\<close>, an iteration of its loop at a time, in a world that others change: at its
  \<open>j\<close>-th call of iteration \<open>i\<close> it finds the disk as \<open>world i j\<close> says and the time as
  \<open>clock i j\<close>. An iteration makes at most five calls before it ends and at most four before it
  sleeps, and the loop is given a number of iterations; \<open>None\<close> is running out of them.
\<close>

definition settled :: "lock_pc \<Rightarrow> bool" where
  "settled pc = (case pc of Holding _ \<Rightarrow> True | TimedOut \<Rightarrow> True | Sleeping _ \<Rightarrow> True | _ \<Rightarrow> False)"

definition round_step ::
    "LandLockOptions \<Rightarrow> (jsnum \<Rightarrow> bool) \<Rightarrow> int \<Rightarrow> (nat \<Rightarrow> int) \<Rightarrow> (nat \<Rightarrow> lock_disk) \<Rightarrow> nat \<Rightarrow> nat \<times> lock_pc \<Rightarrow> nat \<times> lock_pc" where
  "round_step opts alive started clock world j q =
     (if settled (snd q) then q else snd (lock_step opts alive started (clock j) (world j) (fst q) (snd q)))"

definition acquire_round ::
    "LandLockOptions \<Rightarrow> (jsnum \<Rightarrow> bool) \<Rightarrow> int \<Rightarrow> (nat \<Rightarrow> int) \<Rightarrow> (nat \<Rightarrow> lock_disk) \<Rightarrow> nat \<Rightarrow> nat \<times> lock_pc" where
  "acquire_round opts alive started clock world n =
     fold (round_step opts alive started clock world) [0, 1, 2, 3, 4] (n, TryCreate)"

fun acquire_rounds ::
    "LandLockOptions \<Rightarrow> (jsnum \<Rightarrow> bool) \<Rightarrow> int \<Rightarrow> (nat \<Rightarrow> nat \<Rightarrow> int) \<Rightarrow> (nat \<Rightarrow> nat \<Rightarrow> lock_disk) \<Rightarrow> nat \<Rightarrow> nat \<Rightarrow> nat \<Rightarrow>
     lock_pc option" where
  "acquire_rounds opts alive started clock world 0 i n = None"
| "acquire_rounds opts alive started clock world (Suc k) i n =
     (let (n', pc) = acquire_round opts alive started (clock i) (world i) n in
      case pc of
        Sleeping _ \<Rightarrow> acquire_rounds opts alive started clock world k (Suc i) n'
      | _ \<Rightarrow> Some pc)"

section \<open>Lemmas\<close>

lemma parse_record_json [simp]: "parseRecord (Json (record_json r)) = Some r"
  by (simp add: parseRecord_def record_json_def)

lemma record_json_file [simp]: "Json (record_json r) \<noteq> NoFile"
  by simp

text \<open>What an iteration ends in, and when it may sleep.\<close>

lemma round_settles:
  assumes "acquire_round opts alive started clock world n = (n', pc)"
  shows "settled pc \<and> (\<forall>w. pc = Sleeping w \<longrightarrow> (\<exists>j < 4. clock j < started + waitTimeoutMs opts))"
proof -
  have late: "snd (after_attempt opts started now r k) = Sleeping w \<Longrightarrow> now < started + waitTimeoutMs opts" for now r k w
    by (simp add: after_attempt_def split: if_splits)
  have settles: "settled (snd (after_attempt opts started now r k))" for now r k
    by (simp add: after_attempt_def settled_def)
  note steps = acquire_round_def round_step_def lock_step_def try_open_def Let_def
  note open_pcs = settled_def[of TryCreate] settled_def[of ReadFile] settled_def[of "RemoveFile _"]
    settled_def[of "RetryCreate _"] settled_def[of "WriteRecord _ _"] settled_def[of "Holding _"]
  have sleeps: ?thesis if "(n', pc) = after_attempt opts started (clock j) r n" "j < 4" for j r
    using that settles[of "clock j" r n] late[of "clock j" r n] by (metis snd_conv)
  consider "snd (world 0) = NoFile"
    | "snd (world 0) \<noteq> NoFile" "\<not> abandoned opts alive (clock 1) (parseRecord (snd (world 1)))"
    | "snd (world 0) \<noteq> NoFile" "abandoned opts alive (clock 1) (parseRecord (snd (world 1)))" "snd (world 3) = NoFile"
    | "snd (world 0) \<noteq> NoFile" "abandoned opts alive (clock 1) (parseRecord (snd (world 1)))" "snd (world 3) \<noteq> NoFile"
    by blast
  then show ?thesis
  proof cases
    case 1
    then show ?thesis using assms by (auto simp: steps open_pcs)
  next
    case 2
    then have "(n', pc) = after_attempt opts started (clock 1) (parseRecord (snd (world 1))) n"
      using assms settles[of "clock 1" "parseRecord (snd (world 1))" n] by (simp add: steps open_pcs)
    then show ?thesis by (rule sleeps) simp
  next
    case 3
    then show ?thesis using assms by (auto simp: steps open_pcs)
  next
    case 4
    then have "(n', pc) = after_attempt opts started (clock 3) (parseRecord (snd (world 1))) n"
      using assms settles[of "clock 3" "parseRecord (snd (world 1))" n] by (simp add: steps open_pcs)
    then show ?thesis by (rule sleeps) simp
  qed
qed

text \<open>Rounds that cannot sleep past the deadline are few.\<close>

lemma rounds_return:
  assumes "\<forall>i j. j < 4 \<longrightarrow> started + int i * pollMs opts \<le> clock i j" and "0 \<le> int k * pollMs opts"
    and "waitTimeoutMs opts \<le> int (i + k) * pollMs opts"
  shows "\<exists>pc. acquire_rounds opts alive started clock world (Suc k) i n = Some pc \<and>
     (pc = TimedOut \<or> (\<exists>m. pc = Holding m))"
  using assms(2,3)
proof (induction k arbitrary: i n)
  case 0
  obtain n' pc where r: "acquire_round opts alive started (clock i) (world i) n = (n', pc)" by (metis surj_pair)
  have "\<not> (\<exists>j < 4. clock i j < started + waitTimeoutMs opts)"
    using assms(1) 0 by (metis add.right_neutral add_le_cancel_left not_le order_trans)
  then show ?case using round_settles[OF r] r by (cases pc) (auto simp: settled_def)
next
  case (Suc k)
  obtain n' pc where r: "acquire_round opts alive started (clock i) (world i) n = (n', pc)" by (metis surj_pair)
  have p: "0 \<le> int k * pollMs opts" using Suc.prems(1) by (cases "pollMs opts \<ge> 0") (auto simp: zero_le_mult_iff)
  have w: "waitTimeoutMs opts \<le> int (Suc i + k) * pollMs opts" using Suc.prems(2) by simp
  show ?case
  proof (cases "\<exists>x. pc = Sleeping x")
    case True
    then have "acquire_rounds opts alive started clock world (Suc (Suc k)) i n =
        acquire_rounds opts alive started clock world (Suc k) (Suc i) n'"
      using r by (subst acquire_rounds.simps) (auto simp del: acquire_rounds.simps)
    then show ?thesis using Suc.IH[OF p w] by simp
  next
    case False
    then show ?thesis using round_settles[OF r] r by (cases pc) (auto simp: settled_def)
  qed
qed

text \<open>
  A file created by one contender, which has written its record or is about to, and nobody on the
  way to remove it. The instants are those at which the others move.
\<close>

definition harmless :: "lock_pc \<Rightarrow> bool" where
  "harmless pc = (case pc of TryCreate \<Rightarrow> True | ReadFile \<Rightarrow> True | Sleeping _ \<Rightarrow> True | TimedOut \<Rightarrow> True | _ \<Rightarrow> False)"

definition stands :: "(jsnum \<Rightarrow> bool) \<Rightarrow> int set \<Rightarrow> contender list \<Rightarrow> LandLockRecord \<Rightarrow> bool" where
  "stands alive T cs m \<longleftrightarrow>
     alive (lk_pid m) \<and> (\<forall>c \<in> set cs. \<forall>t \<in> T. \<not> older_than t (acquiredAtMs m) (staleAfterMs (c_opts c)))"

definition owns :: "lock_disk \<Rightarrow> lock_pc \<Rightarrow> LandLockRecord \<Rightarrow> bool" where
  "owns d pc m \<longleftrightarrow>
     (snd d = Json (record_json m) \<and> pc = Holding m) \<or> (snd d = BadText \<and> pc = WriteRecord (fst d) m)"

definition held_by_one :: "(jsnum \<Rightarrow> bool) \<Rightarrow> int set \<Rightarrow> lock_disk \<times> contender list \<Rightarrow> bool" where
  "held_by_one alive T s \<longleftrightarrow>
     (snd (fst s) = NoFile \<and> (\<forall>c \<in> set (snd s). c_pc c = TryCreate)) \<or>
     (\<exists>i m. i < length (snd s) \<and> owns (fst s) (c_pc (snd s ! i)) m \<and>
        stands alive T (snd s) m \<and> (\<forall>j < length (snd s). j \<noteq> i \<longrightarrow> harmless (c_pc (snd s ! j))))"

lemma stands_opts:
  assumes "map c_opts cs = map c_opts ds" and "stands alive T cs m"
  shows "stands alive T ds m"
proof -
  have alt: "stands alive T xs m \<longleftrightarrow>
      alive (lk_pid m) \<and> (\<forall>x \<in> set (map c_opts xs). \<forall>t \<in> T. \<not> older_than t (acquiredAtMs m) (staleAfterMs x))" for xs
    by (simp add: stands_def)
  show ?thesis using assms(2) unfolding alt assms(1) .
qed

lemma older_than_int [simp]: "older_than t (IntNum a) l \<longleftrightarrow> l \<le> t - a"
  by (simp add: older_than_def flip: of_int_diff)

lemma harmless_not_holds: "harmless (c_pc c) \<Longrightarrow> \<not> holds c"
  by (simp add: harmless_def holds_def split: lock_pc.splits)

lemma held_by_one_holders: "held_by_one alive T (f, cs) \<Longrightarrow> card (holders cs) \<le> 1"
proof -
  assume h: "held_by_one alive T (f, cs)"
  have "\<exists>i. holders cs \<subseteq> {i}"
  proof (cases "\<forall>c \<in> set cs. c_pc c = TryCreate")
    case True
    then have "holders cs = {}" by (auto simp: holders_def holds_def)
    then show ?thesis by simp
  next
    case False
    then obtain i where "\<forall>j < length cs. j \<noteq> i \<longrightarrow> harmless (c_pc (cs ! j))"
      using h by (auto simp: held_by_one_def)
    then have "\<forall>j < length cs. j \<noteq> i \<longrightarrow> \<not> holds (cs ! j)" using harmless_not_holds by blast
    then show ?thesis by (intro exI[of _ i]) (auto simp: holders_def)
  qed
  then show ?thesis by (auto dest: subset_singletonD)
qed

text \<open>A step of a harmless contender beside a standing record changes no file and stays harmless.\<close>

lemma harmless_step:
  assumes "harmless pc" and "\<not> abandoned opts alive now (Some m)" and "owns d pc\<^sub>0 m"
    and "pc = ReadFile \<longrightarrow> snd d \<noteq> BadText"
    and "lock_step opts alive started now d n pc = (d', n', pc')"
  shows "d' = d \<and> harmless pc'"
  using assms
  by (cases pc) (auto simp: lock_step_def try_open_def owns_def harmless_def after_attempt_def Let_def split: if_splits)

text \<open>A contender between the creation of a file and the write of its record.\<close>

definition writing :: "contender \<Rightarrow> bool" where
  "writing c = (case c_pc c of WriteRecord _ _ \<Rightarrow> True | _ \<Rightarrow> False)"

text \<open>
  A contender may move: it does not hold the lock, and it does not read the file while another has
  created one and not yet written it.
\<close>

definition may_move :: "contender list \<Rightarrow> nat \<Rightarrow> bool" where
  "may_move cs i \<longleftrightarrow> (i < length cs \<longrightarrow> \<not> holds (cs ! i) \<and> (c_pc (cs ! i) = ReadFile \<longrightarrow> (\<forall>c \<in> set cs. \<not> writing c)))"

lemma creator_step:
  assumes "owns d pc m" and "\<not> (\<exists>r. pc = Holding r)"
    and "lock_step opts alive started now d n pc = (d', n', pc')"
  shows "owns d' pc' m"
  using assms by (auto simp: owns_def lock_step_def write_handle_def)

lemma move_held_by_one:
  assumes h: "held_by_one alive T (d, cs)" and now: "now \<in> T" and may: "may_move cs i"
    and live: "\<forall>c \<in> set cs. alive (IntNum (lo_pid (c_opts c))) \<and> (\<forall>t \<in> T. t - now < staleAfterMs (c_opts c))"
  shows "held_by_one alive T (move alive (i, now) (d, cs))"
proof (cases "i < length cs")
  case i: True
  let ?c = "cs ! i"
  obtain d' n' pc' where st: "lock_step (c_opts ?c) alive (c_started ?c) now d (c_attempt ?c) (c_pc ?c) = (d', n', pc')"
    by (metis surj_pair)
  let ?cs' = "cs[i := ?c\<lparr>c_attempt := n', c_pc := pc'\<rparr>]"
  have mv: "move alive (i, now) (d, cs) = (d', ?cs')" using i st by (simp add: move_def Let_def)
  have "map c_opts ?cs' = map c_opts cs" using i by (simp add: map_update list_update_same_conv)
  then have stands: "stands alive T cs m \<Longrightarrow> stands alive T ?cs' m" for m
    using stands_opts[of cs ?cs'] by simp
  show ?thesis
  proof (cases "snd d = NoFile \<and> (\<forall>c \<in> set cs. c_pc c = TryCreate)")
    case True
    then have q: "owns d' pc' (mine_at (c_opts ?c) now)"
      using st i by (auto simp: lock_step_def try_open_def owns_def)
    have "stands alive T cs (mine_at (c_opts ?c) now)"
      using live i nth_mem[OF i] by (fastforce simp: stands_def mine_at_def not_le)
    then show ?thesis unfolding mv held_by_one_def using q i True stands
      by (auto simp: nth_list_update harmless_def intro!: exI[of _ i])
  next
    case False
    then obtain k m where k: "k < length cs" "owns d (c_pc (cs ! k)) m" "stands alive T cs m"
        "\<forall>j < length cs. j \<noteq> k \<longrightarrow> harmless (c_pc (cs ! j))"
      using h by (auto simp: held_by_one_def)
    have "owns d' (c_pc (?cs' ! k)) m \<and> (i \<noteq> k \<longrightarrow> harmless pc')"
    proof (cases "i = k")
      case True
      moreover have "\<not> (\<exists>r. c_pc ?c = Holding r)" using may i by (auto simp: may_move_def holds_def)
      ultimately show ?thesis using creator_step[OF _ _ st, of m] k(1,2) by simp
    next
      case ne: False
      have "writing (cs ! k)" if "snd d = BadText" using k(2) that by (auto simp: owns_def writing_def)
      then have "c_pc ?c = ReadFile \<longrightarrow> snd d \<noteq> BadText" using may i nth_mem[OF k(1)] by (auto simp: may_move_def)
      moreover have "\<not> abandoned (c_opts ?c) alive now (Some m)"
        using k(3) now nth_mem[OF i] by (auto simp: abandoned_def stands_def)
      ultimately have "d' = d" "harmless pc'" using harmless_step[OF _ _ k(2) _ st] k(4) i ne by blast+
      then show ?thesis using k(2) ne by simp
    qed
    then show ?thesis unfolding mv held_by_one_def using k i stands
      by (auto simp: nth_list_update intro!: exI[of _ k])
  qed
qed (use h in \<open>simp add: move_def\<close>)

text \<open>A run in which a holder keeps the lock and nobody reads a file not yet written.\<close>

fun keeping :: "(jsnum \<Rightarrow> bool) \<Rightarrow> (nat \<times> int) list \<Rightarrow> lock_disk \<times> contender list \<Rightarrow> bool" where
  "keeping alive [] s = True"
| "keeping alive (e # es) s = (may_move (snd s) (fst e) \<and> keeping alive es (move alive e s))"

lemma move_opts: "map c_opts (snd (move alive e s)) = map c_opts (snd s)"
  by (auto simp: move_def Let_def map_update list_update_same_conv split: prod.splits)

lemma run_held_by_one:
  assumes "held_by_one alive T s" and "keeping alive es s" and "snd ` set es \<subseteq> T"
    and "\<forall>x \<in> set (map c_opts (snd s)). alive (IntNum (lo_pid x)) \<and> (\<forall>t \<in> T. \<forall>u \<in> T. t - u < staleAfterMs x)"
  shows "held_by_one alive T (run_moves alive es s)"
  using assms
proof (induction es arbitrary: s)
  case (Cons e es)
  obtain i now where e: "e = (i, now)" by (cases e)
  obtain f cs where s: "s = (f, cs)" by (cases s)
  have "held_by_one alive T (move alive e s)"
    using Cons.prems unfolding e s by (intro move_held_by_one) auto
  then show ?case using Cons.IH[of "move alive e s"] Cons.prems by (simp add: run_moves_def move_opts del: set_map)
qed (simp add: run_moves_def)

section \<open>Properties\<close>

text \<open>
  C27. Acquiring always ends: whatever the other processes do to the file, and however often they
  win, an acquirer whose sleeps last at least the poll interval returns, with the lock or with
  the timeout, within one iteration more than the poll intervals in its wait budget.
\<close>

theorem acquire_returns:
  assumes "0 < pollMs opts" and "0 \<le> waitTimeoutMs opts"
    and "\<forall>i j. j < 4 \<longrightarrow> started + int i * pollMs opts \<le> clock i j"
  shows "\<exists>pc. acquire_rounds opts alive started clock world (Suc (nat (waitTimeoutMs opts div pollMs opts + 1))) 0 0 = Some pc \<and>
     (pc = TimedOut \<or> (\<exists>m. pc = Holding m))"
proof -
  let ?k = "nat (waitTimeoutMs opts div pollMs opts + 1)"
  have "0 \<le> waitTimeoutMs opts div pollMs opts" using assms(1,2) by (simp add: pos_imp_zdiv_nonneg_iff)
  then have "int ?k = waitTimeoutMs opts div pollMs opts + 1" by simp
  moreover have "waitTimeoutMs opts \<le> (waitTimeoutMs opts div pollMs opts + 1) * pollMs opts"
    using div_mult_mod_eq[of "waitTimeoutMs opts" "pollMs opts"] pos_mod_bound[OF assms(1), of "waitTimeoutMs opts"]
    unfolding distrib_right by linarith
  ultimately have "waitTimeoutMs opts \<le> int (0 + ?k) * pollMs opts" "0 \<le> int ?k * pollMs opts" using assms(1,2) by auto
  then show ?thesis using rounds_return[OF assms(3)] by blast
qed

text \<open>
  C9. A live holder is never robbed while it keeps the lock: from a free lock, through any
  interleaving of any number of contenders whose processes live, as long as no lock ages past
  the staleness limit, no holder starts its release, and nobody reads the file in the moment
  between its creation and the write of its record, at most one of them holds the lock. What
  happens when somebody reads it in that moment is \<open>half_written_lock_lets_two_hold\<close>.
\<close>

theorem live_holder_excludes:
  assumes "\<forall>c \<in> set cs. c_pc c = TryCreate" and "keeping alive es ((k, NoFile), cs)"
    and "\<forall>c \<in> set cs. alive (IntNum (lo_pid (c_opts c)))"
    and "\<forall>c \<in> set cs. \<forall>e \<in> set es. \<forall>e' \<in> set es. snd e - snd e' < staleAfterMs (c_opts c)"
  shows "card (holders (snd (run_moves alive es ((k, NoFile), cs)))) \<le> 1"
proof -
  have "held_by_one alive (snd ` set es) ((k, NoFile), cs)" using assms(1) by (simp add: held_by_one_def)
  then have "held_by_one alive (snd ` set es) (run_moves alive es ((k, NoFile), cs))"
    using run_held_by_one[of alive "snd ` set es" "((k, NoFile), cs)" es] assms(2-4) by auto
  then show ?thesis using held_by_one_holders by (metis surjective_pairing)
qed

text \<open>
  C26. A lock file is not written when it is created: between the two the file is empty, and whoever
  reads it then takes it for abandoned, live as its creator may be. From a free lock, for any two
  contenders, any limits, any pid oracle and any instants, one order of their calls ends with both
  holding the lock: the second reads the file the first has just created, removes it and creates its
  own, and the first writes its record into the removed one.
\<close>

theorem half_written_lock_lets_two_hold:
  assumes "length ts = 7"
  shows "holders (snd (run_moves alive (zip [0, 1, 1, 1, 1, 1, 0] ts)
     ((k, NoFile), [fresh_contender a s, fresh_contender b s']))) = {0, 1}"
proof -
  obtain t0 t1 t2 t3 t4 t5 t6 where ts: "ts = [t0, t1, t2, t3, t4, t5, t6]"
    using assms by (auto simp: numeral_eq_Suc length_Suc_conv)
  have empty: "parseRecord BadText = None" by (simp add: parseRecord_def)
  show ?thesis
    by (auto simp: ts run_moves_def move_def lock_step_def try_open_def write_handle_def fresh_contender_def
        empty abandoned_def holders_def holds_def less_2_cases_iff)
qed

text \<open>
  C39. A release opens a window: an acquirer that lost the creation and then reads the file just
  released takes the missing record for an abandoned one, and removes the lock a third one took
  in between. So from a free lock, whatever the pids, the limits and the oracle say, there is an
  interleaving, all at one instant, after which two contenders hold the lock at once.
\<close>

theorem release_lets_two_hold:
  "\<exists>es. {1, 2} \<subseteq> holders (snd (run_moves alive es
     ((0, NoFile), [fresh_contender a 0, fresh_contender b 0, fresh_contender c 0]))) \<and> list_all (\<lambda>e. snd e = 0) es"
proof -
  let ?es = "[(0, 0), (0, 0), (1, 0), (0, 0), (0, 0), (0, 0), (1, 0), (2, 0), (2, 0), (1, 0), (1, 0), (1, 0)] :: (nat \<times> int) list"
  have same: "sameRecord (mine_at x t) (mine_at x t)" for x t by (simp add: sameRecord_def same_num_def mine_at_def)
  have gone: "parseRecord NoFile = None" by (simp add: parseRecord_def)
  have "{1, 2} \<subseteq> holders (snd (run_moves alive ?es
     ((0, NoFile), [fresh_contender a 0, fresh_contender b 0, fresh_contender c 0])))"
    by (simp add: run_moves_def move_def lock_step_def try_open_def write_handle_def fresh_contender_def same gone
        abandoned_def holders_def holds_def)
  then show ?thesis by (intro exI[of _ ?es]) simp
qed

section \<open>Witnesses\<close>

definition lander :: "int \<Rightarrow> LandLockOptions" where
  "lander n = \<lparr>lo_holder = ''w'', lo_pid = n, waitTimeoutMs_opt = Some 10, pollMs_opt = Some 4, staleAfterMs_opt = None\<rparr>"

theorem acquire_returns_witness:
  "acquire_rounds (lander 1) (\<lambda>_. True) 0 (\<lambda>i j. int i * 4) (\<lambda>_ _. (1, Json (record_json (mine_at (lander 2) 0)))) 4 0 0 = Some TimedOut"
proof -
  let ?w = "\<lambda>_ _. (1, Json (record_json (mine_at (lander 2) 0)))" and ?clock = "\<lambda>i (j :: nat). int i * 4"
  have o: "pollMs (lander 1) = 4" "waitTimeoutMs (lander 1) = 10" by (simp_all add: lander_def pollMs_def waitTimeoutMs_def)
  obtain pc where "acquire_rounds (lander 1) (\<lambda>_. True) 0 ?clock ?w (Suc (nat (10 div 4 + 1))) 0 0 = Some pc"
    using acquire_returns[of "lander 1" 0 ?clock "\<lambda>_. True" ?w] by (auto simp: o)
  moreover have "acquire_rounds (lander 1) (\<lambda>_. True) 0 ?clock ?w 4 0 0 = Some TimedOut" by code_simp
  ultimately show ?thesis by simp
qed

theorem live_holder_excludes_witness:
  "let cs = snd (run_moves (\<lambda>_. True) [(0, 0), (1, 0), (0, 1), (1, 1), (1, 2)]
       ((0, NoFile), [fresh_contender (lander 1) 0, fresh_contender (lander 2) 0])) in
   card (holders cs) \<le> 1 \<and> holds (cs ! 0)"
proof -
  let ?cs = "[fresh_contender (lander 1) 0, fresh_contender (lander 2) 0]"
    and ?es = "[(0, 0), (1, 0), (0, 1), (1, 1), (1, 2)] :: (nat \<times> int) list"
  have k: "keeping (\<lambda>_. True) ?es ((0, NoFile), ?cs)" by code_simp
  have "card (holders (snd (run_moves (\<lambda>_. True) ?es ((0, NoFile), ?cs)))) \<le> 1"
    by (rule live_holder_excludes) (use k in \<open>simp_all add: fresh_contender_def lander_def staleAfterMs_def\<close>)
  moreover have "holds (snd (run_moves (\<lambda>_. True) ?es ((0, NoFile), ?cs)) ! 0)" by code_simp
  ultimately show ?thesis unfolding Let_def by blast
qed

theorem half_written_lock_lets_two_hold_witness:
  "holders (snd (run_moves (\<lambda>_. True) (zip [0, 1, 1, 1, 1, 1, 0] [0, 1, 2, 3, 4, 5, 6])
     ((0, NoFile), [fresh_contender (lander 1) 0, fresh_contender (lander 2) 1]))) = {0, 1}"
  by (rule half_written_lock_lets_two_hold) simp

end
