(* ===== verification/Validation_Cone.thy ===== *)
theory Validation_Cone
  imports Prelude
begin

text \<open>
  What a change must validate: \<open>packages/worker/src/engine/validation-cone.ts\<close>. The package
  layout is the predicate the caller injects; a set is the list of its members in insertion
  order, and \<open>sort\<close> orders texts by their bytes.
\<close>

section \<open>Data\<close>

type_synonym PackageLayout = "string \<Rightarrow> bool"

record WorkspacePackage =
  w_dir :: string
  dependsOn :: "string list"

type_synonym WorkspaceGraph = "WorkspacePackage list"

datatype ValidationScope =
    Cone "string list" "string list"
  | WholeWorkspace string

definition ROOT_TRIGGER_FILES :: "string list" where
  "ROOT_TRIGGER_FILES =
     [''pnpm-lock.yaml'', ''pnpm-workspace.yaml'', ''package.json'', ''turbo.json'', ''tsconfig.json'',
      ''tsconfig.base.json'', ''.npmrc'', ''.nvmrc'']"

section \<open>Scopes of files\<close>

definition stripDotSlash :: "string \<Rightarrow> string" where
  "stripDotSlash f = (if starts_with ''./'' f then drop 2 f else f)"

definition isRootTrigger :: "string \<Rightarrow> bool" where
  "isRootTrigger f =
     (let clean = stripDotSlash f in
      if starts_with ''.github/'' clean then True
      else if CHR ''/'' \<in> set clean then False
      else clean \<in> set ROOT_TRIGGER_FILES)"

text \<open>\<open>file.slice(0, file.lastIndexOf("/"))\<close>, for a text with a slash.\<close>

definition parent_dir :: "string \<Rightarrow> string" where
  "parent_dir d = rev (drop 1 (dropWhile (\<lambda>c. c \<noteq> CHR ''/'') (rev d)))"

lemma parent_shorter: "CHR ''/'' \<in> set d \<Longrightarrow> length (parent_dir d) < length d"
proof -
  assume "CHR ''/'' \<in> set d"
  then have "d \<noteq> []" by auto
  then show ?thesis
    using length_dropWhile_le[of "\<lambda>c. c \<noteq> CHR ''/''" "rev d"] by (cases d) (auto simp: parent_dir_def)
qed

text \<open>The walk from a directory to its parents; \<open>None\<close> when it reaches the top.\<close>

function nearest_up :: "PackageLayout \<Rightarrow> string \<Rightarrow> string option" where
  "nearest_up hasPackage dir =
     (if dir = [] \<or> dir = ''.'' \<or> dir = ''/'' then None
      else if hasPackage dir then Some dir
      else if CHR ''/'' \<in> set dir then nearest_up hasPackage (parent_dir dir)
      else None)"
  by pat_completeness auto

termination
  by (relation "measure (\<lambda>(_, d). length d)") (auto simp: parent_shorter)

declare nearest_up.simps [simp del]

definition nearestPackageScope :: "PackageLayout \<Rightarrow> string \<Rightarrow> string option" where
  "nearestPackageScope hasPackage f =
     (if f = [] then None
      else (let clean = stripDotSlash f;
                dir = (if CHR ''/'' \<in> set clean then parent_dir clean else ''.'') in
            case nearest_up hasPackage dir of
              Some d \<Rightarrow> Some d
            | None \<Rightarrow> if hasPackage ''.'' then Some ''.'' else None))"

definition insert_new :: "'a \<Rightarrow> 'a list \<Rightarrow> 'a list" where
  "insert_new x xs = (if x \<in> set xs then xs else xs @ [x])"

definition relevantScopes :: "PackageLayout \<Rightarrow> string list \<Rightarrow> string list" where
  "relevantScopes hasPackage changedFiles =
     (let seen = fold (\<lambda>f s. case nearestPackageScope hasPackage f of None \<Rightarrow> s | Some d \<Rightarrow> insert_new d s) changedFiles [];
          seen = (if seen = [] \<and> hasPackage ''.'' then [''.''] else seen) in
      sort seen)"

section \<open>The cone\<close>

text \<open>The list that \<open>reverseDeps\<close> holds for a directory: its dependents, in graph order.\<close>

definition dependents :: "WorkspaceGraph \<Rightarrow> string \<Rightarrow> string list" where
  "dependents g d = concat (map (\<lambda>p. map (\<lambda>_. w_dir p) (filter (\<lambda>dep. dep = d) (dependsOn p))) g)"

text \<open>One turn of the inner loop: every dependent not yet seen joins the cone and the queue.\<close>

fun visit :: "string list \<Rightarrow> string list \<Rightarrow> string list \<Rightarrow> string list \<times> string list" where
  "visit [] cone queue = (cone, queue)"
| "visit (x # xs) cone queue =
     (if x \<in> set cone then visit xs cone queue else visit xs (cone @ [x]) (queue @ [x]))"

lemma visit_spec:
  "visit xs cone queue = (c, q) \<Longrightarrow>
     \<exists>new. c = cone @ new \<and> q = queue @ new \<and> set c = set cone \<union> set xs \<and> set new \<subseteq> set xs \<and>
       set new \<inter> set cone = {} \<and> distinct new"
proof (induction xs cone queue rule: visit.induct)
  case (2 x xs cone queue)
  show ?case
  proof (cases "x \<in> set cone")
    case True
    then show ?thesis using 2 by fastforce
  next
    case False
    then obtain new where "c = (cone @ [x]) @ new" "q = (queue @ [x]) @ new" "set c = set (cone @ [x]) \<union> set xs"
        "set new \<subseteq> set xs" "set new \<inter> set (cone @ [x]) = {}" "distinct new"
      using 2 by auto
    then show ?thesis using False by (intro exI[of _ "x # new"]) auto
  qed
qed simp

lemma dependents_iff: "x \<in> set (dependents g d) \<longleftrightarrow> (\<exists>p \<in> set g. w_dir p = x \<and> d \<in> set (dependsOn p))"
  by (auto simp: dependents_def)

function cone_loop :: "WorkspaceGraph \<Rightarrow> string list \<Rightarrow> string list \<Rightarrow> string list" where
  "cone_loop g cone [] = cone"
| "cone_loop g cone (d # queue) = (let (cone', queue') = visit (dependents g d) cone queue in cone_loop g cone' queue')"
  by pat_completeness auto

text \<open>Every directory enters the queue once: what is left to see, then the queue, decreases.\<close>

termination
proof (relation "measures [\<lambda>(g, cone, _). card (w_dir ` set g - set cone), \<lambda>(_, _, queue). length queue]")
  fix g :: WorkspaceGraph and cone queue :: "string list" and d x and c q
  assume x: "x = visit (dependents g d) cone queue" and cq: "(c, q) = x"
  obtain new where n: "c = cone @ new" "q = queue @ new" "set new \<subseteq> set (dependents g d)" "set new \<inter> set cone = {}"
    using visit_spec[of "dependents g d" cone queue c q] x cq by auto
  show "((g, c, q), g, cone, d # queue) \<in>
      measures [\<lambda>(g, cone, _). card (w_dir ` set g - set cone), \<lambda>(_, _, queue). length queue]"
  proof (cases "new = []")
    case True
    then show ?thesis using n by simp
  next
    case False
    then obtain y where "y \<in> set new" by fastforce
    then have "y \<in> set (dependents g d)" "y \<notin> set cone" "y \<in> set c" using n by auto
    then have "y \<in> w_dir ` set g - set cone" "y \<notin> w_dir ` set g - set c" by (auto simp: dependents_iff)
    then have "w_dir ` set g - set c \<subset> w_dir ` set g - set cone" using n(1) by auto
    then show ?thesis by (simp add: psubset_card_mono)
  qed
qed simp

definition expandReverseDependencyCone :: "string list \<Rightarrow> WorkspaceGraph \<Rightarrow> string list" where
  "expandReverseDependencyCone touchedDirs g = sort (cone_loop g (fold insert_new touchedDirs []) touchedDirs)"

definition computeValidationScope :: "string list \<Rightarrow> PackageLayout \<Rightarrow> WorkspaceGraph \<Rightarrow> ValidationScope" where
  "computeValidationScope changedFiles hasPackage g =
     (case find isRootTrigger changedFiles of
        Some f \<Rightarrow> WholeWorkspace (stripDotSlash f)
      | None \<Rightarrow> (let trigger = relevantScopes hasPackage changedFiles in
                 Cone (expandReverseDependencyCone trigger g) trigger))"

definition scopesForValidationScope :: "ValidationScope \<Rightarrow> string list" where
  "scopesForValidationScope s = (case s of WholeWorkspace _ \<Rightarrow> [''.''] | Cone packages _ \<Rightarrow> packages)"

section \<open>Lemmas\<close>

text \<open>The specification: the directories that depend, through any number of edges, on one of a set.\<close>

definition depends_edge :: "WorkspaceGraph \<Rightarrow> string \<Rightarrow> string \<Rightarrow> bool" where
  "depends_edge g d e \<longleftrightarrow> (\<exists>p \<in> set g. w_dir p = e \<and> d \<in> set (dependsOn p))"

definition affected :: "WorkspaceGraph \<Rightarrow> string set \<Rightarrow> string set" where
  "affected g ds = {e. \<exists>d \<in> ds. (depends_edge g)\<^sup>*\<^sup>* d e}"

lemma set_insert_new [simp]: "set (insert_new x xs) = insert x (set xs)"
  by (auto simp: insert_new_def)

lemma distinct_insert_new [simp]: "distinct xs \<Longrightarrow> distinct (insert_new x xs)"
  by (simp add: insert_new_def)

lemma fold_insert_new: "set (fold insert_new xs ys) = set xs \<union> set ys" "distinct ys \<Longrightarrow> distinct (fold insert_new xs ys)"
  by (induction xs arbitrary: ys) auto

text \<open>
  The loop's invariant: what is seen is affected, and whatever depends on a directory that was
  seen and left the queue was seen too.
\<close>

lemma cone_loop_spec:
  assumes "set queue \<subseteq> set cone" and "set cone \<subseteq> affected g ds" and "ds \<subseteq> set cone" and "distinct cone"
    and "\<forall>d \<in> set cone - set queue. \<forall>e. depends_edge g d e \<longrightarrow> e \<in> set cone"
  shows "distinct (cone_loop g cone queue) \<and> set (cone_loop g cone queue) = affected g ds"
  using assms
proof (induction g cone queue rule: cone_loop.induct)
  case (1 g cone)
  have "e \<in> set cone" if "(depends_edge g)\<^sup>*\<^sup>* d e" "d \<in> ds" for d e
    using that(1) by (induction rule: rtranclp_induct) (use 1 that(2) in auto)
  then have "affected g ds \<subseteq> set cone" by (auto simp: affected_def)
  then show ?case using 1 by auto
next
  case (2 g cone d queue)
  obtain c q where v: "visit (dependents g d) cone queue = (c, q)" by (metis surj_pair)
  obtain new where n: "c = cone @ new" "q = queue @ new" "set c = set cone \<union> set (dependents g d)"
      "set new \<inter> set cone = {}" "distinct new"
    using visit_spec[OF v] by blast
  have edge: "e \<in> set (dependents g d) \<longleftrightarrow> depends_edge g d e" for e by (simp add: dependents_iff depends_edge_def)
  have "d \<in> affected g ds" using "2.prems"(1,2) by auto
  then have "e \<in> affected g ds" if "depends_edge g d e" for e
    using that by (auto simp: affected_def intro: rtranclp.rtrancl_into_rtrancl)
  then have aff: "set c \<subseteq> affected g ds" using n(3) edge "2.prems"(2) by auto
  have closed: "\<forall>x \<in> set c - set q. \<forall>e. depends_edge g x e \<longrightarrow> e \<in> set c"
  proof (intro ballI allI impI)
    fix x e assume x: "x \<in> set c - set q" and e: "depends_edge g x e"
    show "e \<in> set c"
    proof (cases "x = d")
      case True
      then show ?thesis using e edge n(3) by blast
    next
      case False
      then have "x \<in> set cone - set (d # queue)" using x n(1,2) by auto
      then have "e \<in> set cone" using "2.prems"(5) e by blast
      then show ?thesis by (simp add: n(1))
    qed
  qed
  have "distinct (cone_loop g c q) \<and> set (cone_loop g c q) = affected g ds"
  proof (rule "2.IH"[OF v[symmetric] refl])
    show "set q \<subseteq> set c" using "2.prems"(1) n(1,2) by auto
    show "ds \<subseteq> set c" using "2.prems"(3) n(1) by auto
    show "distinct c" using "2.prems"(4) n(1,4,5) by auto
  qed (fact aff closed)+
  then show ?case using v by simp
qed

lemma cone_spec:
  "distinct (expandReverseDependencyCone ts g) \<and> sorted (expandReverseDependencyCone ts g) \<and>
   set (expandReverseDependencyCone ts g) = affected g (set ts)"
proof -
  have "distinct (cone_loop g (fold insert_new ts []) ts) \<and> set (cone_loop g (fold insert_new ts []) ts) = affected g (set ts)"
    by (rule cone_loop_spec) (auto simp: fold_insert_new affected_def)
  then show ?thesis by (simp add: expandReverseDependencyCone_def)
qed

text \<open>A directory and everything above it.\<close>

definition above :: "string \<Rightarrow> string \<Rightarrow> bool" where
  "above d s \<longleftrightarrow> s = d \<or> (\<exists>r. d = s @ ''/'' @ r)"

definition top_dir :: "string \<Rightarrow> bool" where
  "top_dir d \<longleftrightarrow> d = [] \<or> d = ''.'' \<or> d = ''/''"

lemma parent_split: "CHR ''/'' \<in> set d \<Longrightarrow> \<exists>t. d = parent_dir d @ ''/'' @ t \<and> CHR ''/'' \<notin> set t"
proof -
  assume "CHR ''/'' \<in> set d"
  then obtain p t where d: "d = p @ CHR ''/'' # t" "CHR ''/'' \<notin> set t" by (meson split_list_last)
  then have "dropWhile (\<lambda>c. c \<noteq> CHR ''/'') (rev d) = CHR ''/'' # rev p"
    by (simp add: dropWhile_append3 dropWhile_append)
  then show ?thesis using d by (auto simp: parent_dir_def)
qed

lemma above_parent:
  assumes "CHR ''/'' \<in> set d"
  shows "above d s \<longleftrightarrow> s = d \<or> above (parent_dir d) s"
proof
  obtain t where d: "d = parent_dir d @ CHR ''/'' # t" and t: "CHR ''/'' \<notin> set t"
    using parent_split[OF assms] by auto
  assume "above d s"
  then consider "s = d" | r where "d = s @ CHR ''/'' # r" by (auto simp: above_def)
  then show "s = d \<or> above (parent_dir d) s"
  proof cases
    case 2
    then have "s @ CHR ''/'' # r = parent_dir d @ CHR ''/'' # t" using d by simp
    then show ?thesis
      using t by (auto simp: append_eq_append_conv2 above_def Cons_eq_append_conv append_eq_Cons_conv dest: sym)
  qed simp
next
  obtain t where "d = parent_dir d @ CHR ''/'' # t" using parent_split[OF assms] by auto
  moreover assume "s = d \<or> above (parent_dir d) s"
  ultimately show "above d s" by (auto simp: above_def)
qed

lemma above_top: "top_dir d \<Longrightarrow> above d s \<Longrightarrow> top_dir s"
  by (auto simp: top_dir_def above_def Cons_eq_append_conv append_eq_Cons_conv)

lemma above_shorter: "above d s \<Longrightarrow> length s \<le> length d"
  by (auto simp: above_def)

lemma nearest_up_some:
  "nearest_up has d = Some s \<Longrightarrow> above d s \<and> has s \<and> (\<forall>s'. above d s' \<and> length s < length s' \<longrightarrow> \<not> has s')"
proof (induction has d rule: nearest_up.induct)
  case (1 has d)
  have nt: "\<not> top_dir d" using "1.prems" by (subst (asm) nearest_up.simps) (auto simp: top_dir_def split: if_splits)
  show ?case
  proof (cases "has d")
    case True
    then have "s = d" using "1.prems" nt by (simp add: nearest_up.simps[of has d] top_dir_def)
    then show ?thesis using True above_shorter by (auto simp: above_def)
  next
    case False
    then have slash: "CHR ''/'' \<in> set d" and rest: "nearest_up has (parent_dir d) = Some s"
      using "1.prems" nt by (auto simp: nearest_up.simps[of has d] top_dir_def split: if_splits)
    then show ?thesis using "1.IH" False nt by (auto simp: above_parent[OF slash] top_dir_def)
  qed
qed

lemma nearest_up_none: "nearest_up has d = None \<Longrightarrow> above d s \<Longrightarrow> \<not> top_dir s \<Longrightarrow> \<not> has s"
proof (induction has d rule: nearest_up.induct)
  case (1 has d)
  have nt: "\<not> top_dir d" using above_top "1.prems"(2,3) by blast
  have nh: "\<not> has d" using "1.prems"(1) nt by (simp add: nearest_up.simps[of has d] top_dir_def split: if_splits)
  show ?case
  proof (cases "CHR ''/'' \<in> set d")
    case slash: True
    have "nearest_up has (parent_dir d) = None"
      using "1.prems"(1) nt nh slash by (simp add: nearest_up.simps[of has d] top_dir_def)
    then show ?thesis using "1.IH" "1.prems"(2,3) nt nh slash by (auto simp: above_parent[OF slash] top_dir_def)
  next
    case False
    then have "s = d" using "1.prems"(2) by (auto simp: above_def)
    then show ?thesis using nh by simp
  qed
qed

lemma relevant_scopes:
  "set (relevantScopes has fs) =
     (let ss = {s. \<exists>f \<in> set fs. nearestPackageScope has f = Some s} in
      if ss = {} \<and> has ''.'' then {''.''} else ss)"
  "distinct (relevantScopes has fs)"
proof -
  let ?step = "\<lambda>f s. case nearestPackageScope has f of None \<Rightarrow> s | Some d \<Rightarrow> insert_new d s"
  have s: "set (fold ?step fs ys) = {s. \<exists>f \<in> set fs. nearestPackageScope has f = Some s} \<union> set ys" for ys
    by (induction fs arbitrary: ys) (auto split: option.splits)
  have d: "distinct ys \<Longrightarrow> distinct (fold ?step fs ys)" for ys
    by (induction fs arbitrary: ys) (auto split: option.splits)
  have e: "fold ?step fs [] = [] \<longleftrightarrow> {s. \<exists>f \<in> set fs. nearestPackageScope has f = Some s} = {}"
    unfolding set_empty[symmetric] using s[of "[]"] by simp
  show "set (relevantScopes has fs) = (let ss = {s. \<exists>f \<in> set fs. nearestPackageScope has f = Some s} in
      if ss = {} \<and> has ''.'' then {''.''} else ss)"
    using s[of "[]"] e by (simp add: relevantScopes_def Let_def)
  show "distinct (relevantScopes has fs)" using d[of "[]"] by (simp add: relevantScopes_def Let_def)
qed

section \<open>Properties\<close>

text \<open>
  C19. A change validates exactly the packages it can break: without a root trigger, the scopes
  are, each once and in order, the packages that depend, through any chain of declared
  dependencies, on the nearest package of a changed file, or on the root package when no changed
  file lies in a package.
\<close>

theorem validated_scopes_exact:
  assumes "\<forall>f \<in> set files. \<not> isRootTrigger f"
    and "scopes = scopesForValidationScope (computeValidationScope files has g)"
  shows "sorted scopes \<and> distinct scopes \<and>
     set scopes = affected g
       (let ss = {s. \<exists>f \<in> set files. nearestPackageScope has f = Some s} in if ss = {} \<and> has ''.'' then {''.''} else ss)"
proof -
  have "find isRootTrigger files = None" using assms(1) by (simp add: find_None_iff)
  then have "scopes = expandReverseDependencyCone (relevantScopes has files) g"
    by (simp add: assms(2) computeValidationScope_def scopesForValidationScope_def Let_def)
  then show ?thesis using cone_spec[of "relevantScopes has files" g] by (simp add: relevant_scopes)
qed

text \<open>
  A changed file belongs to the innermost package around it: the scope found is a package,
  holds the file, and no deeper directory around the file is a package; when only the root
  answers, no directory around the file is a package.
\<close>

theorem innermost_package:
  assumes "nearestPackageScope has f = Some s"
  shows "has s \<and>
     (s \<noteq> ''.'' \<longrightarrow> (\<exists>r. stripDotSlash f = s @ ''/'' @ r)) \<and>
     (\<forall>s' r. stripDotSlash f = s' @ ''/'' @ r \<and> length s < length s' \<and> \<not> top_dir s' \<longrightarrow> \<not> has s')"
proof -
  let ?c = "stripDotSlash f"
  let ?d = "if CHR ''/'' \<in> set ?c then parent_dir ?c else ''.''"
  have inside: "above ?d s' \<longleftrightarrow> (\<exists>r. ?c = s' @ ''/'' @ r)" if "CHR ''/'' \<in> set ?c" for s'
    using above_parent[OF that, of s'] parent_split[OF that] that
    by (auto simp: above_def)
  have slash: "CHR ''/'' \<in> set ?c" if "?c = s' @ ''/'' @ r" for s' r using that by (metis in_set_conv_decomp append_Cons append_Nil)
  show ?thesis
  proof (cases "nearest_up has ?d")
    case (Some x)
    then have x: "x = s" using assms by (simp add: nearestPackageScope_def Let_def split: if_splits)
    have nt: "CHR ''/'' \<in> set ?c"
      using Some by (rule_tac ccontr) (simp add: nearest_up.simps)
    show ?thesis using nearest_up_some[OF Some] x inside[OF nt] by blast
  next
    case None
    then have "s = ''.''" "has ''.''" using assms by (auto simp: nearestPackageScope_def Let_def split: if_splits)
    then show ?thesis using nearest_up_none[OF None] inside slash by blast
  qed
qed

section \<open>Witnesses\<close>

definition toy_graph :: WorkspaceGraph where
  "toy_graph = [\<lparr>w_dir = ''a'', dependsOn = []\<rparr>, \<lparr>w_dir = ''b'', dependsOn = [''a'']\<rparr>,
                \<lparr>w_dir = ''c'', dependsOn = [''b'', ''a'']\<rparr>, \<lparr>w_dir = ''d'', dependsOn = []\<rparr>]"

definition toy_layout :: PackageLayout where
  "toy_layout d \<longleftrightarrow> d \<in> {''a'', ''b'', ''c'', ''d'', ''.''}"

theorem validated_scopes_exact_witness:
  "scopesForValidationScope (computeValidationScope [''a/src/x.ts''] toy_layout toy_graph) = [''a'', ''b'', ''c''] \<and>
   {''a'', ''b'', ''c''} = affected toy_graph {''a''}"
proof -
  let ?fs = "[''a/src/x.ts'']"
  have no: "\<forall>f \<in> set ?fs. \<not> isRootTrigger f" by code_simp
  have near: "nearestPackageScope toy_layout ''a/src/x.ts'' = Some ''a''" by code_simp
  have run: "scopesForValidationScope (computeValidationScope ?fs toy_layout toy_graph) = [''a'', ''b'', ''c'']" by code_simp
  show ?thesis using validated_scopes_exact[OF no refl, of toy_layout toy_graph] run near by (simp add: Let_def)
qed

theorem innermost_package_witness:
  "nearestPackageScope toy_layout ''./b/src/y.ts'' = Some ''b'' \<and> \<not> toy_layout ''b/src''"
proof -
  have n: "nearestPackageScope toy_layout ''./b/src/y.ts'' = Some ''b''" by code_simp
  have c: "stripDotSlash ''./b/src/y.ts'' = ''b/src'' @ ''/'' @ ''y.ts''" by code_simp
  have "\<not> top_dir ''b/src''" by (simp add: top_dir_def)
  then show ?thesis using innermost_package[OF n] n c by auto
qed

end
