(* ===== verification/Effects.thy ===== *)
theory Effects
  imports Prelude
begin

text \<open>
  Code that awaits calls of its environment: a computation threads the world and the log of the
  calls made so far, and ends with a value or with the message of what it threw.

  A call of the environment is a function of the world, which it may change; it is logged when
  it is made, whether it throws or not. A read of the environment (the clock) is not logged.
\<close>

type_synonym ('w, 'c, 'a) io = "'w \<times> 'c list \<Rightarrow> (string + 'a) \<times> ('w \<times> 'c list)"

type_synonym ('w, 'a) env = "'w \<Rightarrow> (string + 'a) \<times> 'w"

definition io_return :: "'a \<Rightarrow> ('w, 'c, 'a) io" where
  "io_return x = (\<lambda>s. (Inr x, s))"

definition io_throw :: "string \<Rightarrow> ('w, 'c, 'a) io" where
  "io_throw e = (\<lambda>s. (Inl e, s))"

definition io_bind :: "('w, 'c, 'a) io \<Rightarrow> ('a \<Rightarrow> ('w, 'c, 'b) io) \<Rightarrow> ('w, 'c, 'b) io" where
  "io_bind m f = (\<lambda>s. case m s of (Inl e, t) \<Rightarrow> (Inl e, t) | (Inr x, t) \<Rightarrow> f x t)"

text \<open>\<open>try { ... } catch (error) { ... }\<close>.\<close>

definition io_catch :: "('w, 'c, 'a) io \<Rightarrow> (string \<Rightarrow> ('w, 'c, 'a) io) \<Rightarrow> ('w, 'c, 'a) io" where
  "io_catch m h = (\<lambda>s. case m s of (Inl e, t) \<Rightarrow> h e t | (Inr x, t) \<Rightarrow> (Inr x, t))"

definition io_call :: "'c \<Rightarrow> ('w, 'a) env \<Rightarrow> ('w, 'c, 'a) io" where
  "io_call c f = (\<lambda>(w, l). case f w of (r, w') \<Rightarrow> (r, (w', l @ [c])))"

definition io_read :: "('w \<Rightarrow> 'a \<times> 'w) \<Rightarrow> ('w, 'c, 'a) io" where
  "io_read f = (\<lambda>(w, l). case f w of (x, w') \<Rightarrow> (Inr x, (w', l)))"

definition io_of_sum :: "string + 'a \<Rightarrow> ('w, 'c, 'a) io" where
  "io_of_sum r = (\<lambda>s. (r, s))"

section \<open>Lemmas\<close>

named_theorems io_simps \<open>how a computation ends, read backwards\<close>

lemma io_return_iff [io_simps]: "io_return x s = (Inr y, t) \<longleftrightarrow> y = x \<and> t = s"
  by (auto simp: io_return_def)

lemma io_return_no_throw [io_simps]: "io_return x s = (Inl e, t) \<longleftrightarrow> False"
  by (simp add: io_return_def)

lemma io_throw_iff [io_simps]: "io_throw e s = (r, t) \<longleftrightarrow> r = Inl e \<and> t = s"
  by (auto simp: io_throw_def)

lemma io_bind_iff [io_simps]:
  "io_bind m f s = (Inr y, t) \<longleftrightarrow> (\<exists>x u. m s = (Inr x, u) \<and> f x u = (Inr y, t))"
  by (auto simp: io_bind_def split: prod.splits sum.splits)

lemma io_bind_throw_iff [io_simps]:
  "io_bind m f s = (Inl e, t) \<longleftrightarrow> m s = (Inl e, t) \<or> (\<exists>x u. m s = (Inr x, u) \<and> f x u = (Inl e, t))"
  by (auto simp: io_bind_def split: prod.splits sum.splits)

lemma io_call_iff [io_simps]:
  "io_call c f (w, l) = (r, (w', l')) \<longleftrightarrow> f w = (r, w') \<and> l' = l @ [c]"
  by (auto simp: io_call_def split: prod.splits)

lemma io_read_iff [io_simps]:
  "io_read f (w, l) = (Inr x, (w', l')) \<longleftrightarrow> f w = (x, w') \<and> l' = l"
  by (auto simp: io_read_def split: prod.splits)

lemma io_of_sum_iff [io_simps]: "io_of_sum r s = (r', t) \<longleftrightarrow> r' = r \<and> t = s"
  by (auto simp: io_of_sum_def)

text \<open>What holds of a log with every call a computation may make.\<close>

definition calls_in :: "('w, 'c, 'a) io \<Rightarrow> 'c set \<Rightarrow> bool" where
  "calls_in m C \<longleftrightarrow> (\<forall>w l. \<exists>cs. snd (snd (m (w, l))) = l @ cs \<and> set cs \<subseteq> C)"

lemma calls_in_return [intro!]: "calls_in (io_return x) C" "calls_in (io_throw e) C" "calls_in (io_of_sum r) C"
  by (auto simp: calls_in_def io_return_def io_throw_def io_of_sum_def)

lemma calls_in_read [intro!]: "calls_in (io_read f) C"
  by (auto simp: calls_in_def io_read_def split: prod.splits)

lemma calls_in_call [intro]: "c \<in> C \<Longrightarrow> calls_in (io_call c f) C"
  by (auto simp: calls_in_def io_call_def split: prod.splits)

lemma calls_in_bind [intro]:
  assumes "calls_in m C" and "\<And>x. calls_in (f x) C"
  shows "calls_in (io_bind m f) C"
  unfolding calls_in_def
proof (intro allI)
  fix w l
  obtain r w' l' where m: "m (w, l) = (r, (w', l'))" by (metis surj_pair)
  obtain cs where cs: "l' = l @ cs" "set cs \<subseteq> C" using assms(1) m unfolding calls_in_def by (metis snd_conv)
  show "\<exists>cs. snd (snd (io_bind m f (w, l))) = l @ cs \<and> set cs \<subseteq> C"
  proof (cases r)
    case (Inr x)
    obtain ds where "snd (snd (f x (w', l'))) = l' @ ds" "set ds \<subseteq> C" using assms(2) unfolding calls_in_def by blast
    then show ?thesis using m cs Inr by (intro exI[of _ "cs @ ds"]) (auto simp: io_bind_def)
  qed (use m cs in \<open>auto simp: io_bind_def\<close>)
qed

lemma calls_in_catch [intro]:
  assumes "calls_in m C" and "\<And>e. calls_in (h e) C"
  shows "calls_in (io_catch m h) C"
  unfolding calls_in_def
proof (intro allI)
  fix w l
  obtain r w' l' where m: "m (w, l) = (r, (w', l'))" by (metis surj_pair)
  obtain cs where cs: "l' = l @ cs" "set cs \<subseteq> C" using assms(1) m unfolding calls_in_def by (metis snd_conv)
  show "\<exists>cs. snd (snd (io_catch m h (w, l))) = l @ cs \<and> set cs \<subseteq> C"
  proof (cases r)
    case (Inl e)
    obtain ds where "snd (snd (h e (w', l'))) = l' @ ds" "set ds \<subseteq> C" using assms(2) unfolding calls_in_def by blast
    then show ?thesis using m cs Inl by (intro exI[of _ "cs @ ds"]) (auto simp: io_catch_def)
  qed (use m cs in \<open>auto simp: io_catch_def\<close>)
qed

text \<open>The values a computation can end with, in some world.\<close>

definition returns :: "('w, 'c, 'a) io \<Rightarrow> 'a \<Rightarrow> bool" where
  "returns m x \<longleftrightarrow> (\<exists>s t. m s = (Inr x, t))"

lemma returns_call: "returns (io_call c f) x \<longleftrightarrow> (\<exists>u u'. f u = (Inr x, u'))"
  by (auto simp: returns_def io_call_iff)

lemma returns_return: "returns (io_return y) x \<longleftrightarrow> x = y"
  by (auto simp: returns_def io_return_iff)

lemma returns_of_sum: "returns (io_of_sum r) x \<longleftrightarrow> r = Inr x"
  by (auto simp: returns_def io_of_sum_iff)

lemma returns_bind: "returns (io_bind m f) y \<Longrightarrow> \<exists>x. returns m x \<and> returns (f x) y"
  unfolding returns_def io_bind_iff by blast

lemma calls_in_bind_returns:
  assumes "calls_in m C" and "\<And>x. returns m x \<Longrightarrow> calls_in (f x) C"
  shows "calls_in (io_bind m f) C"
proof -
  have "calls_in (io_bind m (\<lambda>x. if returns m x then f x else io_throw [])) C"
    by (rule calls_in_bind[OF assms(1)]) (use assms(2) in auto)
  moreover have "io_bind m (\<lambda>x. if returns m x then f x else io_throw []) = io_bind m f"
    by (auto simp: io_bind_def returns_def fun_eq_iff split: prod.splits sum.splits)
  ultimately show ?thesis by simp
qed

lemma calls_in_if: "calls_in m C \<Longrightarrow> calls_in k C \<Longrightarrow> calls_in (if b then m else k) C"
  by simp

lemma calls_in_option:
  "calls_in m C \<Longrightarrow> (\<And>x. calls_in (f x) C) \<Longrightarrow> calls_in (case v of None \<Rightarrow> m | Some x \<Rightarrow> f x) C"
  by (cases v) simp_all

lemmas calls_in_intros = calls_in_bind calls_in_catch calls_in_if calls_in_option calls_in_return calls_in_read

lemma calls_in_mono: "calls_in m C \<Longrightarrow> C \<subseteq> D \<Longrightarrow> calls_in m D"
  unfolding calls_in_def by (meson order_trans)

lemma calls_inE:
  assumes "calls_in m C" and "m (w, l) = (r, (w', l'))"
  obtains cs where "l' = l @ cs" and "set cs \<subseteq> C"
  using assms unfolding calls_in_def by (metis snd_conv)

end
