(* ===== verification/Host_Capability.thy ===== *)
theory Host_Capability
  imports Prelude
begin

text \<open>
  What a host may run: \<open>packages/worker/src/engine/host-capability-profile.ts\<close> and the list of
  runners of \<open>runner-types.ts\<close>. A profile is an untrusted value; the TOON codec is a pair of
  parameters, and the file under the state root is its text, if there is one.
\<close>

section \<open>Runners\<close>

datatype Runner = Claude | Codex | Hermes | Opencode | ClaudeMinimax

definition runners :: "Runner list" where
  "runners = [Claude, Codex, Hermes, Opencode, ClaudeMinimax]"

fun runner_text :: "Runner \<Rightarrow> string" where
  "runner_text Claude = ''claude''"
| "runner_text Codex = ''codex''"
| "runner_text Hermes = ''hermes''"
| "runner_text Opencode = ''opencode''"
| "runner_text ClaudeMinimax = ''claude-minimax''"

definition runner_of :: "string \<Rightarrow> Runner option" where
  "runner_of s = find (\<lambda>r. runner_text r = s) runners"

definition isRunner :: "string \<Rightarrow> bool" where
  "isRunner s \<longleftrightarrow> s \<in> runner_text ` set runners"

section \<open>Gate weights\<close>

datatype GateWeightClass = LightCone | HeavyCone | FullWorkspace

definition GATE_WEIGHT_CLASSES :: "GateWeightClass list" where
  "GATE_WEIGHT_CLASSES = [LightCone, HeavyCone, FullWorkspace]"

fun weight_text :: "GateWeightClass \<Rightarrow> string" where
  "weight_text LightCone = ''light-cone''"
| "weight_text HeavyCone = ''heavy-cone''"
| "weight_text FullWorkspace = ''full-workspace''"

definition weight_of :: "string \<Rightarrow> GateWeightClass option" where
  "weight_of s = find (\<lambda>c. weight_text c = s) GATE_WEIGHT_CLASSES"

text \<open>\<open>GATE_WEIGHT_CLASSES.indexOf\<close>: the classes are ordered by their place in the list.\<close>

fun weight_index :: "GateWeightClass \<Rightarrow> nat" where
  "weight_index LightCone = 0"
| "weight_index HeavyCone = 1"
| "weight_index FullWorkspace = 2"

instantiation GateWeightClass :: linorder
begin

definition less_eq_GateWeightClass :: "GateWeightClass \<Rightarrow> GateWeightClass \<Rightarrow> bool" where
  "less_eq_GateWeightClass a b \<longleftrightarrow> weight_index a \<le> weight_index b"

definition less_GateWeightClass :: "GateWeightClass \<Rightarrow> GateWeightClass \<Rightarrow> bool" where
  "less_GateWeightClass a b \<longleftrightarrow> weight_index a < weight_index b"

instance
proof
  fix a b c :: GateWeightClass
  show "(a < b) = (a \<le> b \<and> \<not> b \<le> a)" by (auto simp: less_eq_GateWeightClass_def less_GateWeightClass_def)
  show "a \<le> a" by (simp add: less_eq_GateWeightClass_def)
  show "a \<le> b \<Longrightarrow> b \<le> c \<Longrightarrow> a \<le> c" by (simp add: less_eq_GateWeightClass_def)
  show "a \<le> b \<Longrightarrow> b \<le> a \<Longrightarrow> a = b" by (cases a; cases b) (simp_all add: less_eq_GateWeightClass_def)
  show "a \<le> b \<or> b \<le> a" by (auto simp: less_eq_GateWeightClass_def)
qed

end

section \<open>Profiles\<close>

record HostCapabilityProfile =
  machineIdHash :: string
  p_runners :: "Runner list"
  p_maxGateWeight :: GateWeightClass
  defaultFleetWidth :: int

datatype capability_source = FromProfile | PermissiveDefault

record ResolvedHostCapabilities =
  r_runners :: "Runner list"
  r_maxGateWeight :: GateWeightClass
  r_defaultFleetWidth :: int
  r_source :: capability_source

record HostGateAdmission =
  gate_admitted :: bool
  gate_verdict :: string
  required :: GateWeightClass
  maximum :: GateWeightClass

definition hex_lower :: "char \<Rightarrow> bool" where
  "hex_lower c \<longleftrightarrow> is_digit c \<or> c \<in> set ''abcdef''"

definition machine_hash_ok :: "jsval \<Rightarrow> bool" where
  "machine_hash_ok v \<longleftrightarrow> (case v of JStr s \<Rightarrow> length s = 12 \<and> list_all hex_lower s | _ \<Rightarrow> False)"

definition runner_val :: "jsval \<Rightarrow> Runner option" where
  "runner_val v = (case v of JStr s \<Rightarrow> runner_of s | _ \<Rightarrow> None)"

fun runners_val :: "jsval \<Rightarrow> Runner list option" where
  "runners_val (JArr vs) =
     (if vs = [] \<or> list_ex (\<lambda>v. runner_val v = None) vs then None
      else Some (map (\<lambda>v. the (runner_val v)) vs))"
| "runners_val _ = None"

definition weight_val :: "jsval \<Rightarrow> GateWeightClass option" where
  "weight_val v = (case v of JStr s \<Rightarrow> weight_of s | _ \<Rightarrow> None)"

definition width_val :: "jsval \<Rightarrow> int option" where
  "width_val v =
     (case v of JNum x \<Rightarrow> if isSafeInteger x \<and> int_of_num x > 0 then Some (int_of_num x) else None
              | _ \<Rightarrow> None)"

text \<open>\<open>[...new Set(xs)]\<close>: each value once, where it first stood.\<close>

definition unique :: "'a list \<Rightarrow> 'a list" where
  "unique xs = fold (\<lambda>x seen. if x \<in> set seen then seen else seen @ [x]) xs []"

definition validateHostCapabilityProfile :: "jsval \<Rightarrow> string + HostCapabilityProfile" where
  "validateHostCapabilityProfile v =
     (if \<not> is_record v then Inl ''host capability profile must be a record''
      else if \<not> machine_hash_ok (get_prop v ''machineIdHash'') then
        Inl ''host capability profile machineIdHash must be a 12-character lowercase hex hash''
      else (case runners_val (get_prop v ''runners'') of
        None \<Rightarrow> Inl ''host capability profile runners must contain supported runners''
      | Some rs \<Rightarrow> (case weight_val (get_prop v ''maxGateWeight'') of
        None \<Rightarrow> Inl ''host capability profile maxGateWeight is invalid''
      | Some w \<Rightarrow> (case width_val (get_prop v ''defaultFleetWidth'') of
        None \<Rightarrow> Inl ''host capability profile defaultFleetWidth must be a positive integer''
      | Some n \<Rightarrow> Inr \<lparr>machineIdHash = str_of (get_prop v ''machineIdHash''), p_runners = unique rs,
                     p_maxGateWeight = w, defaultFleetWidth = n\<rparr>))))"

text \<open>The profile as the value that is encoded.\<close>

definition profile_val :: "HostCapabilityProfile \<Rightarrow> jsval" where
  "profile_val p =
     JObj [(''machineIdHash'', JStr (machineIdHash p)),
           (''runners'', JArr (map (\<lambda>r. JStr (runner_text r)) (p_runners p))),
           (''maxGateWeight'', JStr (weight_text (p_maxGateWeight p))),
           (''defaultFleetWidth'', JNum (IntNum (defaultFleetWidth p)))]"

definition resolveHostCapabilities :: "jsval \<Rightarrow> string + ResolvedHostCapabilities" where
  "resolveHostCapabilities profile =
     (if profile = JUndefined then
        Inr \<lparr>r_runners = runners, r_maxGateWeight = FullWorkspace, r_defaultFleetWidth = 2,
             r_source = PermissiveDefault\<rparr>
      else (case validateHostCapabilityProfile profile of
        Inl e \<Rightarrow> Inl e
      | Inr p \<Rightarrow> Inr \<lparr>r_runners = p_runners p, r_maxGateWeight = p_maxGateWeight p,
                      r_defaultFleetWidth = defaultFleetWidth p, r_source = FromProfile\<rparr>))"

definition evaluateHostGateAdmission :: "jsval \<Rightarrow> GateWeightClass \<Rightarrow> string + HostGateAdmission" where
  "evaluateHostGateAdmission profile req =
     (case resolveHostCapabilities profile of
        Inl e \<Rightarrow> Inl e
      | Inr caps \<Rightarrow>
          (let adm = (req \<le> r_maxGateWeight caps) in
           Inr \<lparr>gate_admitted = adm, gate_verdict = (if adm then ''admitted'' else ''refused-over-class''),
                required = req, maximum = r_maxGateWeight caps\<rparr>))"

section \<open>The stored profile\<close>

text \<open>\<open>None\<close> in the file's place is \<open>ENOENT\<close>; the decoder may throw.\<close>

definition readHostCapabilityProfile ::
    "(string \<Rightarrow> string + jsval) \<Rightarrow> string option \<Rightarrow> string + HostCapabilityProfile option" where
  "readHostCapabilityProfile decode file =
     (case file of
        None \<Rightarrow> Inr None
      | Some t \<Rightarrow> (case decode t of
          Inl e \<Rightarrow> Inl e
        | Inr v \<Rightarrow> (case validateHostCapabilityProfile v of Inl e \<Rightarrow> Inl e | Inr p \<Rightarrow> Inr (Some p))))"

text \<open>The event appended to the singleton lane after the file was replaced.\<close>

record registered_event =
  machine_id_hash :: string
  ev_runners :: "string list"
  max_gate_weight :: string
  default_fleet_width :: int

definition writeHostCapabilityProfile ::
    "(jsval \<Rightarrow> string) \<Rightarrow> jsval \<Rightarrow> string + HostCapabilityProfile \<times> string \<times> registered_event" where
  "writeHostCapabilityProfile encode profile =
     (case validateHostCapabilityProfile profile of
        Inl e \<Rightarrow> Inl e
      | Inr p \<Rightarrow> Inr (p, encode (profile_val p),
          \<lparr>machine_id_hash = machineIdHash p, ev_runners = map runner_text (p_runners p),
           max_gate_weight = weight_text (p_maxGateWeight p), default_fleet_width = defaultFleetWidth p\<rparr>))"

section \<open>Lemmas\<close>

lemma runner_of_text [simp]: "runner_of (runner_text r) = Some r"
  by (cases r) (simp_all add: runner_of_def runners_def)

lemma weight_of_text [simp]: "weight_of (weight_text c) = Some c"
  by (cases c) (simp_all add: weight_of_def GATE_WEIGHT_CLASSES_def)

lemma isRunner_iff: "isRunner s \<longleftrightarrow> runner_of s \<noteq> None"
  by (auto simp: isRunner_def runner_of_def find_None_iff)

lemma unique_spec: "distinct (unique xs) \<and> set (unique xs) = set xs"
proof -
  have "distinct ys \<Longrightarrow> distinct (fold (\<lambda>x seen. if x \<in> set seen then seen else seen @ [x]) xs ys) \<and>
      set (fold (\<lambda>x seen. if x \<in> set seen then seen else seen @ [x]) xs ys) = set xs \<union> set ys" for ys :: "'a list"
    by (induction xs arbitrary: ys) auto
  from this[of "[]"] show ?thesis by (simp add: unique_def)
qed

lemma unique_distinct: "distinct xs \<Longrightarrow> unique xs = xs"
proof -
  have "distinct (ys @ xs) \<Longrightarrow> fold (\<lambda>x seen. if x \<in> set seen then seen else seen @ [x]) xs ys = ys @ xs"
    for ys :: "'a list" by (induction xs arbitrary: ys) auto
  moreover assume "distinct xs"
  ultimately show ?thesis by (simp add: unique_def)
qed

text \<open>What every validated profile satisfies.\<close>

definition profile_ok :: "HostCapabilityProfile \<Rightarrow> bool" where
  "profile_ok p \<longleftrightarrow>
     length (machineIdHash p) = 12 \<and> list_all hex_lower (machineIdHash p) \<and>
     p_runners p \<noteq> [] \<and> distinct (p_runners p) \<and>
     0 < defaultFleetWidth p \<and> defaultFleetWidth p < 2 ^ 53"

lemma width_val_bounds: "width_val v = Some n \<Longrightarrow> 0 < n \<and> n < 2 ^ 53"
proof -
  assume w: "width_val v = Some n"
  obtain x where v: "v = JNum x" using w by (cases v) (simp_all add: width_val_def)
  have x: "isSafeInteger x" "n = int_of_num x" "0 < n" using w by (simp_all add: width_val_def v split: if_splits)
  then obtain r where r: "x = Num r" "\<bar>r\<bar> < 2 ^ 53" "of_int \<lfloor>r\<rfloor> = r"
    by (cases x) (simp_all add: isSafeInteger_def isInteger_def)
  then have "of_int n = r" using x(2) by (simp add: int_of_num_def)
  then have "(of_int n :: rat) < of_int (2 ^ 53)" using r(2) by simp
  then show ?thesis using x(3) unfolding of_int_less_iff by simp
qed

lemma validated_ok: "validateHostCapabilityProfile v = Inr p \<Longrightarrow> profile_ok p"
proof -
  assume v: "validateHostCapabilityProfile v = Inr p"
  then obtain rs w n where parts: "machine_hash_ok (get_prop v ''machineIdHash'')"
      "runners_val (get_prop v ''runners'') = Some rs" "width_val (get_prop v ''defaultFleetWidth'') = Some n"
      "p = \<lparr>machineIdHash = str_of (get_prop v ''machineIdHash''), p_runners = unique rs,
            p_maxGateWeight = w, defaultFleetWidth = n\<rparr>"
    by (auto simp: validateHostCapabilityProfile_def split: if_splits option.splits)
  have "rs \<noteq> []" using parts(2) by (cases "get_prop v ''runners''") (auto split: if_splits)
  then have "unique rs \<noteq> []" using unique_spec[of rs] by auto
  then show ?thesis
    using parts width_val_bounds[OF parts(3)] unique_spec[of rs]
    by (auto simp: profile_ok_def machine_hash_ok_def str_of_def split: jsval.splits)
qed

lemma validate_profile_val: "profile_ok p \<Longrightarrow> validateHostCapabilityProfile (profile_val p) = Inr p"
proof -
  assume ok: "profile_ok p"
  have "of_int (defaultFleetWidth p) < (of_int (2 ^ 53) :: rat)"
    using ok unfolding of_int_less_iff by (simp add: profile_ok_def)
  then have "width_val (JNum (IntNum (defaultFleetWidth p))) = Some (defaultFleetWidth p)"
    using ok by (simp add: width_val_def isSafeInteger_def isInteger_def int_of_num_def profile_ok_def)
  moreover have "runners_val (JArr (map (\<lambda>r. JStr (runner_text r)) (p_runners p))) = Some (p_runners p)"
    using ok by (auto simp: runner_val_def profile_ok_def list_ex_iff o_def)
  ultimately show ?thesis
    using ok by (simp add: validateHostCapabilityProfile_def profile_val_def machine_hash_ok_def weight_val_def
        profile_ok_def unique_distinct str_of_def get_prop_def)
qed

section \<open>Properties\<close>

text \<open>
  C32. What was registered is what is read: with a codec that decodes what it encodes, a profile
  that was accepted is read back from its file as the very profile that was returned, its
  runners each once, its width a positive safe integer.
\<close>

theorem profile_reads_back:
  assumes "writeHostCapabilityProfile encode v = Inr (p, t, ev)"
    and "decode (encode (profile_val p)) = Inr (profile_val p)"
  shows "readHostCapabilityProfile decode (Some t) = Inr (Some p) \<and> profile_ok p"
proof -
  have v: "validateHostCapabilityProfile v = Inr p" and t: "t = encode (profile_val p)"
    using assms(1) by (auto simp: writeHostCapabilityProfile_def split: sum.splits)
  show ?thesis
    using validated_ok[OF v] validate_profile_val[OF validated_ok[OF v]] assms(2)
    by (simp add: readHostCapabilityProfile_def t)
qed

section \<open>Witnesses\<close>

definition small_host :: jsval where
  "small_host = JObj [(''machineIdHash'', JStr ''0123456789ab''), (''runners'', JArr [JStr ''claude'', JStr ''codex'', JStr ''claude'']),
     (''maxGateWeight'', JStr ''heavy-cone''), (''defaultFleetWidth'', JNum (IntNum 3))]"

lemma small_host_validates:
  "validateHostCapabilityProfile small_host =
     Inr \<lparr>machineIdHash = ''0123456789ab'', p_runners = [Claude, Codex], p_maxGateWeight = HeavyCone, defaultFleetWidth = 3\<rparr>"
  by code_simp

theorem profile_reads_back_witness:
  "\<exists>p. readHostCapabilityProfile (\<lambda>_. Inr (profile_val p)) (Some ''profile'') = Inr (Some p) \<and>
     p_runners p = [Claude, Codex] \<and> profile_ok p"
proof -
  let ?p = "\<lparr>machineIdHash = ''0123456789ab'', p_runners = [Claude, Codex], p_maxGateWeight = HeavyCone, defaultFleetWidth = 3\<rparr>"
  obtain ev where w: "writeHostCapabilityProfile (\<lambda>_. ''profile'') small_host = Inr (?p, ''profile'', ev)"
    by (simp add: writeHostCapabilityProfile_def small_host_validates)
  show ?thesis
    using profile_reads_back[OF w, of "\<lambda>_. Inr (profile_val ?p)"] by (intro exI[of _ ?p]) simp
qed

end
