(* ===== verification/Gate.thy ===== *)
theory Gate
  imports Effects Validation_Cone Host_Capability "HOL-Library.Multiset"
begin

text \<open>
  The validation gate: \<open>packages/worker/src/engine/gate-executor.ts\<close>, the sinks of
  \<open>gate-sink.ts\<close> and the stage fold of \<open>gate-stage-order.ts\<close>.

  The executors, the sink and the mechanical applier are calls of the environment: each may
  throw, and each may change the world the later ones see. The clock is read, not called. Output
  is text of bytes, so the summary of a failed command is cut at 1000 bytes.
\<close>

section \<open>Constants\<close>

definition CASTLE_VALIDATION_SCHEMA :: string where
  "CASTLE_VALIDATION_SCHEMA = ''red.castle.validation.v2''"

definition FEEDBACK_SCRIPTS :: "string list" where
  "FEEDBACK_SCRIPTS = [''test'', ''typecheck'', ''lint'', ''build'']"

definition MECHANICAL_KINDS :: "string list" where
  "MECHANICAL_KINDS =
     [''formatter'', ''import-organizer'', ''lint-fix'', ''comment-typo'', ''trailing-whitespace'', ''trailing-newline'']"

definition DEFAULT_BACKPRESSURE_TIMEOUT_MS :: int where
  "DEFAULT_BACKPRESSURE_TIMEOUT_MS = 10 * 60 * 1000"

definition KILLED_EXIT_CODE :: int where
  "KILLED_EXIT_CODE = 124"

section \<open>Findings and sinks\<close>

record GateFinding =
  f_kind :: string
  description :: string
  patch :: "string option"

datatype GateSinkOutcome = Approved | SinkSkipped | SinkParked

type_synonym 'w GateSink = "GateFinding \<Rightarrow> ('w, GateSinkOutcome) env"

definition makeHeadlessGateSink :: "(GateFinding \<Rightarrow> ('w, unit) env) \<Rightarrow> 'w GateSink" where
  "makeHeadlessGateSink parkIntent =
     (\<lambda>f w. case parkIntent f w of (Inl e, w') \<Rightarrow> (Inl e, w') | (Inr _, w') \<Rightarrow> (Inr SinkParked, w'))"

definition makeInteractiveGateSink :: "(GateFinding \<Rightarrow> ('w, GateSinkOutcome) env) \<Rightarrow> 'w GateSink" where
  "makeInteractiveGateSink askIntent = askIntent"

section \<open>Checks\<close>

datatype ValidationStatus = Passed | Failed | Skipped

datatype ValidationResourceClass = Light | Heavy

record ExecResult =
  code :: jsnum
  stdout :: string
  stderr :: string

record ValidationRecord =
  schema :: string
  v_name :: string
  v_status :: ValidationStatus
  v_command :: "string option"
  exitCode :: "int option"
  durationMs :: "int option"
  summary :: "string option"

record ValidationCheck =
  c_name :: string
  c_status :: ValidationStatus
  c_record :: ValidationRecord

datatype gate_call =
    ApplyMechanical GateFinding
  | AskIntent GateFinding
  | RunFeedback "string list" ValidationResourceClass
  | RunBackpressure string string int ValidationResourceClass

record 'w RunCastleGateInput =
  worktree :: string
  changedFiles :: "string list"
  layout :: PackageLayout
  hasScript :: "string \<Rightarrow> string \<Rightarrow> bool"
  graph :: WorkspaceGraph
  findings :: "GateFinding list option"
  backpressureCommands :: "string list option"
  sink :: "'w GateSink"
  feedbackExec :: "string list \<Rightarrow> ValidationResourceClass \<Rightarrow> ('w, ExecResult) env"
  backpressureExec :: "string \<Rightarrow> string \<Rightarrow> int \<Rightarrow> ValidationResourceClass \<Rightarrow> ('w, ExecResult) env"
  applyMechanical :: "GateFinding \<Rightarrow> ('w, unit) env"
  clock :: "'w \<Rightarrow> int \<times> 'w"
  backpressureTimeoutMs :: "int option"
  hostProfile :: jsval
  gateWeight :: "GateWeightClass option"

record CastleGateResult =
  g_ok :: bool
  validationScope :: ValidationScope
  gate_checks :: "ValidationCheck list"
  sidecar :: "string list"
  sinkOutcomes :: "GateSinkOutcome list"
  mechanicalApplied :: nat
  g_admission :: HostGateAdmission

definition gateWeightForScope :: "ValidationScope \<Rightarrow> GateWeightClass" where
  "gateWeightForScope scope =
     (case scope of
        WholeWorkspace _ \<Rightarrow> FullWorkspace
      | Cone packages _ \<Rightarrow> if length packages > 1 then HeavyCone else LightCone)"

definition validationResourceClass :: "string \<Rightarrow> string \<Rightarrow> ValidationResourceClass" where
  "validationResourceClass scope script =
     (if scope = ''.'' \<and> (script = ''test'' \<or> script = ''typecheck'' \<or> script = ''build'') then Heavy else Light)"

definition is_mechanical :: "GateFinding \<Rightarrow> bool" where
  "is_mechanical f \<longleftrightarrow> f_kind f \<in> set MECHANICAL_KINDS"

definition scopeLabel :: "string \<Rightarrow> string" where
  "scopeLabel scope = (if scope = ''.'' then ''root'' else scope)"

definition scopeDir :: "string \<Rightarrow> string \<Rightarrow> string" where
  "scopeDir wt scope = (if scope = ''.'' then wt else wt @ ''/'' @ scope)"

text \<open>\<open>slice(-n)\<close>.\<close>

definition last_n :: "nat \<Rightarrow> 'a list \<Rightarrow> 'a list" where
  "last_n n xs = drop (length xs - n) xs"

definition outputSummary :: "ValidationStatus \<Rightarrow> string \<Rightarrow> string" where
  "outputSummary status output =
     (if status = Passed then ''command exited 0''
      else (let trimmed = rev (dropWhile (\<lambda>c. c = CHR 0x0A) (rev output)) in
            if trimmed = [] then ''command exited non-zero''
            else take 1000 (join '' '' (last_n 20 (split_on (CHR 0x0A) trimmed)))))"

definition nonempty :: "string option \<Rightarrow> string option" where
  "nonempty s = (if s = Some [] then None else s)"

definition validationRecord ::
    "string \<Rightarrow> ValidationStatus \<Rightarrow> string option \<Rightarrow> jsnum option \<Rightarrow> int option \<Rightarrow> string option \<Rightarrow> ValidationRecord" where
  "validationRecord name status command exit duration summ =
     \<lparr>schema = CASTLE_VALIDATION_SCHEMA, v_name = name, v_status = status, v_command = nonempty command,
      exitCode = Option.bind exit trunc_finite, durationMs = duration, summary = nonempty summ\<rparr>"

fun validation_text :: "ValidationStatus \<Rightarrow> string" where
  "validation_text Passed = ''passed''"
| "validation_text Failed = ''failed''"
| "validation_text Skipped = ''skipped''"

definition json_field :: "string \<Rightarrow> string \<Rightarrow> string" where
  "json_field k v = json_quote k @ '':'' @ v"

definition check_json :: "ValidationRecord \<Rightarrow> string" where
  "check_json r =
     ''{'' @ join '','' ([json_field ''schema'' (json_quote (schema r)), json_field ''name'' (json_quote (v_name r)),
        json_field ''status'' (json_quote (validation_text (v_status r)))] @
       (case v_command r of None \<Rightarrow> [] | Some c \<Rightarrow> [json_field ''command'' (json_quote c)]) @
       (case exitCode r of None \<Rightarrow> [] | Some n \<Rightarrow> [json_field ''exitCode'' (show_int n)]) @
       (case durationMs r of None \<Rightarrow> [] | Some n \<Rightarrow> [json_field ''durationMs'' (show_int n)]) @
       (case summary r of None \<Rightarrow> [] | Some t \<Rightarrow> [json_field ''summary'' (json_quote t)])) @ ''}''"

text \<open>What the loops accumulate: the two arrays that \<open>pushCheck\<close> grows together.\<close>

type_synonym checked = "ValidationCheck list \<times> string list"

definition pushCheck :: "ValidationCheck \<Rightarrow> checked \<Rightarrow> checked" where
  "pushCheck c acc = (fst acc @ [c], snd acc @ [check_json (c_record c)])"

definition skipped_check :: "string \<Rightarrow> string \<Rightarrow> ValidationCheck" where
  "skipped_check name summ =
     \<lparr>c_name = name, c_status = Skipped, c_record = validationRecord name Skipped None None None (Some summ)\<rparr>"

definition status_of_code :: "jsnum \<Rightarrow> ValidationStatus" where
  "status_of_code c = (if c = Num 0 then Passed else Failed)"

section \<open>The feedback scripts\<close>

definition feedback_check :: "string \<Rightarrow> string \<Rightarrow> string \<Rightarrow> ExecResult \<Rightarrow> int \<Rightarrow> ValidationCheck" where
  "feedback_check wt script scope r duration =
     (let name = script @ '':'' @ scopeLabel scope; status = status_of_code (code r) in
      \<lparr>c_name = name, c_status = status,
       c_record = validationRecord name status (Some (''pnpm -C '' @ scopeDir wt scope @ '' '' @ script))
         (Some (code r)) (Some duration) (Some (outputSummary status (stdout r @ stderr r)))\<rparr>)"

definition feedback_turn ::
    "('w, 'z) RunCastleGateInput_scheme \<Rightarrow> string \<Rightarrow> string \<Rightarrow> bool \<times> checked \<Rightarrow> ('w, gate_call, bool \<times> checked) io" where
  "feedback_turn inp script scope acc =
     (if \<not> hasScript inp scope script then
        io_return (fst acc, pushCheck (skipped_check (script @ '':'' @ scopeLabel scope) ''script missing'') (snd acc))
      else
        (let args = [''pnpm'', ''-C'', scopeDir (worktree inp) scope, script]; weight = validationResourceClass scope script in
         io_bind (io_read (clock inp)) (\<lambda>start.
         io_bind (io_call (RunFeedback args weight) (feedbackExec inp args weight)) (\<lambda>r.
         io_bind (io_read (clock inp)) (\<lambda>stop.
         io_return (fst acc \<and> status_of_code (code r) \<noteq> Failed,
                    pushCheck (feedback_check (worktree inp) script scope r (stop - start)) (snd acc)))))))"

fun feedback_scopes ::
    "('w, 'z) RunCastleGateInput_scheme \<Rightarrow> string \<Rightarrow> string list \<Rightarrow> bool \<times> checked \<Rightarrow> ('w, gate_call, bool \<times> checked) io" where
  "feedback_scopes inp script [] acc = io_return acc"
| "feedback_scopes inp script (scope # scopes) acc =
     io_bind (feedback_turn inp script scope acc) (feedback_scopes inp script scopes)"

fun feedback_scripts ::
    "('w, 'z) RunCastleGateInput_scheme \<Rightarrow> string list \<Rightarrow> string list \<Rightarrow> bool \<times> checked \<Rightarrow> ('w, gate_call, bool \<times> checked) io" where
  "feedback_scripts inp scopes [] acc = io_return acc"
| "feedback_scripts inp scopes (script # scripts) acc =
     (if scopes = [] then
        feedback_scripts inp scopes scripts
          (fst acc, pushCheck (skipped_check (script @ '':no-package'') ''no package.json'') (snd acc))
      else io_bind (feedback_scopes inp script scopes acc) (feedback_scripts inp scopes scripts))"

definition runFeedbackChecks ::
    "('w, 'z) RunCastleGateInput_scheme \<Rightarrow> string list \<Rightarrow> checked \<Rightarrow> ('w, gate_call, bool \<times> checked) io" where
  "runFeedbackChecks inp scopes acc = feedback_scripts inp scopes FEEDBACK_SCRIPTS (True, acc)"

section \<open>The operator's commands\<close>

definition backpressure_check :: "int \<Rightarrow> string \<Rightarrow> ExecResult \<Rightarrow> int \<Rightarrow> ValidationCheck" where
  "backpressure_check timeoutMs command r duration =
     (let name = ''backpressure:'' @ command; status = status_of_code (code r);
          summ = (if code r = IntNum KILLED_EXIT_CODE
                  then ''command timed out after '' @ show_int timeoutMs @ ''ms''
                  else outputSummary status (stdout r @ stderr r)) in
      \<lparr>c_name = name, c_status = status,
       c_record = validationRecord name status (Some command) (Some (code r)) (Some duration) (Some summ)\<rparr>)"

fun backpressure_loop ::
    "('w, 'z) RunCastleGateInput_scheme \<Rightarrow> int \<Rightarrow> string list \<Rightarrow> bool \<times> checked \<Rightarrow> ('w, gate_call, bool \<times> checked) io" where
  "backpressure_loop inp timeoutMs [] acc = io_return acc"
| "backpressure_loop inp timeoutMs (raw # rest) acc =
     (let command = trim raw in
      if command = [] then backpressure_loop inp timeoutMs rest acc
      else
        io_bind (io_read (clock inp)) (\<lambda>start.
        io_bind (io_call (RunBackpressure command (worktree inp) timeoutMs Heavy)
                   (backpressureExec inp command (worktree inp) timeoutMs Heavy)) (\<lambda>r.
        io_bind (io_read (clock inp)) (\<lambda>stop.
        backpressure_loop inp timeoutMs rest
          (fst acc \<and> status_of_code (code r) \<noteq> Failed,
           pushCheck (backpressure_check timeoutMs command r (stop - start)) (snd acc))))))"

definition runBackpressureChecks ::
    "('w, 'z) RunCastleGateInput_scheme \<Rightarrow> checked \<Rightarrow> ('w, gate_call, bool \<times> checked) io" where
  "runBackpressureChecks inp acc =
     backpressure_loop inp
       (case backpressureTimeoutMs inp of None \<Rightarrow> DEFAULT_BACKPRESSURE_TIMEOUT_MS | Some t \<Rightarrow> t)
       (case backpressureCommands inp of None \<Rightarrow> [] | Some cs \<Rightarrow> cs) (True, acc)"

section \<open>The gate\<close>

text \<open>The findings in order: \<open>ok\<close>, the sink's outcomes and the number applied.\<close>

fun settle_findings ::
    "('w, 'z) RunCastleGateInput_scheme \<Rightarrow> GateFinding list \<Rightarrow> bool \<times> GateSinkOutcome list \<times> nat \<Rightarrow>
     ('w, gate_call, bool \<times> GateSinkOutcome list \<times> nat) io" where
  "settle_findings inp [] acc = io_return acc"
| "settle_findings inp (f # fs) (ok, outcomes, applied) =
     (if is_mechanical f then
        io_bind (io_call (ApplyMechanical f) (applyMechanical inp f)) (\<lambda>_.
        settle_findings inp fs (ok, outcomes, applied + 1))
      else
        io_bind (io_call (AskIntent f) (sink inp f)) (\<lambda>outcome.
        settle_findings inp fs (ok \<and> outcome = Approved, outcomes @ [outcome], applied)))"

definition gate_scope :: "('w, 'z) RunCastleGateInput_scheme \<Rightarrow> ValidationScope" where
  "gate_scope inp = computeValidationScope (changedFiles inp) (layout inp) (graph inp)"

definition gate_findings :: "('w, 'z) RunCastleGateInput_scheme \<Rightarrow> GateFinding list" where
  "gate_findings inp = (case findings inp of None \<Rightarrow> [] | Some fs \<Rightarrow> fs)"

definition gate_admission :: "('w, 'z) RunCastleGateInput_scheme \<Rightarrow> string + HostGateAdmission" where
  "gate_admission inp =
     evaluateHostGateAdmission (hostProfile inp)
       (case gateWeight inp of None \<Rightarrow> gateWeightForScope (gate_scope inp) | Some w \<Rightarrow> w)"

definition runCastleGate :: "('w, 'z) RunCastleGateInput_scheme \<Rightarrow> ('w, gate_call, CastleGateResult) io" where
  "runCastleGate inp =
     io_bind (io_of_sum (gate_admission inp)) (\<lambda>adm.
     if \<not> gate_admitted adm then
       io_return \<lparr>g_ok = False, validationScope = gate_scope inp, gate_checks = [], sidecar = [],
                  sinkOutcomes = [], mechanicalApplied = 0, g_admission = adm\<rparr>
     else
       io_bind (settle_findings inp (gate_findings inp) (True, [], 0)) (\<lambda>(ok, outcomes, applied).
       io_bind (runFeedbackChecks inp (scopesForValidationScope (gate_scope inp)) ([], [])) (\<lambda>(feedbackOk, acc).
       (let ok1 = (ok \<and> feedbackOk) in
       io_bind (if feedbackOk \<and> ok1 then runBackpressureChecks inp acc else io_return (ok1, acc)) (\<lambda>(ok2, checks, side).
       io_return \<lparr>g_ok = ok2, validationScope = gate_scope inp,
                  gate_checks = checks, sidecar = side, sinkOutcomes = outcomes, mechanicalApplied = applied,
                  g_admission = adm\<rparr>)))))"

section \<open>The verdict of the stages\<close>

datatype GateStage = Feedback | Backpressure | Review

definition GATE_STAGE_ORDER :: "GateStage list" where
  "GATE_STAGE_ORDER = [Feedback, Backpressure, Review]"

fun stage_index :: "GateStage \<Rightarrow> nat" where
  "stage_index Feedback = 0"
| "stage_index Backpressure = 1"
| "stage_index Review = 2"

record GateStageOutcome =
  stage :: GateStage
  stage_ok :: bool
  stage_skipped :: "bool option"

datatype GateVerdict = GreenGate | BlockedAt GateStage

definition blocks :: "GateStageOutcome \<Rightarrow> bool" where
  "blocks x \<longleftrightarrow> \<not> (stage_skipped x = Some True \<or> stage_ok x)"

definition gateVerdict :: "GateStageOutcome list \<Rightarrow> GateVerdict" where
  "gateVerdict outcomes =
     (case find blocks (sort_key (\<lambda>x. stage_index (stage x)) outcomes) of
        None \<Rightarrow> GreenGate
      | Some x \<Rightarrow> BlockedAt (stage x))"

section \<open>Lemmas\<close>

text \<open>How the loops grow what they accumulate: checks, their lines, and no failure among them.\<close>

definition grown :: "bool \<times> checked \<Rightarrow> ValidationCheck list \<Rightarrow> bool \<times> checked \<Rightarrow> bool" where
  "grown acc cs acc' \<longleftrightarrow>
     (fst acc' \<longleftrightarrow> fst acc \<and> (\<forall>c \<in> set cs. c_status c \<noteq> Failed)) \<and>
     fst (snd acc') = fst (snd acc) @ cs \<and>
     snd (snd acc') = snd (snd acc) @ map (\<lambda>c. check_json (c_record c)) cs"

lemma grown_Nil [simp]: "grown acc [] acc"
  by (simp add: grown_def)

lemma grown_append: "grown a cs b \<Longrightarrow> grown b ds c \<Longrightarrow> grown a (cs @ ds) c"
  by (auto simp: grown_def)

lemma grown_push: "fst acc' \<longleftrightarrow> fst acc \<and> c_status c \<noteq> Failed \<Longrightarrow> snd acc' = pushCheck c (snd acc) \<Longrightarrow> grown acc [c] acc'"
  by (simp add: grown_def pushCheck_def)

text \<open>The check a feedback script leaves: of a run that was really made, or of a missing script.\<close>

definition feedback_entry :: "('w, 'z) RunCastleGateInput_scheme \<Rightarrow> string \<times> string option \<Rightarrow> ValidationCheck \<Rightarrow> bool" where
  "feedback_entry inp job c \<longleftrightarrow>
     (case job of
        (script, None) \<Rightarrow> c = skipped_check (script @ '':no-package'') ''no package.json''
      | (script, Some scope) \<Rightarrow>
          if hasScript inp scope script then
            \<exists>w w' r d. feedbackExec inp [''pnpm'', ''-C'', scopeDir (worktree inp) scope, script]
                 (validationResourceClass scope script) w = (Inr r, w') \<and>
               c = feedback_check (worktree inp) script scope r d
          else c = skipped_check (script @ '':'' @ scopeLabel scope) ''script missing'')"

definition feedback_jobs :: "string list \<Rightarrow> string list \<Rightarrow> (string \<times> string option) list" where
  "feedback_jobs scopes scripts =
     concat (map (\<lambda>script. if scopes = [] then [(script, None)] else map (\<lambda>scope. (script, Some scope)) scopes) scripts)"

lemma feedback_turn_spec:
  "feedback_turn inp script scope acc (w, l) = (Inr acc', (w', l')) \<Longrightarrow>
     \<exists>c. feedback_entry inp (script, Some scope) c \<and> grown acc [c] acc'"
proof -
  let ?args = "[''pnpm'', ''-C'', scopeDir (worktree inp) scope, script]"
  assume run: "feedback_turn inp script scope acc (w, l) = (Inr acc', (w', l'))"
  show ?thesis
  proof (cases "hasScript inp scope script")
    case False
    let ?c = "skipped_check (script @ '':'' @ scopeLabel scope) ''script missing''"
    have "acc' = (fst acc, pushCheck ?c (snd acc))" using run False by (simp add: feedback_turn_def io_simps)
    then have "grown acc [?c] acc'" by (intro grown_push) (simp_all add: skipped_check_def)
    then show ?thesis using False by (auto simp: feedback_entry_def)
  next
    case True
    then obtain r d w1 w2 where exec: "feedbackExec inp ?args (validationResourceClass scope script) w1 = (Inr r, w2)"
        and acc': "acc' = (fst acc \<and> status_of_code (code r) \<noteq> Failed,
                   pushCheck (feedback_check (worktree inp) script scope r d) (snd acc))"
      using run by (auto simp: feedback_turn_def io_simps Let_def)
    have "grown acc [feedback_check (worktree inp) script scope r d] acc'"
      by (rule grown_push) (simp_all add: acc' feedback_check_def Let_def)
    moreover have "feedback_entry inp (script, Some scope) (feedback_check (worktree inp) script scope r d)"
      using True exec by (auto simp: feedback_entry_def)
    ultimately show ?thesis by blast
  qed
qed

lemma feedback_scopes_spec:
  "feedback_scopes inp script scopes acc (w, l) = (Inr acc', (w', l')) \<Longrightarrow>
     \<exists>cs. list_all2 (feedback_entry inp) (map (\<lambda>scope. (script, Some scope)) scopes) cs \<and> grown acc cs acc'"
proof (induction scopes arbitrary: acc w l)
  case (Cons scope scopes)
  then obtain a w1 l1 where first: "feedback_turn inp script scope acc (w, l) = (Inr a, (w1, l1))"
      and rest: "feedback_scopes inp script scopes a (w1, l1) = (Inr acc', (w', l'))"
    by (auto simp: io_simps)
  obtain c where "feedback_entry inp (script, Some scope) c" "grown acc [c] a" using feedback_turn_spec[OF first] by blast
  moreover obtain cs where "list_all2 (feedback_entry inp) (map (\<lambda>scope. (script, Some scope)) scopes) cs" "grown a cs acc'"
    using Cons.IH[OF rest] by blast
  ultimately show ?case using grown_append by (intro exI[of _ "c # cs"]) fastforce
qed (simp add: io_simps)

lemma feedback_scripts_spec:
  "feedback_scripts inp scopes scripts acc (w, l) = (Inr acc', (w', l')) \<Longrightarrow>
     \<exists>cs. list_all2 (feedback_entry inp) (feedback_jobs scopes scripts) cs \<and> grown acc cs acc'"
proof (induction scripts arbitrary: acc w l)
  case (Cons script scripts)
  obtain a w1 l1 cs where first: "list_all2 (feedback_entry inp) (feedback_jobs scopes [script]) cs" "grown acc cs a"
      and rest: "feedback_scripts inp scopes scripts a (w1, l1) = (Inr acc', (w', l'))"
  proof (cases "scopes = []")
    case True
    let ?c = "skipped_check (script @ '':no-package'') ''no package.json''"
    have "grown acc [?c] (fst acc, pushCheck ?c (snd acc))" by (rule grown_push) (simp_all add: skipped_check_def)
    then show ?thesis
      using that[of "[?c]"] Cons.prems True by (simp add: feedback_jobs_def feedback_entry_def)
  next
    case False
    then obtain a w1 l1 where scopes: "feedback_scopes inp script scopes acc (w, l) = (Inr a, (w1, l1))"
        and rest: "feedback_scripts inp scopes scripts a (w1, l1) = (Inr acc', (w', l'))"
      using Cons.prems by (auto simp: io_simps)
    obtain cs where "list_all2 (feedback_entry inp) (map (\<lambda>scope. (script, Some scope)) scopes) cs" "grown acc cs a"
      using feedback_scopes_spec[OF scopes] by blast
    then show ?thesis using that[OF _ _ rest] False by (simp add: feedback_jobs_def)
  qed
  obtain ds where "list_all2 (feedback_entry inp) (feedback_jobs scopes scripts) ds" "grown a ds acc'"
    using Cons.IH[OF rest] by blast
  then show ?case
    using first grown_append list_all2_appendI[of _ "feedback_jobs scopes [script]" cs "feedback_jobs scopes scripts" ds]
    by (intro exI[of _ "cs @ ds"]) (auto simp: feedback_jobs_def)
qed (simp add: io_simps feedback_jobs_def)

definition backpressure_entry :: "('w, 'z) RunCastleGateInput_scheme \<Rightarrow> int \<Rightarrow> string \<Rightarrow> ValidationCheck \<Rightarrow> bool" where
  "backpressure_entry inp t command c \<longleftrightarrow>
     (\<exists>w w' r d. backpressureExec inp command (worktree inp) t Heavy w = (Inr r, w') \<and>
        c = backpressure_check t command r d)"

definition commands_of :: "string list \<Rightarrow> string list" where
  "commands_of raws = filter (\<lambda>c. c \<noteq> []) (map trim raws)"

lemma backpressure_spec:
  "backpressure_loop inp t raws acc (w, l) = (Inr acc', (w', l')) \<Longrightarrow>
     \<exists>cs. list_all2 (backpressure_entry inp t) (commands_of raws) cs \<and> grown acc cs acc'"
proof (induction raws arbitrary: acc w l)
  case (Cons raw raws)
  show ?case
  proof (cases "trim raw = []")
    case True
    then show ?thesis using Cons by (simp add: commands_of_def)
  next
    case False
    let ?push = "\<lambda>r d. (fst acc \<and> status_of_code (code r) \<noteq> Failed, pushCheck (backpressure_check t (trim raw) r d) (snd acc))"
    obtain r d w1 w2 w3 l3 where run: "backpressureExec inp (trim raw) (worktree inp) t Heavy w1 = (Inr r, w2)"
        and rest: "backpressure_loop inp t raws (?push r d) (w3, l3) = (Inr acc', (w', l'))"
      using Cons.prems False by (auto simp: io_simps Let_def)
    obtain cs where cs: "list_all2 (backpressure_entry inp t) (commands_of raws) cs" "grown (?push r d) cs acc'"
      using Cons.IH[OF rest] by blast
    have "grown acc [backpressure_check t (trim raw) r d] (?push r d)"
      by (rule grown_push) (simp_all add: backpressure_check_def Let_def)
    then have "grown acc (backpressure_check t (trim raw) r d # cs) acc'" using grown_append cs(2) by fastforce
    moreover have "backpressure_entry inp t (trim raw) (backpressure_check t (trim raw) r d)"
      using run by (auto simp: backpressure_entry_def)
    ultimately show ?thesis
      using False cs(1) by (intro exI[of _ "backpressure_check t (trim raw) r d # cs"]) (simp add: commands_of_def)
  qed
qed (simp add: io_simps commands_of_def)

text \<open>The sink is asked of every intent finding, and its answers decide.\<close>

definition sink_entry :: "('w, 'z) RunCastleGateInput_scheme \<Rightarrow> GateFinding \<Rightarrow> GateSinkOutcome \<Rightarrow> bool" where
  "sink_entry inp f a \<longleftrightarrow> (\<exists>w w'. sink inp f w = (Inr a, w'))"

lemma settle_spec:
  "settle_findings inp fs (ok, os, n) (w, l) = (Inr (ok', os', n'), (w', l')) \<Longrightarrow>
     \<exists>new. os' = os @ new \<and> list_all2 (sink_entry inp) (filter (\<lambda>f. \<not> is_mechanical f) fs) new \<and>
       (ok' \<longleftrightarrow> ok \<and> set new \<subseteq> {Approved}) \<and> n' = n + length (filter is_mechanical fs)"
proof (induction fs arbitrary: ok os n w l)
  case (Cons f fs)
  show ?case
  proof (cases "is_mechanical f")
    case True
    then obtain w1 l1 where "settle_findings inp fs (ok, os, n + 1) (w1, l1) = (Inr (ok', os', n'), (w', l'))"
      using Cons.prems by (auto simp: io_simps)
    from Cons.IH[OF this] show ?thesis using True by auto
  next
    case False
    then obtain a w1 w2 l1 where ask: "sink inp f w1 = (Inr a, w2)"
        and rest: "settle_findings inp fs (ok \<and> a = Approved, os @ [a], n) (w2, l1) = (Inr (ok', os', n'), (w', l'))"
      using Cons.prems by (auto simp: io_simps)
    from Cons.IH[OF rest] obtain new where "os' = (os @ [a]) @ new"
        "list_all2 (sink_entry inp) (filter (\<lambda>f. \<not> is_mechanical f) fs) new"
        "ok' \<longleftrightarrow> (ok \<and> a = Approved) \<and> set new \<subseteq> {Approved}" "n' = n + length (filter is_mechanical fs)" by blast
    moreover have "sink_entry inp f a" using ask by (auto simp: sink_entry_def)
    ultimately show ?thesis using False by (intro exI[of _ "a # new"]) auto
  qed
qed (simp add: io_simps)

definition gate_commands :: "('w, 'z) RunCastleGateInput_scheme \<Rightarrow> string list" where
  "gate_commands inp = commands_of (case backpressureCommands inp of None \<Rightarrow> [] | Some cs \<Rightarrow> cs)"

definition gate_timeout :: "('w, 'z) RunCastleGateInput_scheme \<Rightarrow> int" where
  "gate_timeout inp = (case backpressureTimeoutMs inp of None \<Rightarrow> DEFAULT_BACKPRESSURE_TIMEOUT_MS | Some t \<Rightarrow> t)"

definition gate_jobs :: "('w, 'z) RunCastleGateInput_scheme \<Rightarrow> (string \<times> string option) list" where
  "gate_jobs inp = feedback_jobs (scopesForValidationScope (gate_scope inp)) FEEDBACK_SCRIPTS"

definition none_failed :: "ValidationCheck list \<Rightarrow> bool" where
  "none_failed cs \<longleftrightarrow> (\<forall>c \<in> set cs. c_status c \<noteq> Failed)"

text \<open>Everything a gate that was admitted and returned has done.\<close>

lemma gate_run:
  assumes run: "runCastleGate inp (w, l) = (Inr r, (w', l'))"
    and adm: "gate_admission inp = Inr a" "gate_admitted a"
  shows "\<exists>fs bs. gate_checks r = fs @ bs \<and> list_all2 (feedback_entry inp) (gate_jobs inp) fs \<and>
     list_all2 (sink_entry inp) (filter (\<lambda>f. \<not> is_mechanical f) (gate_findings inp)) (sinkOutcomes r) \<and>
     sidecar r = map (\<lambda>c. check_json (c_record c)) (gate_checks r) \<and> g_admission r = a \<and>
     (if none_failed fs \<and> set (sinkOutcomes r) \<subseteq> {Approved}
      then list_all2 (backpressure_entry inp (gate_timeout inp)) (gate_commands inp) bs \<and> (g_ok r \<longleftrightarrow> none_failed bs)
      else bs = [] \<and> \<not> g_ok r)"
proof -
  obtain ok os n w1 l1 fb acc w2 l2 where
      settle: "settle_findings inp (gate_findings inp) (True, [], 0) (w, l) = (Inr (ok, os, n), (w1, l1))"
    and feedback: "runFeedbackChecks inp (scopesForValidationScope (gate_scope inp)) ([], []) (w1, l1) = (Inr (fb, acc), (w2, l2))"
    and rest: "io_bind (if fb \<and> (ok \<and> fb) then runBackpressureChecks inp acc else io_return (ok \<and> fb, acc))
        (\<lambda>(ok2, checks, side). io_return \<lparr>g_ok = ok2, validationScope = gate_scope inp, gate_checks = checks,
           sidecar = side, sinkOutcomes = os, mechanicalApplied = n, g_admission = a\<rparr>) (w2, l2) = (Inr r, (w', l'))"
    using run adm by (auto simp: runCastleGate_def io_simps Let_def split: prod.splits)
  obtain fs where fs: "list_all2 (feedback_entry inp) (gate_jobs inp) fs" "grown (True, [], []) fs (fb, acc)"
    using feedback_scripts_spec[OF feedback[unfolded runFeedbackChecks_def]] unfolding gate_jobs_def by blast
  have s: "list_all2 (sink_entry inp) (filter (\<lambda>f. \<not> is_mechanical f) (gate_findings inp)) os" "ok \<longleftrightarrow> set os \<subseteq> {Approved}"
    using settle_spec[OF settle] by auto
  have f: "fb \<longleftrightarrow> none_failed fs" "acc = (fs, map (\<lambda>c. check_json (c_record c)) fs)"
    using fs(2) by (auto simp: grown_def none_failed_def prod_eq_iff)
  show ?thesis
  proof (cases "fb \<and> ok")
    case True
    then obtain ok2 checks side where cmds: "runBackpressureChecks inp acc (w2, l2) = (Inr (ok2, checks, side), (w', l'))"
        and r: "r = \<lparr>g_ok = ok2, validationScope = gate_scope inp, gate_checks = checks,
           sidecar = side, sinkOutcomes = os, mechanicalApplied = n, g_admission = a\<rparr>"
      using rest by (auto simp: io_simps split: prod.splits)
    obtain bs where bs: "list_all2 (backpressure_entry inp (gate_timeout inp)) (gate_commands inp) bs"
        "grown (True, acc) bs (ok2, checks, side)"
      using backpressure_spec[OF cmds[unfolded runBackpressureChecks_def]]
      unfolding gate_commands_def gate_timeout_def by blast
    then show ?thesis
      using True fs(1) s f r by (intro exI[of _ fs] exI[of _ bs]) (simp add: grown_def none_failed_def)
  next
    case False
    then have "r = \<lparr>g_ok = False, validationScope = gate_scope inp, gate_checks = fst acc,
           sidecar = snd acc, sinkOutcomes = os, mechanicalApplied = n, g_admission = a\<rparr>"
      using rest by (auto simp: io_simps split: prod.splits)
    then show ?thesis using False fs(1) s f by (intro exI[of _ fs] exI[of _ "[]"]) auto
  qed
qed

text \<open>The names the checks of a gate go by, in order.\<close>

definition job_name :: "string \<times> string option \<Rightarrow> string" where
  "job_name job = fst job @ (case snd job of None \<Rightarrow> '':no-package'' | Some scope \<Rightarrow> '':'' @ scopeLabel scope)"

lemma feedback_entry_name: "feedback_entry inp job c \<Longrightarrow> c_name c = job_name job"
  by (cases job; cases "snd job")
    (auto simp: feedback_entry_def job_name_def skipped_check_def feedback_check_def Let_def split: if_splits)

lemma feedback_entry_passed:
  "feedback_entry inp (script, Some scope) c \<Longrightarrow> c_status c \<noteq> Failed \<Longrightarrow> hasScript inp scope script \<Longrightarrow>
     \<exists>u u' x. feedbackExec inp [''pnpm'', ''-C'', scopeDir (worktree inp) scope, script]
        (validationResourceClass scope script) u = (Inr x, u') \<and> code x = Num 0"
  by (auto simp: feedback_entry_def feedback_check_def status_of_code_def Let_def split: if_splits)

lemma backpressure_entry_name: "backpressure_entry inp t c d \<Longrightarrow> c_name d = ''backpressure:'' @ c"
  by (auto simp: backpressure_entry_def backpressure_check_def Let_def)

lemma backpressure_entry_passed:
  "backpressure_entry inp t c d \<Longrightarrow> c_status d \<noteq> Failed \<Longrightarrow>
     \<exists>u u' x. backpressureExec inp c (worktree inp) t Heavy u = (Inr x, u') \<and> code x = Num 0"
  by (auto simp: backpressure_entry_def backpressure_check_def status_of_code_def Let_def split: if_splits) metis

lemma list_all2_names: "list_all2 P xs ys \<Longrightarrow> (\<And>x y. P x y \<Longrightarrow> f y = g x) \<Longrightarrow> map f ys = map g xs"
  by (induction rule: list_all2_induct) auto

lemma list_all2_member: "list_all2 P xs ys \<Longrightarrow> x \<in> set xs \<Longrightarrow> \<exists>y \<in> set ys. P x y"
  by (induction rule: list_all2_induct) auto

lemma refused_gate:
  "gate_admission inp = Inr a \<Longrightarrow> \<not> gate_admitted a \<Longrightarrow>
     runCastleGate inp s = (Inr \<lparr>g_ok = False, validationScope = gate_scope inp, gate_checks = [], sidecar = [],
                  sinkOutcomes = [], mechanicalApplied = 0, g_admission = a\<rparr>, s)"
  by (simp add: runCastleGate_def io_bind_def io_of_sum_def io_return_def)

lemma gate_returns_admission:
  "runCastleGate inp s = (Inr r, t) \<Longrightarrow> \<exists>a. gate_admission inp = Inr a"
  by (cases "gate_admission inp") (auto simp: runCastleGate_def io_bind_def io_of_sum_def)

lemma find_sorted_least:
  "sorted (map f xs) \<Longrightarrow> find P xs = Some x \<Longrightarrow> P x \<and> x \<in> set xs \<and> (\<forall>y \<in> set xs. P y \<longrightarrow> f x \<le> f y)"
  by (induction xs) (auto split: if_splits)

text \<open>
  A green gate has run everything: when the gate answers ok, the host admitted its weight,
  every script that exists was run in every scope of the change and exited 0, every command of
  the operator that is not blank was run and exited 0, and the sink approved every finding that
  is not mechanical.
\<close>

lemma green_gate_ran_everything:
  assumes "runCastleGate inp (w, l) = (Inr r, (w', l'))" and "g_ok r"
  shows "(\<exists>a. gate_admission inp = Inr a \<and> gate_admitted a) \<and>
     (\<forall>scope \<in> set (scopesForValidationScope (gate_scope inp)). \<forall>script \<in> set FEEDBACK_SCRIPTS.
        hasScript inp scope script \<longrightarrow>
          (\<exists>u u' x. feedbackExec inp [''pnpm'', ''-C'', scopeDir (worktree inp) scope, script]
             (validationResourceClass scope script) u = (Inr x, u') \<and> code x = Num 0)) \<and>
     (\<forall>c \<in> set (gate_commands inp). \<exists>u u' x.
        backpressureExec inp c (worktree inp) (gate_timeout inp) Heavy u = (Inr x, u') \<and> code x = Num 0) \<and>
     (\<forall>f \<in> set (gate_findings inp). \<not> is_mechanical f \<longrightarrow> (\<exists>u u'. sink inp f u = (Inr Approved, u')))"
proof -
  obtain a where a: "gate_admission inp = Inr a" using gate_returns_admission[OF assms(1)] by blast
  have adm: "gate_admitted a" using assms refused_gate[OF a] by force
  obtain fs bs where jobs: "list_all2 (feedback_entry inp) (gate_jobs inp) fs" "none_failed fs"
      and sinks: "list_all2 (sink_entry inp) (filter (\<lambda>f. \<not> is_mechanical f) (gate_findings inp)) (sinkOutcomes r)"
        "set (sinkOutcomes r) \<subseteq> {Approved}"
      and commands: "list_all2 (backpressure_entry inp (gate_timeout inp)) (gate_commands inp) bs" "none_failed bs"
    using gate_run[OF assms(1) a adm] assms(2) by (auto split: if_splits)
  have "\<exists>u u' x. feedbackExec inp [''pnpm'', ''-C'', scopeDir (worktree inp) scope, script]
             (validationResourceClass scope script) u = (Inr x, u') \<and> code x = Num 0"
    if "scope \<in> set (scopesForValidationScope (gate_scope inp))" "script \<in> set FEEDBACK_SCRIPTS" "hasScript inp scope script"
    for scope script
  proof -
    have "(script, Some scope) \<in> set (gate_jobs inp)" using that by (auto simp: gate_jobs_def feedback_jobs_def)
    from list_all2_member[OF jobs(1) this] show ?thesis
      using feedback_entry_passed that(3) jobs(2) unfolding none_failed_def by blast
  qed
  moreover have "\<exists>u u' x. backpressureExec inp c (worktree inp) (gate_timeout inp) Heavy u = (Inr x, u') \<and> code x = Num 0"
    if "c \<in> set (gate_commands inp)" for c
    using list_all2_member[OF commands(1) that] backpressure_entry_passed commands(2) unfolding none_failed_def by blast
  moreover have "\<exists>u u'. sink inp f u = (Inr Approved, u')" if "f \<in> set (gate_findings inp)" "\<not> is_mechanical f" for f
    using list_all2_member[OF sinks(1), of f] that sinks(2) by (auto simp: sink_entry_def)
  ultimately show ?thesis using a adm by blast
qed

section \<open>Properties\<close>

text \<open>
  C12. The verdict, the report and the audit agree: the answer of an admitted gate is ok exactly
  when the sink approved all it was asked and no check failed; the checks are, in order, one per
  script and scope, then one per command if and only if nothing had failed or been refused; and
  the sidecar holds the line of each check.
\<close>

theorem gate_verdict_exact:
  assumes "runCastleGate inp (w, l) = (Inr r, (w', l'))" and "gate_admission inp = Inr a" and "gate_admitted a"
  shows "(g_ok r \<longleftrightarrow> set (sinkOutcomes r) \<subseteq> {Approved} \<and> none_failed (gate_checks r)) \<and>
     map c_name (gate_checks r) = map job_name (gate_jobs inp) @
       (if set (sinkOutcomes r) \<subseteq> {Approved} \<and> none_failed (take (length (gate_jobs inp)) (gate_checks r))
        then map (\<lambda>c. ''backpressure:'' @ c) (gate_commands inp) else []) \<and>
     sidecar r = map (\<lambda>c. check_json (c_record c)) (gate_checks r) \<and>
     length (sinkOutcomes r) = length (filter (\<lambda>f. \<not> is_mechanical f) (gate_findings inp))"
proof -
  obtain fs bs where run: "gate_checks r = fs @ bs" "list_all2 (feedback_entry inp) (gate_jobs inp) fs"
     "list_all2 (sink_entry inp) (filter (\<lambda>f. \<not> is_mechanical f) (gate_findings inp)) (sinkOutcomes r)"
     "sidecar r = map (\<lambda>c. check_json (c_record c)) (gate_checks r)"
     and cases: "if none_failed fs \<and> set (sinkOutcomes r) \<subseteq> {Approved}
      then list_all2 (backpressure_entry inp (gate_timeout inp)) (gate_commands inp) bs \<and> (g_ok r \<longleftrightarrow> none_failed bs)
      else bs = [] \<and> \<not> g_ok r"
    using gate_run[OF assms] by blast
  have names: "map c_name fs = map job_name (gate_jobs inp)"
    by (rule list_all2_names[OF run(2) feedback_entry_name])
  have len: "length fs = length (gate_jobs inp)" using run(2) by (simp add: list_all2_lengthD)
  have split: "none_failed (fs @ bs) \<longleftrightarrow> none_failed fs \<and> none_failed bs" by (auto simp: none_failed_def)
  show ?thesis
  proof (cases "none_failed fs \<and> set (sinkOutcomes r) \<subseteq> {Approved}")
    case True
    then have "map c_name bs = map (\<lambda>c. ''backpressure:'' @ c) (gate_commands inp)"
      using cases list_all2_names[OF _ backpressure_entry_name] by auto
    then show ?thesis using True cases run names len split list_all2_lengthD[OF run(3)] by simp
  next
    case False
    then show ?thesis using cases run names len split list_all2_lengthD[OF run(3)] by auto
  qed
qed

text \<open>
  C28. A gate heavier than the host declares runs nothing, and only such a gate is refused: where
  the gate needs a heavy cone on a host of light ones, or the full workspace on a host of less, it
  answers not ok at once, with no call made, no check recorded and the refusal named; any other
  gate is admitted. What the gate needs is the weight it is given or else that of its scope, and a
  host without a profile declares the full workspace.
\<close>

theorem over_class_gate_runs_nothing:
  assumes "resolveHostCapabilities (hostProfile inp) = Inr caps"
    and "needed = (case gateWeight inp of None \<Rightarrow> gateWeightForScope (gate_scope inp) | Some w \<Rightarrow> w)"
    and "over \<longleftrightarrow> (needed, r_maxGateWeight caps) \<in>
      {(HeavyCone, LightCone), (FullWorkspace, LightCone), (FullWorkspace, HeavyCone)}"
  shows "(over \<longrightarrow> runCastleGate inp s =
            (Inr \<lparr>g_ok = False, validationScope = gate_scope inp, gate_checks = [], sidecar = [], sinkOutcomes = [],
                  mechanicalApplied = 0,
                  g_admission = \<lparr>gate_admitted = False, gate_verdict = ''refused-over-class'', required = needed,
                                 maximum = r_maxGateWeight caps\<rparr>\<rparr>, s)) \<and>
         (\<not> over \<longrightarrow> gate_admission inp =
            Inr \<lparr>gate_admitted = True, gate_verdict = ''admitted'', required = needed, maximum = r_maxGateWeight caps\<rparr>) \<and>
         (hostProfile inp = JUndefined \<longrightarrow> \<not> over)"
proof -
  have le: "needed \<le> r_maxGateWeight caps \<longleftrightarrow> \<not> over"
    unfolding assms(3) by (cases needed; cases "r_maxGateWeight caps") (simp_all add: less_eq_GateWeightClass_def)
  have adm: "gate_admission inp =
      Inr \<lparr>gate_admitted = (\<not> over), gate_verdict = (if \<not> over then ''admitted'' else ''refused-over-class''),
           required = needed, maximum = r_maxGateWeight caps\<rparr>"
    unfolding gate_admission_def evaluateHostGateAdmission_def assms(1) assms(2)[symmetric] using le by (simp add: Let_def)
  have "runCastleGate inp s =
      (Inr \<lparr>g_ok = False, validationScope = gate_scope inp, gate_checks = [], sidecar = [], sinkOutcomes = [],
            mechanicalApplied = 0,
            g_admission = \<lparr>gate_admitted = False, gate_verdict = ''refused-over-class'', required = needed,
                           maximum = r_maxGateWeight caps\<rparr>\<rparr>, s)" if over
    using refused_gate[OF adm, of s] that by simp
  moreover have "r_maxGateWeight caps = FullWorkspace" if "hostProfile inp = JUndefined"
    using assms(1) that by (auto simp: resolveHostCapabilities_def)
  then have "hostProfile inp = JUndefined \<longrightarrow> \<not> over" unfolding assms(3) by auto
  ultimately show ?thesis using adm by simp
qed

text \<open>
  One verdict for the stages, whatever order they were evaluated in: the fold is green
  exactly when no stage blocks, and otherwise names the cheapest stage that does.
\<close>

theorem stage_verdict_earliest:
  "(gateVerdict xs = GreenGate \<longleftrightarrow> (\<forall>x \<in> set xs. \<not> blocks x)) \<and>
   (gateVerdict xs = BlockedAt st \<longleftrightarrow>
      (\<exists>x \<in> set xs. blocks x \<and> stage x = st) \<and> (\<forall>x \<in> set xs. blocks x \<longrightarrow> stage_index st \<le> stage_index (stage x)))"
proof -
  let ?k = "\<lambda>x. stage_index (stage x)"
  have inj: "stage_index s = stage_index t \<Longrightarrow> s = t" for s t by (cases s; cases t) auto
  show ?thesis
  proof (cases "find blocks (sort_key ?k xs)")
    case None
    then show ?thesis by (simp add: gateVerdict_def) (simp add: find_None_iff)
  next
    case (Some x)
    have x: "blocks x \<and> x \<in> set xs \<and> (\<forall>y \<in> set xs. blocks y \<longrightarrow> ?k x \<le> ?k y)"
      using find_sorted_least[OF sorted_sort_key Some] by simp
    then show ?thesis using Some inj by (auto simp: gateVerdict_def dest!: antisym)
  qed
qed

section \<open>Witnesses\<close>

definition toy_finding :: GateFinding where
  "toy_finding = \<lparr>f_kind = ''api-change'', description = ''renames a flag'', patch = None\<rparr>"

text \<open>A world that counts the commands run; everything passes.\<close>

definition toy_gate :: "nat RunCastleGateInput" where
  "toy_gate =
     \<lparr>worktree = ''/w'', changedFiles = [''b/src/y.ts''], layout = toy_layout,
      hasScript = (\<lambda>scope script. script = ''test''), graph = toy_graph, findings = Some [toy_finding],
      backpressureCommands = Some [''  '', ''make check''], sink = (\<lambda>_ n. (Inr Approved, n)),
      feedbackExec = (\<lambda>_ _ n. (Inr \<lparr>code = Num 0, stdout = [], stderr = []\<rparr>, n + 1)),
      backpressureExec = (\<lambda>_ _ _ _ n. (Inr \<lparr>code = Num 0, stdout = [], stderr = []\<rparr>, n + 1)),
      applyMechanical = (\<lambda>_ n. (Inr (), n)), clock = (\<lambda>n. (int n, n)), backpressureTimeoutMs = None,
      hostProfile = JUndefined, gateWeight = None\<rparr>"

definition gate_end :: "(string + CastleGateResult) \<times> nat \<times> gate_call list" where
  "gate_end = runCastleGate toy_gate (0, [])"

lemma toy_gate_run: "\<exists>r l'. runCastleGate toy_gate (0, []) = (Inr r, (3, l')) \<and> g_ok r"
proof -
  have "(case gate_end of (Inr r, (w, l)) \<Rightarrow> g_ok r \<and> w = 3 | _ \<Rightarrow> False)" by code_simp
  then show ?thesis by (auto simp: gate_end_def split: prod.splits sum.splits)
qed

theorem gate_verdict_exact_witness:
  "\<exists>r t. runCastleGate toy_gate (0, []) = (Inr r, t) \<and> none_failed (gate_checks r) \<and>
     length (sinkOutcomes r) = 1"
proof -
  obtain r l' where run: "runCastleGate toy_gate (0, []) = (Inr r, (3, l'))" and ok: "g_ok r" using toy_gate_run by blast
  obtain a where a: "gate_admission toy_gate = Inr a" "gate_admitted a"
  proof -
    have "case gate_admission toy_gate of Inr a \<Rightarrow> gate_admitted a | Inl _ \<Rightarrow> False" by code_simp
    then show ?thesis using that by (auto split: sum.splits)
  qed
  have "length (filter (\<lambda>f. \<not> is_mechanical f) (gate_findings toy_gate)) = 1" by code_simp
  then show ?thesis using gate_verdict_exact[OF run a] ok run by auto
qed

theorem over_class_gate_runs_nothing_witness:
  "\<exists>r. runCastleGate (toy_gate\<lparr>hostProfile := small_host, gateWeight := Some FullWorkspace\<rparr>) (5, []) = (Inr r, (5, [])) \<and>
     \<not> g_ok r"
proof -
  let ?inp = "toy_gate\<lparr>hostProfile := small_host, gateWeight := Some FullWorkspace\<rparr>"
  have caps: "resolveHostCapabilities (hostProfile ?inp) =
      Inr \<lparr>r_runners = [Claude, Codex], r_maxGateWeight = HeavyCone, r_defaultFleetWidth = 3, r_source = FromProfile\<rparr>"
    by code_simp
  show ?thesis using over_class_gate_runs_nothing[OF caps refl refl, of "(5, [])"] by simp
qed

theorem stage_verdict_earliest_witness:
  "gateVerdict [\<lparr>stage = Review, stage_ok = False, stage_skipped = None\<rparr>,
     \<lparr>stage = Feedback, stage_ok = False, stage_skipped = Some True\<rparr>,
     \<lparr>stage = Backpressure, stage_ok = False, stage_skipped = None\<rparr>] = BlockedAt Backpressure"
  by (subst stage_verdict_earliest[THEN conjunct2]) (simp add: blocks_def)

end
