(* ===== verification/Landing.thy ===== *)
theory Landing
  imports Gate
begin

text \<open>
  The landing of a finished issue: \<open>packages/worker/src/engine/landing.ts\<close>. The tracker, the
  land itself, the rebase of a sibling and the clean-up of the branch are calls of the
  environment, each of which may throw.
\<close>

section \<open>Data\<close>

record CastleLandingMergeInput =
  mi_issue :: int
  mi_branch :: string
  mi_base :: "string option"

datatype CastleLandingMergeResult =
    Landed "string option"
  | NotLanded string "string option"

datatype sibling_state = DoneWaiting | Active

record CastleCascadeSibling =
  s_issue :: int
  s_branch :: string
  s_base :: "string option"
  s_state :: sibling_state

record CastleCascadeRebaseInput =
  ri_issue :: int
  ri_branch :: string
  ri_base :: "string option"
  trunkTip :: "string option"

datatype cascade_status = Rebased | AlreadyCurrent | Parked | SkippedActive

datatype CastleCascadeRebaseResult =
    RebaseOk "cascade_status option" "string option"
  | RebaseParked "string option"

record CastleCascadeSiblingOutcome =
  so_issue :: int
  so_branch :: string
  so_status :: cascade_status
  so_message :: "string option"

datatype landing_reason = GateFailed | GateParked | LandFailed

datatype CastleLandingResult =
    LandingDone "string option" "string option" "CastleCascadeSiblingOutcome list option"
  | LandingRefused landing_reason "string option"

datatype landing_call =
    CommentIssue int string
  | CloseIssue int
  | Land CastleLandingMergeInput
  | RebaseSibling CastleCascadeRebaseInput
  | CleanupBranch string

record 'w CastleLandingCascadeInput =
  siblings :: "CastleCascadeSibling list"
  rebase :: "CastleCascadeRebaseInput \<Rightarrow> ('w, CastleCascadeRebaseResult) env"

record 'w RunCastleLandingInput =
  l_issue :: int
  l_branch :: string
  l_base :: "string option"
  l_gate_ok :: bool
  l_sinkOutcomes :: "GateSinkOutcome list"
  commentOnIssue :: "int \<Rightarrow> string \<Rightarrow> ('w, unit) env"
  closeIssue :: "int \<Rightarrow> ('w, unit) env"
  land :: "CastleLandingMergeInput \<Rightarrow> ('w, CastleLandingMergeResult) env"
  cleanupBranch :: "(string \<Rightarrow> ('w, unit) env) option"
  cascade :: "'w CastleLandingCascadeInput option"

section \<open>Operations\<close>

definition firstBlockingSinkOutcome :: "GateSinkOutcome list \<Rightarrow> GateSinkOutcome option" where
  "firstBlockingSinkOutcome outcomes = find (\<lambda>x. x \<noteq> Approved) outcomes"

fun sink_text :: "GateSinkOutcome \<Rightarrow> string" where
  "sink_text Approved = ''approved''"
| "sink_text SinkSkipped = ''skipped''"
| "sink_text SinkParked = ''parked''"

definition renderCascadeComment :: "CastleCascadeSiblingOutcome \<Rightarrow> string option \<Rightarrow> string" where
  "renderCascadeComment x tip =
     (let pre = robot @ '' Castle cascade rebase: '' @ so_branch x in
      if so_status x = SkippedActive then pre @ '' skipped because the worker is active.''
      else if so_status x = Parked then
        pre @ '' parked after the landing rebase ladder'' @
          (case nonempty (so_message x) of None \<Rightarrow> [] | Some m \<Rightarrow> '': '' @ m) @ ''.''
      else pre @ '' '' @ (if so_status x = AlreadyCurrent then ''already current with'' else ''rebased onto'') @ '' '' @
          (case tip of None \<Rightarrow> ''the new trunk tip'' | Some t \<Rightarrow> t) @ ''.'')"

definition rebase_outcome :: "CastleCascadeSibling \<Rightarrow> CastleCascadeRebaseResult \<Rightarrow> CastleCascadeSiblingOutcome" where
  "rebase_outcome s r =
     (case r of
        RebaseOk outcome message \<Rightarrow>
          \<lparr>so_issue = s_issue s, so_branch = s_branch s,
           so_status = (case outcome of None \<Rightarrow> Rebased | Some x \<Rightarrow> x), so_message = nonempty message\<rparr>
      | RebaseParked message \<Rightarrow>
          \<lparr>so_issue = s_issue s, so_branch = s_branch s, so_status = Parked, so_message = nonempty message\<rparr>)"

definition nullish_or :: "'a option \<Rightarrow> 'a option \<Rightarrow> 'a option" where
  "nullish_or x y = (case x of None \<Rightarrow> y | Some _ \<Rightarrow> x)"

definition rebase_input :: "('w, 'z) RunCastleLandingInput_scheme \<Rightarrow> string option \<Rightarrow> CastleCascadeSibling \<Rightarrow> CastleCascadeRebaseInput" where
  "rebase_input inp tip s =
     \<lparr>ri_issue = s_issue s, ri_branch = s_branch s, ri_base = nullish_or (s_base s) (l_base inp), trunkTip = tip\<rparr>"

definition comment :: "('w, 'z) RunCastleLandingInput_scheme \<Rightarrow> int \<Rightarrow> string \<Rightarrow> ('w, landing_call, unit) io" where
  "comment inp n t = io_call (CommentIssue n t) (commentOnIssue inp n t)"

definition cascade_sibling ::
    "('w, 'z) RunCastleLandingInput_scheme \<Rightarrow> (CastleCascadeRebaseInput \<Rightarrow> ('w, CastleCascadeRebaseResult) env) \<Rightarrow>
     string option \<Rightarrow> CastleCascadeSibling \<Rightarrow> ('w, landing_call, CastleCascadeSiblingOutcome) io" where
  "cascade_sibling inp rb tip s =
     io_bind
       (if s_state s = Active then
          io_return \<lparr>so_issue = s_issue s, so_branch = s_branch s, so_status = SkippedActive, so_message = None\<rparr>
        else io_bind (io_call (RebaseSibling (rebase_input inp tip s)) (rb (rebase_input inp tip s)))
               (\<lambda>r. io_return (rebase_outcome s r)))
       (\<lambda>x. io_bind (comment inp (s_issue s) (renderCascadeComment x tip)) (\<lambda>_. io_return x))"

fun cascade_all ::
    "('w, 'z) RunCastleLandingInput_scheme \<Rightarrow> (CastleCascadeRebaseInput \<Rightarrow> ('w, CastleCascadeRebaseResult) env) \<Rightarrow>
     string option \<Rightarrow> CastleCascadeSibling list \<Rightarrow> CastleCascadeSiblingOutcome list \<Rightarrow>
     ('w, landing_call, CastleCascadeSiblingOutcome list) io" where
  "cascade_all inp rb tip [] outcomes = io_return outcomes"
| "cascade_all inp rb tip (s # ss) outcomes =
     io_bind (cascade_sibling inp rb tip s) (\<lambda>x. cascade_all inp rb tip ss (outcomes @ [x]))"

definition runCascadeRebase ::
    "('w, 'z) RunCastleLandingInput_scheme \<Rightarrow> string option \<Rightarrow>
     ('w, landing_call, CastleCascadeSiblingOutcome list option) io" where
  "runCascadeRebase inp tip =
     (case cascade inp of
        None \<Rightarrow> io_return None
      | Some c \<Rightarrow> io_bind (cascade_all inp (rebase c) tip (siblings c) []) (\<lambda>xs. io_return (Some xs)))"

text \<open>\<open>cleanupError\<close>: what the optional clean-up threw, if it did.\<close>

definition clean_up :: "('w, 'z) RunCastleLandingInput_scheme \<Rightarrow> ('w, landing_call, string option) io" where
  "clean_up inp =
     (case cleanupBranch inp of
        None \<Rightarrow> io_return None
      | Some f \<Rightarrow> io_catch (io_bind (io_call (CleanupBranch (l_branch inp)) (f (l_branch inp))) (\<lambda>_. io_return None))
                   (\<lambda>e. io_return (Some e)))"

definition merge_input :: "('w, 'z) RunCastleLandingInput_scheme \<Rightarrow> CastleLandingMergeInput" where
  "merge_input inp = \<lparr>mi_issue = l_issue inp, mi_branch = l_branch inp, mi_base = l_base inp\<rparr>"

definition after_land ::
    "('w, 'z) RunCastleLandingInput_scheme \<Rightarrow> string option \<Rightarrow> ('w, landing_call, CastleLandingResult) io" where
  "after_land inp sha =
     io_bind (runCascadeRebase inp sha) (\<lambda>outcomes.
     io_bind (io_call (CloseIssue (l_issue inp)) (closeIssue inp (l_issue inp))) (\<lambda>_.
     io_bind (clean_up inp) (\<lambda>cleanupError.
     io_return (LandingDone (nonempty sha) (nonempty cleanupError) outcomes))))"

definition runCastleLanding :: "('w, 'z) RunCastleLandingInput_scheme \<Rightarrow> ('w, landing_call, CastleLandingResult) io" where
  "runCastleLanding inp =
     (if \<not> l_gate_ok inp then io_return (LandingRefused GateFailed None)
      else (case firstBlockingSinkOutcome (l_sinkOutcomes inp) of
        Some x \<Rightarrow>
          io_bind (comment inp (l_issue inp) (robot @ '' Castle landing skipped: gate sink '' @ sink_text x @ ''.'')) (\<lambda>_.
          io_return (LandingRefused GateParked None))
      | None \<Rightarrow>
          io_bind (io_call (Land (merge_input inp)) (land inp (merge_input inp))) (\<lambda>landed.
          case landed of
            NotLanded reason message \<Rightarrow> io_return (LandingRefused LandFailed (nullish_or message (Some reason)))
          | Landed sha \<Rightarrow> after_land inp sha)))"

section \<open>Lemmas\<close>

lemma cascade_all_calls: "calls_in (cascade_all inp rb tip ss xs) (range RebaseSibling \<union> range (\<lambda>(n, t). CommentIssue n t))"
proof (induction ss arbitrary: xs)
  case (Cons s ss)
  show ?case
    by (auto simp: cascade_sibling_def comment_def intro!: Cons calls_in_bind calls_in_call)
qed auto

lemma cascade_calls: "calls_in (runCascadeRebase inp tip) (range RebaseSibling \<union> range (\<lambda>(n, t). CommentIssue n t))"
  by (auto simp: runCascadeRebase_def intro!: calls_in_bind cascade_all_calls split: option.splits)

lemma clean_up_calls: "calls_in (clean_up inp) (range CleanupBranch)"
  by (auto simp: clean_up_def intro!: calls_in_catch calls_in_bind calls_in_call split: option.splits)

lemma no_block_iff: "firstBlockingSinkOutcome xs = None \<longleftrightarrow> set xs \<subseteq> {Approved}"
  by (auto simp: firstBlockingSinkOutcome_def find_None_iff)

text \<open>What a landing did when it called for the issue to be closed.\<close>

lemma closing_landing:
  assumes run: "runCastleLanding inp (w, []) = (res, (w', l))" and close: "CloseIssue n \<in> set l"
  shows "n = l_issue inp \<and> l_gate_ok inp \<and> set (l_sinkOutcomes inp) \<subseteq> {Approved} \<and>
     (\<exists>sha w1 pre post. land inp (merge_input inp) w = (Inr (Landed sha), w1) \<and>
        l = Land (merge_input inp) # pre @ CloseIssue n # post \<and> (\<forall>m. CloseIssue m \<notin> set (pre @ post)))"
proof -
  have ok: "l_gate_ok inp"
  proof (rule ccontr)
    assume "\<not> l_gate_ok inp"
    then show False using run close by (simp add: runCastleLanding_def io_return_def)
  qed
  have none: "firstBlockingSinkOutcome (l_sinkOutcomes inp) = None"
    using run close ok
    by (auto simp: runCastleLanding_def io_bind_def io_return_def io_call_def comment_def
        split: option.splits prod.splits sum.splits)
  obtain r w1 where land: "land inp (merge_input inp) w = (r, w1)" by (metis surj_pair)
  have lands: "runCastleLanding inp (w, []) =
      (case r of Inl e \<Rightarrow> (Inl e, (w1, [Land (merge_input inp)]))
       | Inr (NotLanded a b) \<Rightarrow> (Inr (LandingRefused LandFailed (nullish_or b (Some a))), (w1, [Land (merge_input inp)]))
       | Inr (Landed sha) \<Rightarrow> after_land inp sha (w1, [Land (merge_input inp)]))"
    using ok none land
    by (simp add: runCastleLanding_def io_bind_def io_call_def io_return_def split: sum.split CastleLandingMergeResult.split)
  then obtain sha where sha: "r = Inr (Landed sha)" and after: "after_land inp sha (w1, [Land (merge_input inp)]) = (res, (w', l))"
    using run close by (auto split: sum.splits CastleLandingMergeResult.splits)
  obtain rc w2 l2 where cascade: "runCascadeRebase inp sha (w1, [Land (merge_input inp)]) = (rc, (w2, l2))" by (metis surj_pair)
  obtain pre where pre: "l2 = [Land (merge_input inp)] @ pre" "set pre \<subseteq> range RebaseSibling \<union> range (\<lambda>(n, t). CommentIssue n t)"
    using calls_inE[OF cascade_calls cascade] by blast
  obtain rk w3 where closed: "closeIssue inp (l_issue inp) w2 = (rk, w3)" by (metis surj_pair)
  obtain ru w4 l4 where clean: "clean_up inp (w3, l2 @ [CloseIssue (l_issue inp)]) = (ru, (w4, l4))" by (metis surj_pair)
  obtain post where post: "l4 = (l2 @ [CloseIssue (l_issue inp)]) @ post" "set post \<subseteq> range CleanupBranch"
    using calls_inE[OF clean_up_calls clean] by blast
  have l: "l = l2 \<or> l = l2 @ [CloseIssue (l_issue inp)] \<or> l = l4"
    using after cascade closed clean
    by (auto simp: after_land_def io_bind_def io_call_def io_return_def split: sum.splits)
  have "l \<noteq> l2" using close pre by auto
  then obtain post' where l': "l = Land (merge_input inp) # pre @ CloseIssue (l_issue inp) # post'" "set post' \<subseteq> range CleanupBranch"
    using l pre(1) post by auto
  have "n = l_issue inp" using close pre(2) l' by auto
  moreover have "\<forall>m. CloseIssue m \<notin> set (pre @ post')" using pre(2) l'(2) by auto
  ultimately show ?thesis using ok none land sha l'(1) by (auto simp: no_block_iff)
qed

section \<open>Properties\<close>

text \<open>
  C4. A closed issue was validated and landed: a landing that is given the verdict of a gate run
  closes no issue but its own, once, and only after the land answered that it landed, the sink
  approved every finding, and the gate had run every script of every scope and every command of
  the operator with exit code 0.
\<close>

theorem closed_issue_was_validated:
  assumes "runCastleGate g (u, k) = (Inr r, (u', k'))"
    and "l_gate_ok inp = g_ok r" and "l_sinkOutcomes inp = sinkOutcomes r"
    and "runCastleLanding inp (w, []) = (res, (w', l))" and "CloseIssue n \<in> set l"
  shows "n = l_issue inp \<and>
     (\<exists>sha w1 pre post. land inp (merge_input inp) w = (Inr (Landed sha), w1) \<and>
        l = Land (merge_input inp) # pre @ CloseIssue n # post \<and> (\<forall>m. CloseIssue m \<notin> set (pre @ post))) \<and>
     set (sinkOutcomes r) \<subseteq> {Approved} \<and>
     (\<forall>scope \<in> set (scopesForValidationScope (gate_scope g)). \<forall>script \<in> set FEEDBACK_SCRIPTS.
        hasScript g scope script \<longrightarrow>
          (\<exists>v v' x. feedbackExec g [''pnpm'', ''-C'', scopeDir (worktree g) scope, script]
             (validationResourceClass scope script) v = (Inr x, v') \<and> code x = Num 0)) \<and>
     (\<forall>c \<in> set (gate_commands g). \<exists>v v' x.
        backpressureExec g c (worktree g) (gate_timeout g) Heavy v = (Inr x, v') \<and> code x = Num 0)"
proof -
  have closing: "n = l_issue inp" "l_gate_ok inp" "set (l_sinkOutcomes inp) \<subseteq> {Approved}"
      "\<exists>sha w1 pre post. land inp (merge_input inp) w = (Inr (Landed sha), w1) \<and>
        l = Land (merge_input inp) # pre @ CloseIssue n # post \<and> (\<forall>m. CloseIssue m \<notin> set (pre @ post))"
    using closing_landing[OF assms(4,5)] by blast+
  have "g_ok r" using closing(2) assms(2) by simp
  note green = green_gate_ran_everything[OF assms(1) this]
  show ?thesis
    unfolding assms(3)[symmetric]
    by (intro conjI) (rule closing(1,3,4) green[THEN conjunct2, THEN conjunct1]
      green[THEN conjunct2, THEN conjunct2, THEN conjunct1])+
qed

text \<open>
  C37. The siblings are rebased between the land and the close, outside any handler: when the
  rebase of a sibling or the comment on it throws, the landing throws, and the issue whose work
  is already on the trunk is left open.
\<close>

theorem merged_issue_left_open:
  assumes "l_gate_ok inp" and "set (l_sinkOutcomes inp) \<subseteq> {Approved}"
    and "land inp (merge_input inp) w = (Inr (Landed sha), w1)"
    and "runCascadeRebase inp sha (w1, [Land (merge_input inp)]) = (Inl e, (w2, l2))"
  shows "runCastleLanding inp (w, []) = (Inl e, (w2, l2)) \<and> (\<forall>n. CloseIssue n \<notin> set l2)"
proof -
  obtain pre where "l2 = [Land (merge_input inp)] @ pre" "set pre \<subseteq> range RebaseSibling \<union> range (\<lambda>(n, t). CommentIssue n t)"
    using calls_inE[OF cascade_calls assms(4)] by blast
  then have "\<forall>n. CloseIssue n \<notin> set l2" by auto
  moreover have "firstBlockingSinkOutcome (l_sinkOutcomes inp) = None" using assms(2) no_block_iff by blast
  ultimately show ?thesis
    using assms by (simp add: runCastleLanding_def io_bind_def io_call_def after_land_def)
qed

section \<open>Witnesses\<close>

text \<open>A forge that counts its calls, whose comments on issue 8 fail.\<close>

definition toy_landing :: "CastleCascadeSibling list \<Rightarrow> nat RunCastleLandingInput" where
  "toy_landing ss =
     \<lparr>l_issue = 7, l_branch = ''afk/7'', l_base = None, l_gate_ok = True, l_sinkOutcomes = [Approved],
      commentOnIssue = (\<lambda>n _ w. (if n = 8 then Inl ''gone'' else Inr (), w + 1)), closeIssue = (\<lambda>_ w. (Inr (), w + 1)),
      land = (\<lambda>_ w. (Inr (Landed (Some ''abc'')), w + 1)), cleanupBranch = None,
      cascade = Some \<lparr>siblings = ss, rebase = (\<lambda>_ w. (Inr (RebaseOk None None), w + 1))\<rparr>\<rparr>"

definition waiting_sibling :: CastleCascadeSibling where
  "waiting_sibling = \<lparr>s_issue = 8, s_branch = ''afk/8'', s_base = None, s_state = DoneWaiting\<rparr>"

theorem closed_issue_was_validated_witness:
  "\<exists>r. g_ok r \<and> (\<exists>u. runCastleGate toy_gate (0, []) = (Inr r, u)) \<and> set (sinkOutcomes r) \<subseteq> {Approved} \<and>
     (\<exists>t. runCastleLanding (toy_landing []) (0, []) = (Inr (LandingDone (Some ''abc'') None (Some [])), t))"
proof -
  obtain r l' where run: "runCastleGate toy_gate (0, []) = (Inr r, (3, l'))" and ok: "g_ok r" using toy_gate_run by blast
  have land: "runCastleLanding ((toy_landing [])\<lparr>l_gate_ok := True, l_sinkOutcomes := [Approved]\<rparr>) (0, []) =
      (Inr (LandingDone (Some ''abc'') None (Some [])), (2, [Land \<lparr>mi_issue = 7, mi_branch = ''afk/7'', mi_base = None\<rparr>, CloseIssue 7]))"
    by code_simp
  have outcomes: "sinkOutcomes r = [Approved]"
  proof -
    have "(case gate_end of (Inr r, _) \<Rightarrow> sinkOutcomes r = [Approved] | _ \<Rightarrow> False)" by code_simp
    then show ?thesis by (simp add: gate_end_def run)
  qed
  have base: "(toy_landing [])\<lparr>l_gate_ok := True, l_sinkOutcomes := [Approved]\<rparr> = toy_landing []"
    by (simp add: toy_landing_def)
  have "set (sinkOutcomes r) \<subseteq> {Approved}"
    using closed_issue_was_validated[OF run _ _ land, of 7] ok outcomes by (simp add: toy_landing_def)
  then show ?thesis using run ok land base by auto
qed

theorem merged_issue_left_open_witness:
  "\<exists>t. runCastleLanding (toy_landing [waiting_sibling]) (0, []) = (Inl ''gone'', t) \<and> (\<forall>n. CloseIssue n \<notin> set (snd t))"
proof -
  let ?i = "toy_landing [waiting_sibling]"
  have land: "land ?i (merge_input ?i) 0 = (Inr (Landed (Some ''abc'')), 1)" by (simp add: toy_landing_def)
  obtain l2 where rb: "runCascadeRebase ?i (Some ''abc'') (1, [Land (merge_input ?i)]) = (Inl ''gone'', (3, l2))"
    by (simp add: runCascadeRebase_def toy_landing_def waiting_sibling_def io_bind_def io_call_def io_return_def
        cascade_sibling_def comment_def)
  have "l_gate_ok ?i" "set (l_sinkOutcomes ?i) \<subseteq> {Approved}" by (simp_all add: toy_landing_def)
  from merged_issue_left_open[OF this land rb] show ?thesis by auto
qed

end
