(* ===== verification/Work_Selection.thy ===== *)
theory Work_Selection
  imports Prelude "HOL-Library.Product_Lexorder" "HOL-Library.Multiset"
begin

text \<open>
  Which issues a Worker may take: the work scope of
  \<open>packages/worker/src/engine/work-selector.ts\<close>, the selection of
  \<open>packages/worker/src/engine/worker-drain.ts\<close> and the run mode a lane demands,
  \<open>packages/worker/src/engine/lane-run-mode.ts\<close>. Issue numbers are integers; a login is compared
  by the lower case of its ASCII letters.
\<close>

section \<open>Work selectors\<close>

datatype WorkSelectorValidationError =
    SelectorMessage string
  | BadTag jsval

record WorkSelector =
  sel_spec :: "int option"
  sel_lane :: "string option"
  sel_label :: "string option"
  sel_issues :: "int list option"
  sel_tags :: "string list option"
  sel_user :: "string option"

definition no_selector :: WorkSelector where
  "no_selector = \<lparr>sel_spec = None, sel_lane = None, sel_label = None, sel_issues = None, sel_tags = None, sel_user = None\<rparr>"

definition sum_bind :: "'e + 'a \<Rightarrow> ('a \<Rightarrow> 'e + 'b) \<Rightarrow> 'e + 'b" where
  "sum_bind r f = (case r of Inl e \<Rightarrow> Inl e | Inr x \<Rightarrow> f x)"

text \<open>A facet: absent when the property is nullish, else what its reader makes of it.\<close>

definition facet :: "jsval \<Rightarrow> string \<Rightarrow> (jsval \<Rightarrow> 'e + 'a) \<Rightarrow> 'e + 'a option" where
  "facet v k read =
     (if nullish (get_prop v k) then Inr None
      else (case read (get_prop v k) of Inl e \<Rightarrow> Inl e | Inr x \<Rightarrow> Inr (Some x)))"

definition positive_val :: "jsval \<Rightarrow> int option" where
  "positive_val v = (if is_integer_val v \<and> int_of_num (num_of v) > 0 then Some (int_of_num (num_of v)) else None)"

definition read_spec :: "jsval \<Rightarrow> WorkSelectorValidationError + int" where
  "read_spec v =
     (case positive_val v of
        None \<Rightarrow> Inl (SelectorMessage ''work selector spec must be a positive integer'')
      | Some n \<Rightarrow> Inr n)"

definition assertNonEmptyString :: "string \<Rightarrow> jsval \<Rightarrow> WorkSelectorValidationError + string" where
  "assertNonEmptyString field v =
     (if is_nonempty_str v then Inr (str_of v) else Inl (SelectorMessage (''work selector needs string '' @ field)))"

fun read_issues :: "jsval \<Rightarrow> WorkSelectorValidationError + int list" where
  "read_issues (JArr vs) =
     (if list_ex (\<lambda>v. positive_val v = None) vs
      then Inl (SelectorMessage ''work selector issues must be positive integers'')
      else Inr (map (\<lambda>v. the (positive_val v)) vs))"
| "read_issues _ = Inl (SelectorMessage ''work selector issues must be positive integers'')"

definition tag_start :: "char \<Rightarrow> bool" where
  "tag_start c \<longleftrightarrow> is_digit c \<or> (let n = (of_char c :: nat) in 97 \<le> n \<and> n \<le> 122)"

text \<open>\<open>SELECTOR_TAG_VALUE_RE\<close>.\<close>

definition tag_value :: "string \<Rightarrow> bool" where
  "tag_value s \<longleftrightarrow> s \<noteq> [] \<and> tag_start (hd s) \<and> list_all (\<lambda>c. tag_start c \<or> c = CHR ''-'') (tl s)"

fun tags_loop :: "jsval list \<Rightarrow> string list \<Rightarrow> WorkSelectorValidationError + string list" where
  "tags_loop [] out = Inr out"
| "tags_loop (entry # entries) out =
     (let tag = (case entry of JStr s \<Rightarrow> trim s | _ \<Rightarrow> []) in
      if \<not> tag_value tag then Inl (BadTag entry)
      else tags_loop entries (if tag \<in> set out then out else out @ [tag]))"

definition normalizeSelectorTags :: "jsval \<Rightarrow> WorkSelectorValidationError + string list" where
  "normalizeSelectorTags v =
     (case v of
        JArr (x # xs) \<Rightarrow> tags_loop (x # xs) []
      | _ \<Rightarrow> Inl (SelectorMessage ''work selector tags must be a non-empty array of bare tag values''))"

definition normalizeWorkSelector :: "jsval \<Rightarrow> WorkSelectorValidationError + WorkSelector option" where
  "normalizeWorkSelector v =
     (if nullish v then Inr None
      else if \<not> is_record v then Inl (SelectorMessage ''work selector must be an object'')
      else sum_bind (facet v ''spec'' read_spec) (\<lambda>sp.
        sum_bind (facet v ''lane'' (assertNonEmptyString ''selector.lane'')) (\<lambda>la.
        sum_bind (facet v ''label'' (assertNonEmptyString ''selector.label'')) (\<lambda>lb.
        sum_bind (facet v ''issues'' read_issues) (\<lambda>is.
        sum_bind (facet v ''tags'' normalizeSelectorTags) (\<lambda>tg.
        sum_bind (facet v ''user'' (assertNonEmptyString ''selector.user'')) (\<lambda>us.
        let out = \<lparr>sel_spec = sp, sel_lane = la, sel_label = lb, sel_issues = is, sel_tags = tg, sel_user = us\<rparr> in
        Inr (if out = no_selector then None else Some out))))))))"

definition parseWorkSelector :: "jsval \<Rightarrow> WorkSelectorValidationError + WorkSelector" where
  "parseWorkSelector v =
     sum_bind (normalizeWorkSelector v) (\<lambda>s. Inr (case s of None \<Rightarrow> no_selector | Some x \<Rightarrow> x))"

text \<open>The flat bag of overrides; a value that is neither text, number nor truth value is refused.\<close>

definition is_scalar :: "jsval \<Rightarrow> bool" where
  "is_scalar v \<longleftrightarrow> is_str v \<or> is_num v \<or> is_bool v"

fun config_loop :: "(string \<times> jsval) list \<Rightarrow> (string \<times> jsval) list \<Rightarrow> WorkSelectorValidationError + (string \<times> jsval) list" where
  "config_loop [] out = Inr out"
| "config_loop ((k, v) # es) out =
     (if nullish v then config_loop es out
      else if \<not> is_scalar v then
        Inl (SelectorMessage (''work config '' @ json_quote k @ '' must be a string, number, or boolean''))
      else config_loop es (js_put out k v))"

text \<open>\<open>Object.entries\<close>: an index key comes first, whatever its place.\<close>

definition own_entries :: "jsval \<Rightarrow> (string \<times> jsval) list" where
  "own_entries v = fold (\<lambda>(k, x) m. js_put m k x) (Prelude.fields v) []"

definition normalizeWorkConfig :: "jsval \<Rightarrow> WorkSelectorValidationError + (string \<times> jsval) list option" where
  "normalizeWorkConfig v =
     (if nullish v then Inr None
      else if \<not> is_record v then Inl (SelectorMessage ''work config must be an object'')
      else sum_bind (config_loop (own_entries v) []) (\<lambda>out. Inr (if out = [] then None else Some out)))"

section \<open>Candidates\<close>

record CastleIssueCandidate =
  c_number :: int
  c_title :: string
  c_body :: string
  c_labels :: "string list"
  c_author :: "string option"

datatype CastleSelectionFilter =
    FilterAll
  | FilterIssues "int list"
  | FilterSpec int
  | FilterSelector WorkSelector

record CastleSelectionLabels =
  cl_ready :: string
  typeSpec :: string
  urgent :: string
  high :: string
  laneIsolated :: "string list"

definition DEFAULT_CASTLE_SELECTION_LABELS :: CastleSelectionLabels where
  "DEFAULT_CASTLE_SELECTION_LABELS =
     \<lparr>cl_ready = ''ready-for-agent'', typeSpec = ''type:spec'', urgent = ''priority:urgent'',
      high = ''priority:high'', laneIsolated = [''lane:go'', ''lane:scout'']\<rparr>"

definition hasLabel :: "CastleIssueCandidate \<Rightarrow> string \<Rightarrow> bool" where
  "hasLabel c l \<longleftrightarrow> l \<in> set (c_labels c)"

definition word_char :: "char \<Rightarrow> bool" where
  "word_char c \<longleftrightarrow>
     is_digit c \<or> c = CHR ''_'' \<or>
     (let n = (of_char c :: nat) in (97 \<le> n \<and> n \<le> 122) \<or> (65 \<le> n \<and> n \<le> 90))"

text \<open>A match of \<open>spec:\s*#?N\b\<close> at the head of the text, and anywhere in it.\<close>

definition spec_at :: "int \<Rightarrow> string \<Rightarrow> bool" where
  "spec_at n s \<longleftrightarrow>
     starts_with ''spec:'' s \<and>
     (let r = dropWhile is_ws (drop 5 s);
          r = (if starts_with ''#'' r then tl r else r);
          rest = drop (length (show_int n)) r in
      starts_with (show_int n) r \<and> (rest = [] \<or> \<not> word_char (hd rest)))"

fun spec_mentioned :: "int \<Rightarrow> string \<Rightarrow> bool" where
  "spec_mentioned n [] \<longleftrightarrow> False"
| "spec_mentioned n (c # cs) \<longleftrightarrow> spec_at n (c # cs) \<or> spec_mentioned n cs"

definition matchesSpec :: "CastleIssueCandidate \<Rightarrow> int \<Rightarrow> bool" where
  "matchesSpec c n \<longleftrightarrow> hasLabel c (''spec:'' @ show_int n) \<or> spec_mentioned n (c_body c)"

definition matchesWorkSelector :: "CastleIssueCandidate \<Rightarrow> WorkSelector \<Rightarrow> bool" where
  "matchesWorkSelector c s \<longleftrightarrow>
     (case sel_spec s of None \<Rightarrow> True | Some n \<Rightarrow> matchesSpec c n) \<and>
     (case sel_lane s of None \<Rightarrow> True | Some l \<Rightarrow> hasLabel c (''lane:'' @ l)) \<and>
     (case sel_label s of None \<Rightarrow> True | Some l \<Rightarrow> hasLabel c l) \<and>
     (case sel_issues s of None \<Rightarrow> True | Some ns \<Rightarrow> c_number c \<in> set ns) \<and>
     (case sel_tags s of None \<Rightarrow> True | Some ts \<Rightarrow> list_all (\<lambda>t. hasLabel c (''tag:'' @ t)) ts) \<and>
     (case sel_user s of
        None \<Rightarrow> True
      | Some u \<Rightarrow> (case c_author c of None \<Rightarrow> False | Some a \<Rightarrow> to_lower a = to_lower u))"

definition isolatedFromPool :: "CastleIssueCandidate \<Rightarrow> string \<Rightarrow> string list \<Rightarrow> bool" where
  "isolatedFromPool c poolLabel isolated =
     (let carried = filter (hasLabel c) isolated in
      carried \<noteq> [] \<and> \<not> list_all (\<lambda>l. l = poolLabel) carried)"

definition sortByPriority :: "CastleIssueCandidate list \<Rightarrow> CastleSelectionLabels \<Rightarrow> CastleIssueCandidate list" where
  "sortByPriority cs L = sort_key (\<lambda>c. (if hasLabel c (high L) then 0 else 1 :: nat, c_number c)) cs"

text \<open>\<open>CastleIssueSelectionError\<close>: the message and the numbers that are missing.\<close>

type_synonym selection_error = "string \<times> int list"

definition missing_message :: "int list \<Rightarrow> string \<Rightarrow> string \<Rightarrow> string" where
  "missing_message missing declaredLane poolLabel =
     ''requested issue(s) missing: '' @ join '', '' (map (\<lambda>n. ''#'' @ show_int n) missing) @ '' (declared lane '' @
     ticked declaredLane @ ''; consulted queue '' @ ticked poolLabel @ '')''"

text \<open>The Map from numbers to candidates: of two with one number, the later.\<close>

definition by_number :: "CastleIssueCandidate list \<Rightarrow> int \<Rightarrow> CastleIssueCandidate option" where
  "by_number pool n = find (\<lambda>c. c_number c = n) (rev pool)"

definition selection_pool ::
    "CastleIssueCandidate list \<Rightarrow> CastleSelectionFilter \<Rightarrow> CastleSelectionLabels \<Rightarrow> string \<Rightarrow> CastleIssueCandidate list" where
  "selection_pool candidates f L poolLabel =
     (let excluded = filter (\<lambda>c. \<not> hasLabel c (typeSpec L) \<and> \<not> isolatedFromPool c poolLabel (laneIsolated L)) candidates in
      case f of FilterSelector s \<Rightarrow> filter (\<lambda>c. matchesWorkSelector c s) excluded | _ \<Rightarrow> excluded)"

definition filtered_rest ::
    "CastleIssueCandidate list \<Rightarrow> CastleSelectionFilter \<Rightarrow> CastleSelectionLabels \<Rightarrow> string \<Rightarrow> string \<Rightarrow>
     selection_error + CastleIssueCandidate list" where
  "filtered_rest pool f L poolLabel declaredLane =
     (let rest = filter (\<lambda>c. \<not> hasLabel c (urgent L)) pool in
      case f of
        FilterIssues ns \<Rightarrow>
          (let missing = filter (\<lambda>n. by_number pool n = None) ns in
           if missing \<noteq> [] then Inl (missing_message missing declaredLane poolLabel, missing)
           else Inr (List.map_filter (by_number pool) ns))
      | FilterSpec n \<Rightarrow> Inr (sortByPriority (filter (\<lambda>c. matchesSpec c n) rest) L)
      | FilterSelector _ \<Rightarrow> Inr (sortByPriority rest L)
      | FilterAll \<Rightarrow> Inr (sortByPriority rest L))"

definition selectCastleIssues ::
    "CastleIssueCandidate list \<Rightarrow> CastleSelectionFilter \<Rightarrow> CastleSelectionLabels \<Rightarrow> string \<Rightarrow> string \<Rightarrow>
     selection_error + CastleIssueCandidate list" where
  "selectCastleIssues candidates f L poolLabel declaredLane =
     (let pool = selection_pool candidates f L poolLabel;
          urgents = sort_key c_number (filter (\<lambda>c. hasLabel c (urgent L)) pool) in
      sum_bind (filtered_rest pool f L poolLabel declaredLane) (\<lambda>filtered.
        Inr (urgents @ filter (\<lambda>c. c_number c \<notin> set (map c_number urgents)) filtered)))"

section \<open>The run mode of a lane\<close>

definition LANE_GO :: string where "LANE_GO = ''lane:go''"

definition LANE_SCOUT :: string where "LANE_SCOUT = ''lane:scout''"

definition SCOUT_RUN_MODE :: string where "SCOUT_RUN_MODE = ''scout''"

record LaneRunModeContract =
  contract_lane :: string
  contract_mode :: "string option"
  why :: string

definition LANE_RUN_MODE_CONTRACT :: "LaneRunModeContract list" where
  "LANE_RUN_MODE_CONTRACT =
     [\<lparr>contract_lane = LANE_GO, contract_mode = None,
       why = ''a /go dispatch runs the ordinary ship pipeline; --pre-pr adds no-mistakes as an OPTION, never a requirement''\<rparr>,
      \<lparr>contract_lane = LANE_SCOUT, contract_mode = Some SCOUT_RUN_MODE,
       why = ''a scout-lane issue is a read-only investigation: without run_mode=scout the engine would push, open a PR and land''\<rparr>]"

text \<open>\<open>None\<close> when the label is no declared lane; \<open>Some None\<close> when it demands no mode.\<close>

definition requiredRunModeForLane :: "string \<Rightarrow> string option option" where
  "requiredRunModeForLane lane = map_option contract_mode (find (\<lambda>c. contract_lane c = lane) LANE_RUN_MODE_CONTRACT)"

definition refuses_mode :: "string list \<Rightarrow> string option \<Rightarrow> LaneRunModeContract \<Rightarrow> bool" where
  "refuses_mode labels runMode c \<longleftrightarrow>
     contract_mode c \<noteq> None \<and> contract_lane c \<in> set labels \<and> runMode \<noteq> contract_mode c"

definition laneRunModeRefusal :: "string list \<Rightarrow> string option \<Rightarrow> string option" where
  "laneRunModeRefusal labels runMode =
     (case find (refuses_mode labels runMode) LANE_RUN_MODE_CONTRACT of
        None \<Rightarrow> None
      | Some c \<Rightarrow> Some (''lane-to-mode contract: '' @ ticked (contract_lane c) @ '' requires run_mode='' @ the (contract_mode c) @
          '', this worker holds run_mode='' @ (case runMode of None \<Rightarrow> ''(none)'' | Some m \<Rightarrow> m) @ '' '' @ em_dash @
          '' refusing the claim. '' @ why c))"

section \<open>Lemmas\<close>

definition in_scope :: "CastleSelectionFilter \<Rightarrow> CastleSelectionLabels \<Rightarrow> string \<Rightarrow> CastleIssueCandidate \<Rightarrow> bool" where
  "in_scope f L poolLabel c \<longleftrightarrow>
     \<not> hasLabel c (typeSpec L) \<and> \<not> isolatedFromPool c poolLabel (laneIsolated L) \<and>
     (case f of
        FilterAll \<Rightarrow> True
      | FilterIssues ns \<Rightarrow> hasLabel c (urgent L) \<or> c_number c \<in> set ns
      | FilterSpec n \<Rightarrow> hasLabel c (urgent L) \<or> matchesSpec c n
      | FilterSelector s \<Rightarrow> matchesWorkSelector c s)"

definition rank :: "CastleSelectionLabels \<Rightarrow> CastleIssueCandidate \<Rightarrow> nat \<times> int" where
  "rank L c = (if hasLabel c (urgent L) then 0 else if hasLabel c (high L) then 1 else 2, c_number c)"

lemma isolated_iff: "isolatedFromPool c p ls \<longleftrightarrow> (\<exists>l \<in> set ls. hasLabel c l \<and> l \<noteq> p)"
  by (auto simp: isolatedFromPool_def list_all_iff filter_empty_conv)

lemma set_pool:
  "c \<in> set (selection_pool cs f L p) \<longleftrightarrow>
     c \<in> set cs \<and> \<not> hasLabel c (typeSpec L) \<and> \<not> isolatedFromPool c p (laneIsolated L) \<and>
     (\<forall>s. f = FilterSelector s \<longrightarrow> matchesWorkSelector c s)"
  by (auto simp: selection_pool_def Let_def split: CastleSelectionFilter.split)

lemma by_number_member: "by_number pool n = Some c \<Longrightarrow> c \<in> set pool \<and> c_number c = n"
  by (auto simp: by_number_def find_Some_iff) (metis nth_mem set_rev length_rev)

lemma by_number_none: "by_number pool n = None \<longleftrightarrow> n \<notin> c_number ` set pool"
  by (auto simp: by_number_def find_None_iff)

lemma set_filtered:
  "filtered_rest pool f L p d = Inr xs \<Longrightarrow> set xs \<subseteq> set pool"
  by (cases f)
    (auto simp: filtered_rest_def sortByPriority_def Let_def set_map_filter split: if_splits
      dest!: by_number_member)

lemma selected_in_pool:
  assumes "selectCastleIssues cs f L p d = Inr xs" and "c \<in> set xs"
  shows "c \<in> set (selection_pool cs f L p)"
  using assms set_filtered by (fastforce simp: selectCastleIssues_def Let_def sum_bind_def split: sum.splits)

text \<open>Two ranked halves, in one order.\<close>

lemma sort_by_rank:
  assumes "distinct (map c_number cs)"
    and "\<And>c. c \<in> set us \<Longrightarrow> hasLabel c (urgent L)" and "\<And>c. c \<in> set rs \<Longrightarrow> \<not> hasLabel c (urgent L)"
    and "mset us + mset rs = mset cs"
  shows "sort_key c_number us @ sortByPriority rs L = sort_key (rank L) cs"
proof -
  have eq: "set cs = set us \<union> set rs" using assms(4) by (metis set_mset_mset set_mset_union)
  have "inj_on (rank L) (set cs)"
    using assms(1) by (auto simp: inj_on_def rank_def distinct_map)
  moreover have "mset (sort_key c_number us @ sortByPriority rs L) = mset cs"
    using assms(4) by (simp add: sortByPriority_def)
  moreover have "sorted (map (rank L) (sort_key c_number us @ sortByPriority rs L))"
  proof -
    have 1: "sorted (map (rank L) (sort_key c_number us))"
    proof -
      have "map (rank L) (sort_key c_number us) = map (\<lambda>n. (0, n)) (map c_number (sort_key c_number us))"
        using assms(2) by (auto simp: rank_def)
      then show ?thesis by (auto simp: sorted_map intro: sorted_wrt_mono_rel[OF _ sorted_sort_key[of c_number us, unfolded sorted_map]])
    qed
    have 2: "sorted (map (rank L) (sortByPriority rs L))"
    proof -
      let ?k = "\<lambda>c. (if hasLabel c (high L) then 0 else 1 :: nat, c_number c)"
      have "sorted_wrt (\<lambda>x y. ?k x \<le> ?k y) (sortByPriority rs L)"
        using sorted_sort_key[of ?k rs] by (simp add: sortByPriority_def sorted_map)
      then have "sorted_wrt (\<lambda>x y. rank L x \<le> rank L y) (sortByPriority rs L)"
        by (rule sorted_wrt_mono_rel[rotated]) (use assms(3) in \<open>auto simp: rank_def sortByPriority_def split: if_splits\<close>)
      then show ?thesis by (simp add: sorted_map)
    qed
    have 3: "rank L x \<le> rank L y" if "x \<in> set us" "y \<in> set rs" for x y
      using assms(2)[OF that(1)] assms(3)[OF that(2)] by (auto simp: rank_def)
    show ?thesis using 1 2 3 by (auto simp: sorted_append sortByPriority_def)
  qed
  ultimately show ?thesis by (metis sort_key_inj_key_eq)
qed

lemma filter_urgent_split:
  "mset (filter P xs) = mset (filter (\<lambda>x. P x \<and> Q x) xs) + mset (filter (\<lambda>x. P x \<and> \<not> Q x) xs)"
  by (induction xs) auto

section \<open>Properties\<close>

text \<open>
  C20. The order of a drain is its specification: for a listing without double numbers, the
  issues of a drain that names none are the candidates of its scope, each once, urgent ones
  first, then the high ones, each group by number.
\<close>

theorem selection_is_ranked_scope:
  assumes "distinct (map c_number cs)" and "\<forall>ns. f \<noteq> FilterIssues ns"
  shows "selectCastleIssues cs f L p d = Inr (sort_key (rank L) (filter (in_scope f L p) cs))"
proof -
  let ?pool = "selection_pool cs f L p"
  let ?us = "filter (\<lambda>c. hasLabel c (urgent L)) ?pool"
  define keep where "keep = (case f of FilterSpec n \<Rightarrow> (\<lambda>c. matchesSpec c n) | _ \<Rightarrow> (\<lambda>c. True))"
  let ?rs = "filter keep (filter (\<lambda>c. \<not> hasLabel c (urgent L)) ?pool)"
  have rest: "filtered_rest ?pool f L p d = Inr (sortByPriority ?rs L)"
    using assms(2) by (cases f) (simp_all add: filtered_rest_def keep_def)
  have pool: "?pool = filter (\<lambda>c. \<not> hasLabel c (typeSpec L) \<and> \<not> isolatedFromPool c p (laneIsolated L) \<and>
      (case f of FilterSelector s \<Rightarrow> matchesWorkSelector c s | _ \<Rightarrow> True)) cs"
    by (cases f) (simp_all add: selection_pool_def filter_filter conj_ac cong: filter_cong)
  have us: "?us = filter (\<lambda>c. in_scope f L p c \<and> hasLabel c (urgent L)) cs"
    unfolding pool filter_filter using assms(2) by (intro filter_cong) (auto simp: in_scope_def split: CastleSelectionFilter.splits)
  have rs: "?rs = filter (\<lambda>c. in_scope f L p c \<and> \<not> hasLabel c (urgent L)) cs"
    unfolding pool filter_filter keep_def using assms(2)
    by (intro filter_cong) (auto simp: in_scope_def split: CastleSelectionFilter.splits)
  have distinct: "distinct (map c_number ?pool)" unfolding pool using assms(1) by (simp add: distinct_map_filter)
  have "c_number c \<notin> set (map c_number (sort_key c_number ?us))" if "c \<in> set (sortByPriority ?rs L)" for c
    using that distinct by (auto simp: sortByPriority_def distinct_map dest: inj_onD)
  then have drop: "filter (\<lambda>c. c_number c \<notin> set (map c_number (sort_key c_number ?us))) (sortByPriority ?rs L) = sortByPriority ?rs L"
    by (simp add: filter_id_conv)
  have "sort_key c_number ?us @ sortByPriority ?rs L = sort_key (rank L) (filter (in_scope f L p) cs)"
  proof (rule sort_by_rank)
    show "mset ?us + mset ?rs = mset (filter (in_scope f L p) cs)"
      unfolding us rs by (rule filter_urgent_split[symmetric])
  qed (use assms(1) in \<open>auto simp: distinct_map_filter\<close>)
  then show ?thesis using rest drop by (simp add: selectCastleIssues_def Let_def sum_bind_def)
qed

text \<open>
  An isolated lane stays isolated: whatever a drain selects is a candidate of its listing, no
  specification, and carries no isolated lane but the one that is the pool itself, even when the
  work selector of the filter names that lane; and with a work selector, urgent issues too must
  match it. The other filters also take the urgent issues of the pool, as
  \<open>selection_is_ranked_scope\<close> and \<open>explicit_list_gains_urgent\<close> say.
\<close>

theorem isolated_lane_never_selected:
  assumes "selectCastleIssues cs f L p d = Inr xs" and "c \<in> set xs"
  shows "c \<in> set cs \<and> \<not> hasLabel c (typeSpec L) \<and>
     (\<forall>l \<in> set (laneIsolated L). hasLabel c l \<longrightarrow> l = p) \<and>
     (\<forall>s. f = FilterSelector s \<longrightarrow> matchesWorkSelector c s)"
  using selected_in_pool[OF assms] by (auto simp: set_pool isolated_iff)

text \<open>
  An explicit list is not the limit of a drain: when every requested issue is in the pool,
  the urgent issues of the pool that nobody requested are selected too, before the requested
  ones.
\<close>

theorem explicit_list_gains_urgent:
  assumes "c \<in> set (selection_pool cs (FilterIssues ns) L p)" and "hasLabel c (urgent L)"
    and "\<forall>n \<in> set ns. n \<in> c_number ` set (selection_pool cs (FilterIssues ns) L p)"
  shows "\<exists>us rs. selectCastleIssues cs (FilterIssues ns) L p d = Inr (us @ rs) \<and> c \<in> set us \<and>
     (\<forall>x \<in> set rs. \<not> hasLabel x (urgent L) \<and> c_number x \<in> set ns)"
proof -
  let ?pool = "selection_pool cs (FilterIssues ns) L p"
  let ?us = "sort_key c_number (filter (\<lambda>c. hasLabel c (urgent L)) ?pool)"
  let ?xs = "List.map_filter (by_number ?pool) ns"
  have "filter (\<lambda>n. by_number ?pool n = None) ns = []"
    using assms(3) by (auto simp: filter_empty_conv by_number_none)
  then have "filtered_rest ?pool (FilterIssues ns) L p d = Inr ?xs" by (simp add: filtered_rest_def)
  moreover have "\<not> hasLabel x (urgent L) \<and> c_number x \<in> set ns"
    if "x \<in> set ?xs" "c_number x \<notin> set (map c_number ?us)" for x
    using that by (auto simp: set_map_filter dest!: by_number_member)
  ultimately show ?thesis
    using assms(1,2) by (intro exI[of _ ?us] exI) (auto simp: selectCastleIssues_def sum_bind_def Let_def)
qed

text \<open>
  A scout Ticket is only claimed by a scout: no run mode is refused but the one that would
  ship a read-only investigation, and every lane that the selection isolates has its mode
  declared.
\<close>

theorem scout_never_ships:
  "(laneRunModeRefusal labels m = None \<longleftrightarrow> LANE_SCOUT \<notin> set labels \<or> m = Some SCOUT_RUN_MODE) \<and>
   list_all (\<lambda>l. requiredRunModeForLane l \<noteq> None) (laneIsolated DEFAULT_CASTLE_SELECTION_LABELS)"
proof -
  have "list_all (\<lambda>l. requiredRunModeForLane l \<noteq> None) (laneIsolated DEFAULT_CASTLE_SELECTION_LABELS)" by code_simp
  then show ?thesis
    by (auto simp: laneRunModeRefusal_def LANE_RUN_MODE_CONTRACT_def refuses_mode_def)
qed

section \<open>Witnesses\<close>

definition issue :: "int \<Rightarrow> string list \<Rightarrow> CastleIssueCandidate" where
  "issue n ls = \<lparr>c_number = n, c_title = [], c_body = ''see spec: #12.'', c_labels = ls, c_author = None\<rparr>"

definition backlog :: "CastleIssueCandidate list" where
  "backlog = [issue 30 [''ready-for-agent''], issue 10 [''priority:urgent''], issue 20 [''priority:high''],
     issue 7 [''type:spec''], issue 5 [''lane:go'']]"

theorem selection_is_ranked_scope_witness:
  "map c_number (sort_key (rank DEFAULT_CASTLE_SELECTION_LABELS)
     (filter (in_scope (FilterSpec 12) DEFAULT_CASTLE_SELECTION_LABELS ''ready-for-agent'') backlog)) = [10, 20, 30]"
proof -
  have "distinct (map c_number backlog)" by code_simp
  from selection_is_ranked_scope[OF this, of "FilterSpec 12" DEFAULT_CASTLE_SELECTION_LABELS "''ready-for-agent''" "''ready-for-agent''"]
  have eq: "selectCastleIssues backlog (FilterSpec 12) DEFAULT_CASTLE_SELECTION_LABELS ''ready-for-agent'' ''ready-for-agent'' =
     Inr (sort_key (rank DEFAULT_CASTLE_SELECTION_LABELS)
       (filter (in_scope (FilterSpec 12) DEFAULT_CASTLE_SELECTION_LABELS ''ready-for-agent'') backlog))" by simp
  have "(case selectCastleIssues backlog (FilterSpec 12) DEFAULT_CASTLE_SELECTION_LABELS ''ready-for-agent'' ''ready-for-agent'' of
     Inr xs \<Rightarrow> map c_number xs = [10, 20, 30] | Inl _ \<Rightarrow> False)" by code_simp
  then show ?thesis by (simp only: eq sum.case)
qed

theorem isolated_lane_never_selected_witness:
  "\<exists>xs. selectCastleIssues backlog (FilterIssues [5]) DEFAULT_CASTLE_SELECTION_LABELS ''lane:go'' ''lane:go'' = Inr xs \<and>
     length xs = 2 \<and> \<not> hasLabel (hd xs) ''lane:scout''"
proof -
  let ?r = "selectCastleIssues backlog (FilterIssues [5]) DEFAULT_CASTLE_SELECTION_LABELS ''lane:go'' ''lane:go''"
  have "(case ?r of Inr xs \<Rightarrow> length xs = 2 | Inl _ \<Rightarrow> False)" by code_simp
  then obtain xs where xs: "?r = Inr xs" "length xs = 2" by (auto split: sum.splits)
  then have "hd xs \<in> set xs" by (cases xs) auto
  moreover have "''lane:scout'' \<in> set (laneIsolated DEFAULT_CASTLE_SELECTION_LABELS)" by code_simp
  ultimately show ?thesis using isolated_lane_never_selected[OF xs(1)] xs by auto
qed

theorem explicit_list_gains_urgent_witness:
  "\<exists>us rs. selectCastleIssues backlog (FilterIssues [30]) DEFAULT_CASTLE_SELECTION_LABELS ''ready-for-agent'' ''x'' = Inr (us @ rs) \<and>
     issue 10 [''priority:urgent''] \<in> set us \<and>
     (\<forall>x \<in> set rs. \<not> hasLabel x (urgent DEFAULT_CASTLE_SELECTION_LABELS) \<and> c_number x \<in> set [30])"
proof (rule explicit_list_gains_urgent)
  show "issue 10 [''priority:urgent''] \<in> set (selection_pool backlog (FilterIssues [30]) DEFAULT_CASTLE_SELECTION_LABELS ''ready-for-agent'')"
    by code_simp
  show "hasLabel (issue 10 [''priority:urgent'']) (urgent DEFAULT_CASTLE_SELECTION_LABELS)" by code_simp
  show "\<forall>n \<in> set [30]. n \<in> c_number ` set (selection_pool backlog (FilterIssues [30]) DEFAULT_CASTLE_SELECTION_LABELS ''ready-for-agent'')"
    by code_simp
qed

theorem scout_never_ships_witness:
  "laneRunModeRefusal [''ready-for-agent'', LANE_SCOUT] (Some SCOUT_RUN_MODE) = None \<and>
   laneRunModeRefusal [''ready-for-agent'', LANE_SCOUT] None \<noteq> None"
  using scout_never_ships[of "[''ready-for-agent'', LANE_SCOUT]" "Some SCOUT_RUN_MODE"]
    scout_never_ships[of "[''ready-for-agent'', LANE_SCOUT]" None] by auto

end
