(* ===== verification/Worker_Drain.thy ===== *)
theory Worker_Drain
  imports Effects Host_Capability Work_Selection "HOL-Library.Sublist"
begin

text \<open>
  The drain of a Worker: \<open>runCastleWorkerDrain\<close> of \<open>packages/worker/src/engine/worker-drain.ts\<close>.

  Everything the drain is given is a call of the environment: boot, hooks, the listing, the trust
  gate, the runner circuit, the processing of an issue and the console. Clock, budget and the two
  stop signals are reads. The context of a hook is the value that is stringified for it; the
  input of an issue is abstract, built by a parameter.
\<close>

section \<open>Data\<close>

type_synonym CastleWorkerOutcome = string

record CastleWorkerProcessResult =
  outcome :: CastleWorkerOutcome
  ending_reason :: "string option"

datatype repair_answer = Repair jsval | NoRepair string

datatype CastleIssueEligibility = Eligible | Ineligible string repair_answer

record CastleIssueHold =
  hold_issue :: int
  hold_reason :: string
  hold_repair :: repair_answer

record CastleWorkerDrainBudgetSnapshot =
  used :: int
  cap :: int

record 'w CastleWorkerDrainPolicy =
  maxIssues :: "int option"
  maxRuntimeMs :: "int option"
  budget :: "('w \<Rightarrow> CastleWorkerDrainBudgetSnapshot \<times> 'w) option"
  supervisorKilled :: "('w \<Rightarrow> bool \<times> 'w) option"
  shouldRetire :: "('w \<Rightarrow> bool \<times> 'w) option"

datatype CastleWorkerStopReason =
    DrainEmpty | LifetimeCap | BudgetCap | SupervisorKill | GracefulRetirement | IterCap | Once
  | RunnerUnavailable | HostConfig | ExhaustedStop

fun stop_text :: "CastleWorkerStopReason \<Rightarrow> string" where
  "stop_text DrainEmpty = ''drain-empty''"
| "stop_text LifetimeCap = ''lifetime-cap''"
| "stop_text BudgetCap = ''budget-cap''"
| "stop_text SupervisorKill = ''supervisor-kill''"
| "stop_text GracefulRetirement = ''graceful-retirement''"
| "stop_text IterCap = ''iter-cap''"
| "stop_text Once = ''once''"
| "stop_text RunnerUnavailable = ''runner-unavailable''"
| "stop_text HostConfig = ''host-config''"
| "stop_text ExhaustedStop = ''exhausted''"

datatype CastleSessionHookName = PreSession | PrePick | PostPick | OnIdle | PostSession | OnSessionError

datatype hook_context =
    StatsContext Runner string int int int
  | FilterContext CastleSelectionFilter
  | IssuesContext "int list"
  | ErrorContext Runner string string

record CastleWorkerDrainProcessed =
  processed_issue :: int
  processed_outcome :: CastleWorkerOutcome
  processed_reason :: "string option"

record BootResult =
  precheck_ok :: bool
  quarantinedIssues :: "int list option"

record CastleWorkerDrainSummary =
  s_runner :: Runner
  s_workerId :: string
  s_done :: int
  s_blocked :: int
  s_failed :: int
  s_total :: int
  heldForSummon :: int
  s_held :: "CastleIssueHold list"
  s_boot :: BootResult
  processed :: "CastleWorkerDrainProcessed list"
  drained :: bool
  exhausted :: bool
  runnerTransient :: bool
  hostConfig :: bool
  sessionHooksFired :: "CastleSessionHookName list"
  stopReason :: "CastleWorkerStopReason option"

datatype drain_call =
    RunBoot
  | FireHook CastleSessionHookName hook_context
  | ListCandidates
  | Classify int
  | CircuitOpen Runner
  | ProcessIssue int "Runner option"
  | Emit string

record 'w CastleWorkerDrainContext =
  ctx_runner :: Runner
  workerId :: string
  iterCap :: "int option"
  once :: bool
  ctx_filter :: CastleSelectionFilter
  alternate :: bool
  bootOnly :: bool
  sweepsSkipped :: bool
  policy :: "'w CastleWorkerDrainPolicy option"
  d_hostProfile :: jsval
  poolLabel :: "string option"
  declaredLane :: "string option"

record ('w, 'i) CastleWorkerDrainDeps =
  listCandidates :: "('w, CastleIssueCandidate list) env"
  classifyEligibility :: "(CastleIssueCandidate \<Rightarrow> ('w, CastleIssueEligibility) env) option"
  runBoot :: "('w, BootResult) env"
  buildProcessInput :: "CastleIssueCandidate \<Rightarrow> 'i"
  with_runner :: "Runner \<Rightarrow> 'i \<Rightarrow> 'i"
  processIssue :: "'i \<Rightarrow> ('w, CastleWorkerProcessResult) env"
  isOpen :: "(Runner \<Rightarrow> ('w, bool) env) option"
  emit :: "string \<Rightarrow> ('w, unit) env"
  dispatchSessionHook :: "(CastleSessionHookName \<Rightarrow> hook_context \<Rightarrow> ('w, bool) env) option"
  labels :: "CastleSelectionLabels option"
  nowMs :: "'w \<Rightarrow> int \<times> 'w"

section \<open>Steps\<close>

definition CASTLE_NO_MORE_TASKS :: string where
  "CASTLE_NO_MORE_TASKS = ''<promise>NO MORE TASKS</promise>''"

definition otherRunner :: "Runner \<Rightarrow> Runner \<Rightarrow> Runner" where
  "otherRunner r initial =
     (if r \<noteq> initial then initial
      else if initial = ClaudeMinimax then Claude
      else if initial = Claude then Codex
      else Claude)"

datatype bucket = DoneBucket | BlockedBucket | FailedBucket

definition classify :: "CastleWorkerOutcome \<Rightarrow> bucket" where
  "classify x =
     (if x = ''done'' then DoneBucket
      else if x = ''claim-lost'' \<or> x = ''hook-aborted'' then FailedBucket
      else BlockedBucket)"

definition budgetSpent :: "CastleWorkerDrainBudgetSnapshot option \<Rightarrow> bool" where
  "budgetSpent snapshot = (case snapshot of None \<Rightarrow> False | Some b \<Rightarrow> cap b > 0 \<and> used b \<ge> cap b)"

definition say :: "('w, 'i, 'z) CastleWorkerDrainDeps_scheme \<Rightarrow> string \<Rightarrow> ('w, drain_call, unit) io" where
  "say deps line = io_call (Emit line) (emit deps line)"

text \<open>A hook answers whether it aborted; without a dispatcher it is not fired.\<close>

definition fireSessionHook ::
    "('w, 'i, 'z) CastleWorkerDrainDeps_scheme \<Rightarrow> CastleSessionHookName \<Rightarrow> hook_context \<Rightarrow> ('w, drain_call, bool) io" where
  "fireSessionHook deps name context =
     (case dispatchSessionHook deps of
        None \<Rightarrow> io_return True
      | Some d \<Rightarrow> io_bind (io_call (FireHook name context) (d name context)) (\<lambda>aborted. io_return (\<not> aborted)))"

definition statsContext :: "('w, 'y) CastleWorkerDrainContext_scheme \<Rightarrow> int \<Rightarrow> int \<Rightarrow> int \<Rightarrow> hook_context" where
  "statsContext ctx d b t = StatsContext (ctx_runner ctx) (workerId ctx) d b t"

text \<open>The hooks fired so far, in order.\<close>

definition hooks_of :: "drain_call list \<Rightarrow> CastleSessionHookName list" where
  "hooks_of cs = List.map_filter (\<lambda>c. case c of FireHook n _ \<Rightarrow> Some n | _ \<Rightarrow> None) cs"

definition fired_since :: "nat \<Rightarrow> ('w, drain_call, CastleSessionHookName list) io" where
  "fired_since n = (\<lambda>(w, l). (Inr (hooks_of (drop n l)), (w, l)))"

text \<open>What the loop carries from one issue to the next.\<close>

record drain_state =
  ds_processed :: "CastleWorkerDrainProcessed list"
  ds_done :: int
  ds_blocked :: int
  ds_failed :: int
  ds_stop :: "CastleWorkerStopReason option"
  ds_transient :: bool
  ds_runner :: Runner

definition drain_start :: "('w, 'y) CastleWorkerDrainContext_scheme \<Rightarrow> drain_state" where
  "drain_start ctx = \<lparr>ds_processed = [], ds_done = 0, ds_blocked = 0, ds_failed = 0, ds_stop = None,
                      ds_transient = False, ds_runner = ctx_runner ctx\<rparr>"

definition policy_of :: "('w, 'y) CastleWorkerDrainContext_scheme \<Rightarrow> 'w CastleWorkerDrainPolicy" where
  "policy_of ctx = (case policy ctx of
       None \<Rightarrow> \<lparr>maxIssues = None, maxRuntimeMs = None, budget = None, supervisorKilled = None, shouldRetire = None\<rparr>
     | Some p \<Rightarrow> p)"

definition ask :: "('w \<Rightarrow> bool \<times> 'w) option \<Rightarrow> ('w, drain_call, bool) io" where
  "ask f = (case f of None \<Rightarrow> io_return False | Some g \<Rightarrow> io_read g)"

definition ask_budget :: "('w \<Rightarrow> CastleWorkerDrainBudgetSnapshot \<times> 'w) option \<Rightarrow> ('w, drain_call, bool) io" where
  "ask_budget f =
     (case f of None \<Rightarrow> io_return (budgetSpent None) | Some g \<Rightarrow> io_bind (io_read g) (\<lambda>b. io_return (budgetSpent (Some b))))"

definition ask_runtime ::
    "('w, 'i, 'z) CastleWorkerDrainDeps_scheme \<Rightarrow> int option \<Rightarrow> int \<Rightarrow> ('w, drain_call, bool) io" where
  "ask_runtime deps limit startedMs =
     (case limit of None \<Rightarrow> io_return False | Some m \<Rightarrow> io_bind (io_read (nowMs deps)) (\<lambda>n. io_return (n - startedMs \<ge> m)))"

definition drain_cap :: "('w, 'y) CastleWorkerDrainContext_scheme \<Rightarrow> int \<Rightarrow> int" where
  "drain_cap ctx tot = (case iterCap ctx of None \<Rightarrow> tot | Some n \<Rightarrow> if n > 0 then n else tot)"

text \<open>The guards before an issue is touched: the reason to stop, if there is one.\<close>

definition stop_before ::
    "('w, 'i, 'z) CastleWorkerDrainDeps_scheme \<Rightarrow> ('w, 'y) CastleWorkerDrainContext_scheme \<Rightarrow> int \<Rightarrow> int \<Rightarrow> int \<Rightarrow>
     drain_state \<Rightarrow> ('w, drain_call, CastleWorkerStopReason option) io" where
  "stop_before deps ctx startedMs tot i st =
     (let p = policy_of ctx in
      io_bind (ask (supervisorKilled p)) (\<lambda>killed.
      if killed then io_return (Some SupervisorKill)
      else io_bind (ask_budget (budget p)) (\<lambda>spent.
      if spent then io_return (Some BudgetCap)
      else io_bind (ask_runtime deps (maxRuntimeMs p) startedMs) (\<lambda>expired.
      if expired then io_return (Some LifetimeCap)
      else if (case maxIssues p of None \<Rightarrow> False | Some m \<Rightarrow> int (length (ds_processed st)) \<ge> m)
        then io_return (Some LifetimeCap)
      else if i \<ge> drain_cap ctx tot then io_return (Some IterCap)
      else io_return None))))"

definition circuit_open :: "('w, 'i, 'z) CastleWorkerDrainDeps_scheme \<Rightarrow> Runner \<Rightarrow> ('w, drain_call, bool) io" where
  "circuit_open deps r = (case isOpen deps of None \<Rightarrow> io_return False | Some f \<Rightarrow> io_call (CircuitOpen r) (f r))"

definition stopped :: "drain_state \<Rightarrow> CastleWorkerStopReason \<Rightarrow> drain_state" where
  "stopped st r = st\<lparr>ds_stop := Some r\<rparr>"

definition counted :: "drain_state \<Rightarrow> int \<Rightarrow> CastleWorkerProcessResult \<Rightarrow> drain_state" where
  "counted st n r =
     (let b = classify (outcome r) in
      st\<lparr>ds_done := ds_done st + (if b = DoneBucket then 1 else 0),
         ds_blocked := ds_blocked st + (if b = BlockedBucket then 1 else 0),
         ds_failed := ds_failed st + (if b = FailedBucket then 1 else 0),
         ds_processed := ds_processed st @
           [\<lparr>processed_issue = n, processed_outcome = outcome r,
             processed_reason = (if ending_reason r = Some [] then None else ending_reason r)\<rparr>]\<rparr>)"

definition progress_line :: "int \<Rightarrow> int \<Rightarrow> string" where
  "progress_line idx tot =
     ''progress: '' @ show_int idx @ ''/'' @ show_int tot @ '' ('' @ show_int (idx * 100 div tot) @ ''%) '' @ em_dash @
     '' '' @ show_int (tot - idx) @ '' remaining''"

text \<open>What follows an issue: the reason to stop after it, or the next runner.\<close>

definition after_issue ::
    "('w, 'y) CastleWorkerDrainContext_scheme \<Rightarrow> drain_state \<Rightarrow> CastleWorkerOutcome \<Rightarrow> ('w, drain_call, drain_state) io" where
  "after_issue ctx st x =
     (if x = ''exhausted'' then io_return (stopped st ExhaustedStop)
      else if x = ''runner-transient'' then io_return (stopped (st\<lparr>ds_transient := True\<rparr>) RunnerUnavailable)
      else if x = ''host-config'' then io_return (stopped st HostConfig)
      else if once ctx \<and> x \<noteq> ''claim-lost'' then io_return (stopped st Once)
      else io_bind (ask (shouldRetire (policy_of ctx))) (\<lambda>retire.
        if retire then io_return (stopped st GracefulRetirement)
        else io_return (if alternate ctx then st\<lparr>ds_runner := otherRunner (ds_runner st) (ctx_runner ctx)\<rparr> else st)))"

definition drain_issue ::
    "('w, 'i, 'z) CastleWorkerDrainDeps_scheme \<Rightarrow> ('w, 'y) CastleWorkerDrainContext_scheme \<Rightarrow> int \<Rightarrow> int \<Rightarrow> Runner \<Rightarrow>
     CastleIssueCandidate \<Rightarrow> drain_state \<Rightarrow> ('w, drain_call, drain_state) io" where
  "drain_issue deps ctx tot i issueRunner c st =
     (let base = buildProcessInput deps c;
          inp = (if alternate ctx then with_runner deps issueRunner base else base) in
      io_bind (io_call (ProcessIssue (c_number c) (if alternate ctx then Some issueRunner else None)) (processIssue deps inp)) (\<lambda>r.
      let st' = counted st (c_number c) r in
      io_bind (case ending_reason r of
          Some (x # xs) \<Rightarrow> say deps (''#'' @ show_int (c_number c) @ '' '' @ outcome r @ '': '' @ x # xs)
        | _ \<Rightarrow> io_return ()) (\<lambda>_.
      io_bind (say deps (progress_line (i + 1) tot)) (\<lambda>_.
      after_issue ctx st' (outcome r)))))"

text \<open>A runner the host lacks, or whose circuit is open, ends the drain before the issue.\<close>

definition dispatch_issue ::
    "('w, 'i, 'z) CastleWorkerDrainDeps_scheme \<Rightarrow> ('w, 'y) CastleWorkerDrainContext_scheme \<Rightarrow> Runner list \<Rightarrow> int \<Rightarrow> int \<Rightarrow>
     Runner \<Rightarrow> CastleIssueCandidate \<Rightarrow> drain_state \<Rightarrow> ('w, drain_call, drain_state) io" where
  "dispatch_issue deps ctx capable tot i issueRunner c st =
     (if issueRunner \<notin> set capable then
        io_bind (say deps (''runner '' @ runner_text issueRunner @ '' unavailable in host capability profile '' @ em_dash @
          '' skipping dispatch'')) (\<lambda>_. io_return (stopped st RunnerUnavailable))
      else io_bind (circuit_open deps issueRunner) (\<lambda>tripped.
        if tripped then
          io_bind (say deps (''runner '' @ runner_text issueRunner @ '' circuit open '' @ em_dash @
            '' stopping before claiming more issues'')) (\<lambda>_. io_return (stopped (st\<lparr>ds_transient := True\<rparr>) RunnerUnavailable))
        else drain_issue deps ctx tot i issueRunner c st))"

definition drain_turn ::
    "('w, 'i, 'z) CastleWorkerDrainDeps_scheme \<Rightarrow> ('w, 'y) CastleWorkerDrainContext_scheme \<Rightarrow> Runner list \<Rightarrow> int \<Rightarrow> int \<Rightarrow>
     int \<Rightarrow> CastleIssueCandidate \<Rightarrow> drain_state \<Rightarrow> ('w, drain_call, drain_state) io" where
  "drain_turn deps ctx capable startedMs tot i c st =
     io_bind (stop_before deps ctx startedMs tot i st) (\<lambda>reason.
     case reason of
       Some x \<Rightarrow> io_return (stopped st x)
     | None \<Rightarrow> dispatch_issue deps ctx capable tot i (if alternate ctx then ds_runner st else ctx_runner ctx) c st)"

fun drain_loop ::
    "('w, 'i, 'z) CastleWorkerDrainDeps_scheme \<Rightarrow> ('w, 'y) CastleWorkerDrainContext_scheme \<Rightarrow> Runner list \<Rightarrow> int \<Rightarrow> int \<Rightarrow>
     int \<Rightarrow> CastleIssueCandidate list \<Rightarrow> drain_state \<Rightarrow> ('w, drain_call, drain_state) io" where
  "drain_loop deps ctx capable startedMs tot i [] st = io_return st"
| "drain_loop deps ctx capable startedMs tot i (c # cs) st =
     io_bind (drain_turn deps ctx capable startedMs tot i c st) (\<lambda>st'.
     if ds_stop st' \<noteq> None then io_return st'
     else drain_loop deps ctx capable startedMs tot (i + 1) cs st')"

text \<open>The trust gate, asked of every selected candidate in order.\<close>

fun admit ::
    "('w, 'i, 'z) CastleWorkerDrainDeps_scheme \<Rightarrow> CastleIssueCandidate list \<Rightarrow> CastleIssueCandidate list \<times> CastleIssueHold list \<Rightarrow>
     ('w, drain_call, CastleIssueCandidate list \<times> CastleIssueHold list) io" where
  "admit deps [] acc = io_return acc"
| "admit deps (c # cs) acc =
     io_bind (case classifyEligibility deps of None \<Rightarrow> io_return Eligible | Some f \<Rightarrow> io_call (Classify (c_number c)) (f c)) (\<lambda>e.
     case e of
       Eligible \<Rightarrow> admit deps cs (fst acc @ [c], snd acc)
     | Ineligible reason rep \<Rightarrow>
         admit deps cs (fst acc, snd acc @ [\<lparr>hold_issue = c_number c, hold_reason = reason, hold_repair = rep\<rparr>]))"

fun say_all :: "('w, 'i, 'z) CastleWorkerDrainDeps_scheme \<Rightarrow> string list \<Rightarrow> ('w, drain_call, unit) io" where
  "say_all deps [] = io_return ()"
| "say_all deps (x # xs) = io_bind (say deps x) (\<lambda>_. say_all deps xs)"

definition hold_lines :: "int \<Rightarrow> CastleIssueHold list \<Rightarrow> string list" where
  "hold_lines tot hs =
     (if hs = [] then []
      else (show_int tot @ '' eligible, '' @ show_int (int (length hs)) @ '' held by trust gate ('' @
              join '', '' (map (\<lambda>h. ''#'' @ show_int (hold_issue h)) hs) @ '')'')
           # map (\<lambda>h. ''trust hold #'' @ show_int (hold_issue h) @ '': '' @ hold_reason h) hs)"

section \<open>The drain\<close>

definition empty_summary :: "('w, 'y) CastleWorkerDrainContext_scheme \<Rightarrow> BootResult \<Rightarrow> CastleSessionHookName list \<Rightarrow> CastleWorkerDrainSummary" where
  "empty_summary ctx boot fired =
     \<lparr>s_runner = ctx_runner ctx, s_workerId = workerId ctx, s_done = 0, s_blocked = 0, s_failed = 0, s_total = 0,
      heldForSummon = 0, s_held = [], s_boot = boot, processed = [], drained = False, exhausted = False,
      runnerTransient = False, hostConfig = False, sessionHooksFired = fired, stopReason = None\<rparr>"

definition drain_summary ::
    "('w, 'y) CastleWorkerDrainContext_scheme \<Rightarrow> BootResult \<Rightarrow> int \<Rightarrow> CastleIssueHold list \<Rightarrow> drain_state \<Rightarrow>
     CastleSessionHookName list \<Rightarrow> CastleWorkerDrainSummary" where
  "drain_summary ctx boot tot hs st fired =
     \<lparr>s_runner = ctx_runner ctx, s_workerId = workerId ctx, s_done = ds_done st, s_blocked = ds_blocked st,
      s_failed = ds_failed st, s_total = tot, heldForSummon = int (length hs), s_held = hs, s_boot = boot,
      processed = ds_processed st, drained = False, exhausted = (ds_stop st = Some ExhaustedStop),
      runnerTransient = ds_transient st, hostConfig = (ds_stop st = Some HostConfig), sessionHooksFired = fired,
      stopReason = ds_stop st\<rparr>"

definition drain_queue ::
    "('w, 'i, 'z) CastleWorkerDrainDeps_scheme \<Rightarrow> ('w, 'y) CastleWorkerDrainContext_scheme \<Rightarrow> nat \<Rightarrow> int \<Rightarrow> BootResult \<Rightarrow>
     CastleIssueCandidate list \<times> CastleIssueHold list \<Rightarrow> ('w, drain_call, CastleWorkerDrainSummary) io" where
  "drain_queue deps ctx n startedMs boot qh =
     (let queue = fst qh; hs = snd qh; tot = int (length queue) in
      io_bind (fireSessionHook deps PostPick (IssuesContext (map c_number queue))) (\<lambda>_.
      io_bind (say_all deps (hold_lines tot hs)) (\<lambda>_.
      if queue = [] then
        io_bind (fireSessionHook deps OnIdle (statsContext ctx 0 0 0)) (\<lambda>_.
        io_bind (say deps CASTLE_NO_MORE_TASKS) (\<lambda>_.
        io_bind (fireSessionHook deps PostSession (statsContext ctx 0 0 0)) (\<lambda>_.
        io_bind (fired_since n) (\<lambda>fired.
        io_return ((empty_summary ctx boot fired)
          \<lparr>heldForSummon := int (length hs), s_held := hs, drained := True, stopReason := Some DrainEmpty\<rparr>)))))
      else
        io_bind (io_of_sum (resolveHostCapabilities (d_hostProfile ctx))) (\<lambda>caps.
        io_bind (drain_loop deps ctx (r_runners caps) startedMs tot 0 queue (drain_start ctx)) (\<lambda>st.
        io_bind (fireSessionHook deps PostSession (statsContext ctx (ds_done st) (ds_blocked st) tot)) (\<lambda>_.
        io_bind (case ds_stop st of None \<Rightarrow> io_return () | Some r \<Rightarrow> say deps (''worker stop: '' @ stop_text r)) (\<lambda>_.
        io_bind (fired_since n) (\<lambda>fired.
        io_return (drain_summary ctx boot tot hs st fired)))))))))"

definition unquarantined :: "BootResult \<Rightarrow> CastleIssueCandidate list \<Rightarrow> CastleIssueCandidate list" where
  "unquarantined boot cs =
     (let q = (case quarantinedIssues boot of None \<Rightarrow> [] | Some ns \<Rightarrow> ns) in filter (\<lambda>c. c_number c \<notin> set q) cs)"

definition drain_labels :: "('w, 'i, 'z) CastleWorkerDrainDeps_scheme \<Rightarrow> CastleSelectionLabels" where
  "drain_labels deps = (case labels deps of None \<Rightarrow> DEFAULT_CASTLE_SELECTION_LABELS | Some L \<Rightarrow> L)"

definition drain_pool :: "('w, 'i, 'z) CastleWorkerDrainDeps_scheme \<Rightarrow> ('w, 'y) CastleWorkerDrainContext_scheme \<Rightarrow> string" where
  "drain_pool deps ctx = (case poolLabel ctx of None \<Rightarrow> cl_ready (drain_labels deps) | Some p \<Rightarrow> p)"

definition drain_session ::
    "('w, 'i, 'z) CastleWorkerDrainDeps_scheme \<Rightarrow> ('w, 'y) CastleWorkerDrainContext_scheme \<Rightarrow> nat \<Rightarrow> int \<Rightarrow> BootResult \<Rightarrow>
     ('w, drain_call, CastleWorkerDrainSummary) io" where
  "drain_session deps ctx n startedMs boot =
     io_bind (fireSessionHook deps PreSession (statsContext ctx 0 0 0)) (\<lambda>go.
     if \<not> go then io_bind (fired_since n) (\<lambda>fired. io_return (empty_summary ctx boot fired))
     else
       io_bind (fireSessionHook deps PrePick (FilterContext (ctx_filter ctx))) (\<lambda>_.
       io_bind (io_call ListCandidates (listCandidates deps)) (\<lambda>candidates.
       io_bind (io_of_sum (case selectCastleIssues (unquarantined boot candidates) (ctx_filter ctx) (drain_labels deps)
             (drain_pool deps ctx) (case declaredLane ctx of None \<Rightarrow> drain_pool deps ctx | Some l \<Rightarrow> l) of
           Inl (m, _) \<Rightarrow> Inl m | Inr xs \<Rightarrow> Inr xs)) (\<lambda>selected.
       io_bind (admit deps selected ([], [])) (drain_queue deps ctx n startedMs boot)))))"

definition runCastleWorkerDrain ::
    "('w, 'i, 'z) CastleWorkerDrainDeps_scheme \<Rightarrow> ('w, 'y) CastleWorkerDrainContext_scheme \<Rightarrow>
     ('w, drain_call, CastleWorkerDrainSummary) io" where
  "runCastleWorkerDrain deps ctx = (\<lambda>s.
     (let n = length (snd s) in
      io_bind (io_read (nowMs deps)) (\<lambda>startedMs.
      io_bind (io_call RunBoot (runBoot deps)) (\<lambda>boot.
      if \<not> precheck_ok boot then io_return (empty_summary ctx boot [])
      else if bootOnly ctx then
        io_bind (say deps (if sweepsSkipped ctx
            then ''boot complete (--boot-only): sweeps skipped (supervisor-owned), no issues processed''
            else ''boot complete (--boot-only): sweeps ran, no issues processed'')) (\<lambda>_. io_return (empty_summary ctx boot []))
      else
        io_catch (drain_session deps ctx n startedMs boot)
          (\<lambda>e. io_bind (fireSessionHook deps OnSessionError (ErrorContext (ctx_runner ctx) (workerId ctx) e)) (\<lambda>_. io_throw e)))) s))"

section \<open>Lemmas\<close>

definition terminal_outcomes :: "string list" where
  "terminal_outcomes = [''exhausted'', ''runner-transient'', ''host-config'']"

definition tally :: "drain_state \<Rightarrow> int" where
  "tally st = ds_done st + ds_blocked st + ds_failed st"

text \<open>An outcome after which the drain may go on.\<close>

definition goes_on :: "('w, 'y) CastleWorkerDrainContext_scheme \<Rightarrow> CastleWorkerOutcome \<Rightarrow> bool" where
  "goes_on ctx x \<longleftrightarrow> x \<notin> set terminal_outcomes \<and> (once ctx \<longrightarrow> x = ''claim-lost'')"

lemma stop_before_none:
  "stop_before deps ctx s0 tot i st s = (Inr None, t) \<Longrightarrow>
     i < drain_cap ctx tot \<and> (\<forall>m. maxIssues (policy_of ctx) = Some m \<longrightarrow> int (length (ds_processed st)) < m)"
  by (cases s; cases t) (auto simp: stop_before_def Let_def io_simps split: if_splits option.splits)

lemma after_issue_spec:
  assumes "after_issue ctx st x s = (Inr st', t)" and "ds_stop st = None"
  shows "ds_processed st' = ds_processed st \<and> tally st' = tally st \<and> (ds_stop st' = None \<longrightarrow> goes_on ctx x) \<and>
     (ds_stop st' = Some ExhaustedStop \<longleftrightarrow> x = ''exhausted'') \<and> (ds_stop st' = Some HostConfig \<longleftrightarrow> x = ''host-config'')"
proof -
  consider "x = ''exhausted''" | "x = ''runner-transient''" | "x = ''host-config''" | "x \<notin> set terminal_outcomes"
    by (auto simp: terminal_outcomes_def)
  then show ?thesis
  proof cases
    case 4
    then have ne: "x \<noteq> ''exhausted''" "x \<noteq> ''runner-transient''" "x \<noteq> ''host-config''"
      by (simp_all add: terminal_outcomes_def)
    show ?thesis
    proof (cases "once ctx \<and> x \<noteq> ''claim-lost''")
      case True
      then show ?thesis using assms ne by (simp add: after_issue_def io_return_iff stopped_def tally_def)
    next
      case False
      let ?k = "\<lambda>retire. if retire then io_return (stopped st GracefulRetirement)
        else io_return (if alternate ctx then st\<lparr>ds_runner := otherRunner (ds_runner st) (ctx_runner ctx)\<rparr> else st)"
      have "io_bind (ask (shouldRetire (policy_of ctx))) ?k s = (Inr st', t)"
        using assms(1) ne False unfolding after_issue_def by (simp only: if_False)
      then obtain retire u where "(if retire then io_return (stopped st GracefulRetirement)
        else io_return (if alternate ctx then st\<lparr>ds_runner := otherRunner (ds_runner st) (ctx_runner ctx)\<rparr> else st)) u = (Inr st', t)"
        unfolding io_bind_iff by blast
      then have "st' = stopped st GracefulRetirement \<or> st' = st \<or>
          st' = st\<lparr>ds_runner := otherRunner (ds_runner st) (ctx_runner ctx)\<rparr>"
        by (simp add: io_return_iff split: if_splits)
      then show ?thesis using assms(2) ne 4 False by (elim disjE) (simp_all add: stopped_def tally_def goes_on_def)
    qed
  qed (use assms in \<open>simp_all add: after_issue_def io_return_iff stopped_def tally_def\<close>)
qed

lemma counted_spec:
  "map processed_issue (ds_processed (counted st n r)) = map processed_issue (ds_processed st) @ [n] \<and>
   map processed_outcome (ds_processed (counted st n r)) = map processed_outcome (ds_processed st) @ [outcome r] \<and>
   tally (counted st n r) = tally st + 1 \<and> ds_stop (counted st n r) = ds_stop st"
  by (cases "classify (outcome r)") (simp_all add: counted_def Let_def tally_def)

text \<open>One turn: it stops without touching the issue, or processes it.\<close>

definition touched :: "('w, 'y) CastleWorkerDrainContext_scheme \<Rightarrow> int \<Rightarrow> int \<Rightarrow> int \<Rightarrow> drain_state \<Rightarrow> drain_state \<Rightarrow> bool" where
  "touched ctx tot i n st st' \<longleftrightarrow>
     (\<exists>x. map processed_issue (ds_processed st') = map processed_issue (ds_processed st) @ [n] \<and>
        map processed_outcome (ds_processed st') = map processed_outcome (ds_processed st) @ [x] \<and>
        tally st' = tally st + 1 \<and> i < drain_cap ctx tot \<and>
        (\<forall>m. maxIssues (policy_of ctx) = Some m \<longrightarrow> int (length (ds_processed st)) < m) \<and>
        (ds_stop st' = None \<longrightarrow> goes_on ctx x) \<and>
        (ds_stop st' = Some ExhaustedStop \<longleftrightarrow> x = ''exhausted'') \<and> (ds_stop st' = Some HostConfig \<longleftrightarrow> x = ''host-config''))"

definition untouched :: "drain_state \<Rightarrow> drain_state \<Rightarrow> bool" where
  "untouched st st' \<longleftrightarrow>
     ds_processed st' = ds_processed st \<and> tally st' = tally st \<and>
     ds_stop st' \<notin> {None, Some ExhaustedStop, Some HostConfig}"

lemma drain_issue_spec:
  assumes run: "drain_issue deps ctx tot i rn c st (w, l) = (Inr st', t)" and none: "ds_stop st = None"
    and bounds: "i < drain_cap ctx tot" "\<forall>m. maxIssues (policy_of ctx) = Some m \<longrightarrow> int (length (ds_processed st)) < m"
  shows "touched ctx tot i (c_number c) st st'"
proof -
  obtain r u where after: "after_issue ctx (counted st (c_number c) r) (outcome r) u = (Inr st', t)"
    using run by (auto simp: drain_issue_def Let_def io_simps)
  note spec = after_issue_spec[OF after] counted_spec[of st "c_number c" r]
  show ?thesis unfolding touched_def
    by (rule exI[of _ "outcome r"]) (use spec none bounds in simp)
qed

lemma drain_turn_spec:
  assumes run: "drain_turn deps ctx capable s0 tot i c st (w, l) = (Inr st', t)" and none: "ds_stop st = None"
  shows "untouched st st' \<or> touched ctx tot i (c_number c) st st'"
proof -
  let ?rn = "if alternate ctx then ds_runner st else ctx_runner ctx"
  obtain reason w1 l1 where before: "stop_before deps ctx s0 tot i st (w, l) = (Inr reason, (w1, l1))"
      and rest: "(case reason of Some x \<Rightarrow> io_return (stopped st x)
        | None \<Rightarrow> dispatch_issue deps ctx capable tot i ?rn c st) (w1, l1) = (Inr st', t)"
    using run unfolding drain_turn_def io_bind_iff by (metis surj_pair)
  show ?thesis
  proof (cases reason)
    case (Some x)
    moreover have "x \<notin> {ExhaustedStop, HostConfig}"
      using before Some by (auto simp: stop_before_def Let_def io_simps split: if_splits option.splits)
    ultimately show ?thesis using rest by (auto simp: io_simps untouched_def stopped_def tally_def)
  next
    case None
    note bounds = stop_before_none[OF before[unfolded None]]
    have rest: "dispatch_issue deps ctx capable tot i ?rn c st (w1, l1) = (Inr st', t)" using rest None by simp
    show ?thesis
    proof (cases "\<exists>v. drain_issue deps ctx tot i ?rn c st v = (Inr st', t)")
      case True
      then obtain w2 l2 where "drain_issue deps ctx tot i ?rn c st (w2, l2) = (Inr st', t)" by (metis surj_pair)
      from drain_issue_spec[OF this none] show ?thesis using bounds by blast
    next
      case False
      then show ?thesis using rest unfolding dispatch_issue_def
        by (auto simp only: io_bind_iff io_return_iff split: if_splits)
          (auto simp: untouched_def stopped_def tally_def)
    qed
  qed
qed

text \<open>The loop: a prefix of the queue, within the bounds, stopped by what the last issue said.\<close>

definition loop_ok ::
    "('w, 'y) CastleWorkerDrainContext_scheme \<Rightarrow> int \<Rightarrow> CastleIssueCandidate list \<Rightarrow> drain_state \<Rightarrow> bool" where
  "loop_ok ctx tot queue st \<longleftrightarrow>
     map processed_issue (ds_processed st) = map c_number (take (length (ds_processed st)) queue) \<and>
     tally st = int (length (ds_processed st)) \<and>
     int (length (ds_processed st)) \<le> max 0 (drain_cap ctx tot) \<and>
     (\<forall>m. maxIssues (policy_of ctx) = Some m \<longrightarrow> int (length (ds_processed st)) \<le> max 0 m) \<and>
     (\<forall>x \<in> set (map processed_outcome (butlast (ds_processed st))). goes_on ctx x) \<and>
     (ds_stop st = None \<longrightarrow> (\<forall>x \<in> set (map processed_outcome (ds_processed st)). goes_on ctx x)) \<and>
     (ds_stop st = Some ExhaustedStop \<longrightarrow> (\<exists>p. ds_processed st = butlast (ds_processed st) @ [p] \<and> processed_outcome p = ''exhausted'')) \<and>
     (ds_stop st = Some HostConfig \<longrightarrow> (\<exists>p. ds_processed st = butlast (ds_processed st) @ [p] \<and> processed_outcome p = ''host-config''))"

lemma loop_ok_start: "loop_ok ctx tot queue (drain_start ctx)"
  by (simp add: loop_ok_def drain_start_def tally_def)

lemma touched_ok:
  assumes ok: "loop_ok ctx tot queue st" and none: "ds_stop st = None"
    and at: "length (ds_processed st) < length queue" and i: "i = int (length (ds_processed st))"
    and t: "touched ctx tot i (c_number (queue ! length (ds_processed st))) st st'"
  shows "loop_ok ctx tot queue st' \<and> length (ds_processed st') = Suc (length (ds_processed st))"
proof -
  obtain x where x: "map processed_issue (ds_processed st') = map processed_issue (ds_processed st) @ [c_number (queue ! length (ds_processed st))]"
        "map processed_outcome (ds_processed st') = map processed_outcome (ds_processed st) @ [x]"
        "tally st' = tally st + 1" "i < drain_cap ctx tot"
        "\<forall>m. maxIssues (policy_of ctx) = Some m \<longrightarrow> int (length (ds_processed st)) < m"
        "ds_stop st' = None \<longrightarrow> goes_on ctx x"
        "ds_stop st' = Some ExhaustedStop \<longleftrightarrow> x = ''exhausted''" "ds_stop st' = Some HostConfig \<longleftrightarrow> x = ''host-config''"
    using t[unfolded touched_def] by (elim exE conjE) (rule that)
  have len: "length (ds_processed st') = Suc (length (ds_processed st))" using arg_cong[OF x(1), of length] by simp
  then obtain ps p where ps: "ds_processed st' = ps @ [p]" by (cases "ds_processed st'" rule: rev_cases) auto
  have out: "map processed_outcome ps = map processed_outcome (ds_processed st)" "processed_outcome p = x" using x(2) ps by auto
  have prefix: "map processed_issue (ds_processed st') = map c_number (take (length (ds_processed st')) queue)"
    using ok at by (simp add: x(1) len loop_ok_def take_Suc_conv_app_nth)
  have set: "\<forall>y \<in> processed_outcome ` set ps. goes_on ctx y"
  proof -
    have "\<forall>y \<in> set (map processed_outcome (ds_processed st)). goes_on ctx y" using ok none unfolding loop_ok_def by blast
    then show ?thesis unfolding out(1)[symmetric] by simp
  qed
  have bound: "int (length (ds_processed st')) \<le> max 0 (drain_cap ctx tot)" using x(4) len i by simp
  show ?thesis
    unfolding loop_ok_def
  proof (intro conjI)
    show "tally st' = int (length (ds_processed st'))" using ok x(3) len by (simp add: loop_ok_def)
    show "\<forall>m. maxIssues (policy_of ctx) = Some m \<longrightarrow> int (length (ds_processed st')) \<le> max 0 m"
      using x(5) len by fastforce
    show "ds_stop st' = None \<longrightarrow> (\<forall>x \<in> set (map processed_outcome (ds_processed st')). goes_on ctx x)"
      using set x(6) out(2) ps by auto
    show "\<forall>x \<in> set (map processed_outcome (butlast (ds_processed st'))). goes_on ctx x" using set ps by simp
    show "ds_stop st' = Some ExhaustedStop \<longrightarrow>
        (\<exists>p. ds_processed st' = butlast (ds_processed st') @ [p] \<and> processed_outcome p = ''exhausted'')"
      using x(7) out(2) ps by simp
    show "ds_stop st' = Some HostConfig \<longrightarrow>
        (\<exists>p. ds_processed st' = butlast (ds_processed st') @ [p] \<and> processed_outcome p = ''host-config'')"
      using x(8) out(2) ps by simp
  qed (fact prefix bound len)+
qed

lemma drain_loop_ok:
  assumes "drain_loop deps ctx capable s0 tot i cs st (w, l) = (Inr st', t)"
    and "loop_ok ctx tot queue st" and "ds_stop st = None" and "cs = drop (length (ds_processed st)) queue"
    and "i = int (length (ds_processed st))" and "length (ds_processed st) \<le> length queue"
  shows "loop_ok ctx tot queue st' \<and> (ds_stop st' = None \<longrightarrow> length (ds_processed st') = length queue)"
  using assms
proof (induction cs arbitrary: i st w l)
  case Nil
  then show ?case by (auto simp: io_simps)
next
  case (Cons c cs)
  obtain st1 w1 l1 where turn: "drain_turn deps ctx capable s0 tot i c st (w, l) = (Inr st1, (w1, l1))"
      and rest: "(if ds_stop st1 \<noteq> None then io_return st1 else drain_loop deps ctx capable s0 tot (i + 1) cs st1) (w1, l1) = (Inr st', t)"
    using Cons.prems(1) by (auto simp: io_bind_iff)
  have at: "length (ds_processed st) < length queue" using Cons.prems(4) by (metis drop_all linorder_not_less list.distinct(1))
  have c: "c = queue ! length (ds_processed st)" "cs = drop (Suc (length (ds_processed st))) queue"
    using Cons.prems(4) at by (metis Cons_nth_drop_Suc list.inject)+
  from drain_turn_spec[OF turn Cons.prems(3)] show ?case
  proof
    assume u: "untouched st st1"
    then have "st' = st1" using rest by (auto simp: untouched_def io_simps)
    moreover have "loop_ok ctx tot queue st1" using Cons.prems(2,3) u by (auto simp: loop_ok_def untouched_def)
    ultimately show ?thesis using u by (auto simp: untouched_def)
  next
    assume "touched ctx tot i (c_number c) st st1"
    then have ok: "loop_ok ctx tot queue st1" and len: "length (ds_processed st1) = Suc (length (ds_processed st))"
      using touched_ok[OF Cons.prems(2,3) at Cons.prems(5)] c(1) by blast+
    show ?thesis
    proof (cases "ds_stop st1 = None")
      case True
      have next_run: "drain_loop deps ctx capable s0 tot (i + 1) cs st1 (w1, l1) = (Inr st', t)" using rest True by simp
      show ?thesis
      proof (rule Cons.IH[OF next_run ok True])
        show "cs = drop (length (ds_processed st1)) queue" using c(2) len by simp
        show "i + 1 = int (length (ds_processed st1))" using Cons.prems(5) len by simp
        show "length (ds_processed st1) \<le> length queue" using len at by simp
      qed
    next
      case False
      then show ?thesis using ok rest by (auto simp: io_simps)
    qed
  qed
qed

text \<open>The queue is what the trust gate let through, in the order selected.\<close>

definition trusted :: "('w, 'i, 'z) CastleWorkerDrainDeps_scheme \<Rightarrow> CastleIssueCandidate \<Rightarrow> bool" where
  "trusted deps c \<longleftrightarrow>
     (case classifyEligibility deps of None \<Rightarrow> True | Some f \<Rightarrow> \<exists>u u'. f c u = (Inr Eligible, u'))"

lemma admit_spec:
  "admit deps cs (q, h) (w, l) = (Inr (q', h'), (w', l')) \<Longrightarrow>
     \<exists>new. q' = q @ new \<and> subseq new cs \<and> (\<forall>c \<in> set new. trusted deps c) \<and>
       length h' + length new = length h + length cs"
proof (induction cs arbitrary: q h w l)
  case (Cons c cs)
  obtain e w1 l1 where e: "(case classifyEligibility deps of None \<Rightarrow> io_return Eligible
        | Some f \<Rightarrow> io_call (Classify (c_number c)) (f c)) (w, l) = (Inr e, (w1, l1))"
      and rest: "(case e of Eligible \<Rightarrow> admit deps cs (q @ [c], h)
        | Ineligible reason rep \<Rightarrow> admit deps cs (q, h @ [\<lparr>hold_issue = c_number c, hold_reason = reason, hold_repair = rep\<rparr>]))
        (w1, l1) = (Inr (q', h'), (w', l'))"
    using Cons.prems by (auto simp: io_bind_iff)
  show ?case
  proof (cases e)
    case Eligible
    then have "admit deps cs (q @ [c], h) (w1, l1) = (Inr (q', h'), (w', l'))" using rest by simp
    from Cons.IH[OF this] obtain new where new: "q' = (q @ [c]) @ new" "subseq new cs" "\<forall>c \<in> set new. trusted deps c"
        "length h' + length new = length h + length cs" by blast
    have "trusted deps c" using e Eligible by (auto simp: trusted_def io_simps split: option.splits)
    then show ?thesis using new by (intro exI[of _ "c # new"]) auto
  next
    case (Ineligible reason rep)
    then have "admit deps cs (q, h @ [\<lparr>hold_issue = c_number c, hold_reason = reason, hold_repair = rep\<rparr>]) (w1, l1) =
        (Inr (q', h'), (w', l'))" using rest by simp
    from Cons.IH[OF this] obtain new where "q' = q @ new" "subseq new cs" "\<forall>c \<in> set new. trusted deps c"
        "length h' + length new = Suc (length h) + length cs" by auto
    then show ?thesis by (intro exI[of _ new]) auto
  qed
qed (simp add: io_simps)

lemma drain_queue_spec:
  assumes "drain_queue deps ctx n s0 boot (queue, hs) (w, l) = (Inr s, t)"
  shows "\<exists>st. loop_ok ctx (int (length queue)) queue st \<and> processed s = ds_processed st \<and>
     s_done s + s_blocked s + s_failed s = tally st \<and> s_total s = int (length queue) \<and>
     heldForSummon s = int (length hs) \<and> drained s = (queue = []) \<and>
     stopReason s = (if queue = [] then Some DrainEmpty else ds_stop st) \<and>
     (stopReason s = None \<longrightarrow> length (ds_processed st) = length queue)"
proof (cases "queue = []")
  case True
  then have "\<exists>fired. s = (empty_summary ctx boot fired)
          \<lparr>heldForSummon := int (length hs), s_held := hs, drained := True, stopReason := Some DrainEmpty\<rparr>"
    using assms by (auto simp: drain_queue_def Let_def io_bind_iff io_return_iff)
  moreover have "ds_processed (drain_start ctx) = []" "tally (drain_start ctx) = 0" "ds_stop (drain_start ctx) = None"
    by (simp_all add: drain_start_def tally_def)
  ultimately show ?thesis using True loop_ok_start[of ctx 0 "[]"]
    by (intro exI[of _ "drain_start ctx"]) (auto simp: empty_summary_def)
next
  case False
  have "\<exists>(caps :: ResolvedHostCapabilities) st u t1 fired.
      drain_loop deps ctx (r_runners caps) s0 (int (length queue)) 0 queue (drain_start ctx) u = (Inr st, t1) \<and>
      s = drain_summary ctx boot (int (length queue)) hs st fired"
    using assms False
    by (simp only: drain_queue_def Let_def fst_conv snd_conv if_False io_bind_iff io_return_iff)
      (elim exE conjE, intro exI conjI, assumption+)
  then obtain caps :: ResolvedHostCapabilities and st w1 l1 t1 fired where
      loop: "drain_loop deps ctx (r_runners caps) s0 (int (length queue)) 0 queue (drain_start ctx) (w1, l1) = (Inr st, t1)"
      and s: "s = drain_summary ctx boot (int (length queue)) hs st fired"
    by (metis surj_pair)
  have "loop_ok ctx (int (length queue)) queue st \<and> (ds_stop st = None \<longrightarrow> length (ds_processed st) = length queue)"
    by (rule drain_loop_ok[OF loop loop_ok_start]) (simp_all add: drain_start_def)
  then show ?thesis using s False by (intro exI[of _ st]) (simp add: drain_summary_def tally_def)
qed

text \<open>Which issues a drain may process, and as whom.\<close>

definition may_process ::
    "('w, 'i, 'z) CastleWorkerDrainDeps_scheme \<Rightarrow> ('w, 'y) CastleWorkerDrainContext_scheme \<Rightarrow> int \<Rightarrow> Runner option \<Rightarrow> bool" where
  "may_process deps ctx n r \<longleftrightarrow>
     (\<exists>boot cands selected c caps d u1 u1' u2 u2'.
        runBoot deps u1 = (Inr boot, u1') \<and> precheck_ok boot \<and> listCandidates deps u2 = (Inr cands, u2') \<and>
        selectCastleIssues (unquarantined boot cands) (ctx_filter ctx) (drain_labels deps) (drain_pool deps ctx) d = Inr selected \<and>
        c \<in> set selected \<and> c_number c = n \<and> trusted deps c \<and>
        resolveHostCapabilities (d_hostProfile ctx) = Inr caps \<and>
        (case r of None \<Rightarrow> ctx_runner ctx | Some x \<Rightarrow> x) \<in> set (r_runners caps))"

definition harmless :: "drain_call set" where
  "harmless = {c. \<forall>n r. c \<noteq> ProcessIssue n r}"

lemma harmless_calls:
  "calls_in (say deps x) harmless" "calls_in (say_all deps xs) harmless"
  "calls_in (fireSessionHook deps name ctxt) harmless" "calls_in (fired_since n) harmless"
  "calls_in (ask q) harmless" "calls_in (ask_budget b) harmless" "calls_in (ask_runtime deps bound s0) harmless"
  "calls_in (circuit_open deps rn) harmless" "calls_in (admit deps cs acc) harmless"
proof -
  show say: "calls_in (say deps x) harmless" for x by (auto simp: say_def harmless_def intro!: calls_in_call)
  show "calls_in (say_all deps xs) harmless" by (induction xs) (auto intro!: calls_in_bind say)
  show "calls_in (fireSessionHook deps name ctxt) harmless"
    by (auto simp: fireSessionHook_def harmless_def intro!: calls_in_bind calls_in_call split: option.splits)
  show "calls_in (fired_since n) harmless" by (auto simp: calls_in_def fired_since_def)
  show "calls_in (ask q) harmless" by (auto simp: ask_def split: option.splits)
  show "calls_in (ask_budget b) harmless" by (auto simp: ask_budget_def intro!: calls_in_bind split: option.splits)
  show "calls_in (ask_runtime deps bound s0) harmless" by (auto simp: ask_runtime_def intro!: calls_in_bind split: option.splits)
  show "calls_in (circuit_open deps rn) harmless"
    by (auto simp: circuit_open_def harmless_def intro!: calls_in_call split: option.splits)
  show "calls_in (admit deps cs acc) harmless"
    by (induction cs arbitrary: acc)
      (auto simp: harmless_def intro!: calls_in_bind calls_in_call split: option.splits CastleIssueEligibility.splits)
qed

lemma drain_loop_calls:
  assumes "\<And>c r. c \<in> set cs \<Longrightarrow> (case r of None \<Rightarrow> ctx_runner ctx | Some x \<Rightarrow> x) \<in> set capable \<Longrightarrow>
      ProcessIssue (c_number c) r \<in> C" and "harmless \<subseteq> C"
  shows "calls_in (drain_loop deps ctx capable s0 tot i cs st) C"
  using assms(1)
proof (induction cs arbitrary: i st)
  case (Cons c cs)
  note free = calls_in_mono[OF harmless_calls(1) assms(2)] calls_in_mono[OF harmless_calls(5) assms(2)]
    calls_in_mono[OF harmless_calls(6) assms(2)] calls_in_mono[OF harmless_calls(7) assms(2)]
    calls_in_mono[OF harmless_calls(8) assms(2)]
  have before: "calls_in (stop_before deps ctx s0 tot i st) C"
    unfolding stop_before_def Let_def by (intro calls_in_intros free)
  have after: "calls_in (after_issue ctx st' x) C" for st' x
    unfolding after_issue_def by (intro calls_in_intros free)
  have issue: "calls_in (drain_issue deps ctx tot i rn c st) C"
    if "(case (if alternate ctx then Some rn else None) of None \<Rightarrow> ctx_runner ctx | Some x \<Rightarrow> x) \<in> set capable" for rn
    unfolding drain_issue_def Let_def
    by (intro calls_in_bind calls_in_call free after) (use Cons.prems[of c] that in \<open>auto intro!: free split: option.splits list.splits\<close>)
  have dispatch: "calls_in (dispatch_issue deps ctx capable tot i (if alternate ctx then ds_runner st else ctx_runner ctx) c st) C"
  proof (cases "(if alternate ctx then ds_runner st else ctx_runner ctx) \<in> set capable")
    case True
    then have "calls_in (drain_issue deps ctx tot i (if alternate ctx then ds_runner st else ctx_runner ctx) c st) C"
      by (intro issue) (simp split: if_splits)
    then show ?thesis unfolding dispatch_issue_def by (intro calls_in_intros free)
  next
    case False
    then show ?thesis unfolding dispatch_issue_def by (simp only: not_False_eq_True if_True) (intro calls_in_intros free)
  qed
  have turn: "calls_in (drain_turn deps ctx capable s0 tot i c st) C"
    unfolding drain_turn_def by (intro calls_in_intros before dispatch)
  have "calls_in (drain_loop deps ctx capable s0 tot i cs st) C" for i st using Cons by simp
  then show ?case by (auto intro!: calls_in_bind turn)
qed auto

lemma drain_calls: "calls_in (runCastleWorkerDrain deps ctx) {c. \<forall>n r. c = ProcessIssue n r \<longrightarrow> may_process deps ctx n r}"
  (is "calls_in _ ?C")
proof -
  have free: "harmless \<subseteq> ?C" unfolding harmless_def by blast
  note free = harmless_calls[THEN calls_in_mono, OF free]
  have queue: "calls_in (drain_queue deps ctx n s0 boot qh) ?C"
    if b: "runBoot deps u1 = (Inr boot, u1')" "precheck_ok boot" and l: "listCandidates deps u2 = (Inr cands, u2')"
      and s: "selectCastleIssues (unquarantined boot cands) (ctx_filter ctx) (drain_labels deps) (drain_pool deps ctx) d = Inr selected"
      and q: "\<forall>c \<in> set (fst qh). c \<in> set selected \<and> trusted deps c"
    for n s0 boot qh u1 u1' u2 u2' cands selected d
  proof -
    have loop: "calls_in (drain_loop deps ctx (r_runners caps) s0 tot i (fst qh) st) ?C"
      if "resolveHostCapabilities (d_hostProfile ctx) = Inr caps" for caps tot i st
      
    proof (rule drain_loop_calls)
      fix c r assume "c \<in> set (fst qh)" "(case r of None \<Rightarrow> ctx_runner ctx | Some x \<Rightarrow> x) \<in> set (r_runners caps)"
      then have "may_process deps ctx (c_number c) r" using b l s q that unfolding may_process_def by blast
      then show "ProcessIssue (c_number c) r \<in> ?C" by simp
    next
      show "harmless \<subseteq> ?C" unfolding harmless_def by blast
    qed
    show ?thesis
      unfolding drain_queue_def Let_def
      by (auto intro!: calls_in_bind calls_in_bind_returns[OF calls_in_return(3)] free loop
          simp: returns_of_sum split: option.splits)
  qed
  have admitted: "\<forall>c \<in> set (fst qh). c \<in> set selected \<and> trusted deps c" if "returns (admit deps selected ([], [])) qh" for selected qh
  proof -
    obtain w l w' l' where "admit deps selected ([], []) (w, l) = (Inr (fst qh, snd qh), (w', l'))"
      using \<open>returns _ _\<close> unfolding returns_def by (metis prod.collapse)
    from admit_spec[OF this] show ?thesis by (auto dest: list_emb_set)
  qed
  have session: "calls_in (drain_session deps ctx n s0 boot) ?C"
    if b: "\<exists>u1 u1'. runBoot deps u1 = (Inr boot, u1')" "precheck_ok boot" for n s0 boot
  proof -
    obtain u1 u1' where b: "runBoot deps u1 = (Inr boot, u1')" "precheck_ok boot" using b by blast
    have selecting: "calls_in (io_bind (admit deps selected ([], [])) (drain_queue deps ctx n s0 boot)) ?C"
      if l: "listCandidates deps u2 = (Inr cands, u2')"
        and s: "selectCastleIssues (unquarantined boot cands) (ctx_filter ctx) (drain_labels deps) (drain_pool deps ctx) d = Inr selected"
      for u2 u2' cands selected d
      by (rule calls_in_bind_returns[OF free(9)]) (rule queue[OF b l s admitted])
    have picking: "calls_in (io_bind (io_of_sum (case selectCastleIssues (unquarantined boot cands) (ctx_filter ctx)
             (drain_labels deps) (drain_pool deps ctx) d of Inl (m, _) \<Rightarrow> Inl m | Inr xs \<Rightarrow> Inr xs))
           (\<lambda>selected. io_bind (admit deps selected ([], [])) (drain_queue deps ctx n s0 boot))) ?C"
      if l: "\<exists>u2 u2'. listCandidates deps u2 = (Inr cands, u2')" for cands d
    proof -
      obtain u2 u2' where l: "listCandidates deps u2 = (Inr cands, u2')" using l by blast
      show ?thesis by (rule calls_in_bind_returns[OF calls_in_return(3)])
        (auto simp: returns_of_sum split: sum.splits prod.splits intro: selecting[OF l])
    qed
    have listing: "calls_in (io_call ListCandidates (listCandidates deps)) ?C" by (auto intro: calls_in_call)
    show ?thesis
      unfolding drain_session_def
      by (auto intro!: calls_in_bind free calls_in_bind_returns[OF listing] picking simp: returns_call)
  qed
  have body: "calls_in (io_bind (io_read (nowMs deps)) (\<lambda>startedMs.
      io_bind (io_call RunBoot (runBoot deps)) (\<lambda>boot.
      if \<not> precheck_ok boot then io_return (empty_summary ctx boot [])
      else if bootOnly ctx then
        io_bind (say deps (if sweepsSkipped ctx
            then ''boot complete (--boot-only): sweeps skipped (supervisor-owned), no issues processed''
            else ''boot complete (--boot-only): sweeps ran, no issues processed'')) (\<lambda>_. io_return (empty_summary ctx boot []))
      else
        io_catch (drain_session deps ctx n startedMs boot)
          (\<lambda>e. io_bind (fireSessionHook deps OnSessionError (ErrorContext (ctx_runner ctx) (workerId ctx) e)) (\<lambda>_. io_throw e))))) ?C" for n
  proof -
    have boot: "calls_in (io_call RunBoot (runBoot deps)) ?C" by (auto intro: calls_in_call)
    show ?thesis
      by (auto intro!: calls_in_bind calls_in_catch free calls_in_bind_returns[OF boot] session simp: returns_call) blast+
  qed
  show ?thesis
    unfolding calls_in_def
  proof (intro allI)
    fix w l
    show "\<exists>cs. snd (snd (runCastleWorkerDrain deps ctx (w, l))) = l @ cs \<and> set cs \<subseteq> ?C"
      using body[of "length l"] unfolding calls_in_def runCastleWorkerDrain_def Let_def snd_conv by blast
  qed
qed

section \<open>Properties\<close>

text \<open>
  C11. A Worker touches only what it was allowed to: whatever answers, hooks and errors a drain
  meets, every issue it hands to be processed was selected from the listing without the issues
  the boot quarantined, passed the trust gate, and goes to a runner the host declares.
\<close>

theorem only_admitted_issues_processed:
  assumes "runCastleWorkerDrain deps ctx (w, []) = (res, (w', l))" and "ProcessIssue n r \<in> set l"
  shows "may_process deps ctx n r"
proof -
  obtain cs where "l = [] @ cs" "set cs \<subseteq> {c. \<forall>n r. c = ProcessIssue n r \<longrightarrow> may_process deps ctx n r}"
    by (rule calls_inE[OF drain_calls assms(1)])
  moreover from this have "ProcessIssue n r \<in> set cs" using assms(2) by simp
  ultimately show ?thesis by blast
qed

text \<open>
  C29. A drain goes in order, within its bounds, and says why it stopped: from a queue of trusted
  candidates in the selected order it processes a prefix, all of it when it names no reason to
  stop, no more than its caps allow; the counts add up; and only the last issue can have ended
  in a way that ends a drain.
\<close>

theorem drain_takes_prefix:
  assumes "drain_queue deps ctx n s0 boot (queue, hs) (w, l) = (Inr s, t)"
  shows "map processed_issue (processed s) = map c_number (take (length (processed s)) queue) \<and>
     s_total s = int (length queue) \<and> s_done s + s_blocked s + s_failed s = int (length (processed s)) \<and>
     int (length (processed s)) \<le> max 0 (drain_cap ctx (s_total s)) \<and>
     (\<forall>m. maxIssues (policy_of ctx) = Some m \<longrightarrow> int (length (processed s)) \<le> max 0 m) \<and>
     (stopReason s = None \<longrightarrow> length (processed s) = length queue) \<and>
     (queue = [] \<longrightarrow> stopReason s = Some DrainEmpty) \<and>
     (\<forall>x \<in> set (map processed_outcome (butlast (processed s))). goes_on ctx x)"
proof -
  obtain st where st: "loop_ok ctx (int (length queue)) queue st" "processed s = ds_processed st"
     "s_done s + s_blocked s + s_failed s = tally st" "s_total s = int (length queue)"
     "stopReason s = (if queue = [] then Some DrainEmpty else ds_stop st)"
     "stopReason s = None \<longrightarrow> length (ds_processed st) = length queue"
    using drain_queue_spec[OF assms] by (elim exE conjE) (rule that)
  show ?thesis
  proof (intro conjI)
    show "queue = [] \<longrightarrow> stopReason s = Some DrainEmpty" using st(5) by simp
    show "stopReason s = None \<longrightarrow> length (processed s) = length queue" using st(2,6) by simp
    show "s_done s + s_blocked s + s_failed s = int (length (processed s))" using st(1,2,3) by (simp add: loop_ok_def)
    show "int (length (processed s)) \<le> max 0 (drain_cap ctx (s_total s))" using st(1,2,4) by (simp add: loop_ok_def)
    show "map processed_issue (processed s) = map c_number (take (length (processed s)) queue)"
      using st(1) unfolding st(2) loop_ok_def by (elim conjE)
    show "\<forall>m. maxIssues (policy_of ctx) = Some m \<longrightarrow> int (length (processed s)) \<le> max 0 m"
      using st(1) unfolding st(2) loop_ok_def by (elim conjE)
    show "\<forall>x \<in> set (map processed_outcome (butlast (processed s))). goes_on ctx x"
      using st(1) unfolding st(2) loop_ok_def by (elim conjE)
  qed (rule st(4))
qed

section \<open>Witnesses\<close>

text \<open>A world that counts; issue 10 is not trusted, and issue 20 exhausts the runner.\<close>

definition toy_deps :: "(nat, CastleIssueCandidate) CastleWorkerDrainDeps" where
  "toy_deps =
     \<lparr>listCandidates = (\<lambda>w. (Inr backlog, w + 1)),
      classifyEligibility = Some (\<lambda>c w. (Inr (if c_number c = 10 then Ineligible ''unknown author'' (NoRepair ''ask'') else Eligible), w)),
      runBoot = (\<lambda>w. (Inr \<lparr>precheck_ok = True, quarantinedIssues = None\<rparr>, w)),
      buildProcessInput = id, with_runner = (\<lambda>_ c. c),
      processIssue = (\<lambda>c w. (Inr \<lparr>outcome = (if c_number c = 20 then ''exhausted'' else ''done''), ending_reason = None\<rparr>, w + 1)),
      isOpen = None, emit = (\<lambda>_ w. (Inr (), w)), dispatchSessionHook = None, labels = None, nowMs = (\<lambda>w. (int w, w))\<rparr>"

definition toy_ctx :: "nat CastleWorkerDrainContext" where
  "toy_ctx = \<lparr>ctx_runner = Claude, workerId = ''w1'', iterCap = None, once = False, ctx_filter = FilterAll, alternate = False,
     bootOnly = False, sweepsSkipped = False, policy = None, d_hostProfile = JUndefined, poolLabel = None, declaredLane = None\<rparr>"

definition toy_drain :: "(string + CastleWorkerDrainSummary) \<times> nat \<times> drain_call list" where
  "toy_drain = runCastleWorkerDrain toy_deps toy_ctx (0, [])"

theorem only_admitted_issues_processed_witness:
  "may_process toy_deps toy_ctx 20 None"
proof -
  obtain res w l where run: "runCastleWorkerDrain toy_deps toy_ctx (0, []) = (res, (w, l))" by (metis surj_pair)
  have "ProcessIssue 20 None \<in> set (snd (snd toy_drain))" by code_simp
  then have "ProcessIssue 20 None \<in> set l" by (simp add: toy_drain_def run)
  from only_admitted_issues_processed[OF run this] show ?thesis .
qed

definition toy_queue :: "(string + CastleWorkerDrainSummary) \<times> nat \<times> drain_call list" where
  "toy_queue = drain_queue toy_deps toy_ctx 0 0 \<lparr>precheck_ok = True, quarantinedIssues = None\<rparr>
     ([issue 20 [], issue 30 []], []) (0, [])"

theorem drain_takes_prefix_witness:
  "\<exists>s t. toy_queue = (Inr s, t) \<and> map processed_issue (processed s) = [20] \<and> stopReason s = Some ExhaustedStop"
proof -
  have "(case toy_queue of (Inr s, _) \<Rightarrow> length (processed s) = 1 \<and> stopReason s = Some ExhaustedStop | _ \<Rightarrow> False)" by code_simp
  then obtain s t where run: "toy_queue = (Inr s, t)" and s: "length (processed s) = 1" "stopReason s = Some ExhaustedStop"
    by (auto split: prod.splits sum.splits)
  have "map processed_issue (processed s) = map c_number (take (length (processed s)) [issue 20 [], issue 30 []])"
    using drain_takes_prefix[OF run[unfolded toy_queue_def]] by blast
  then have "map processed_issue (processed s) = [20]" using s by (simp add: issue_def)
  then show ?thesis using run s(2) by (intro exI conjI)
qed

end
