(* ===== verification/Balance.thy ===== *)
theory Balance
  imports Prelude "HOL-Library.Word"
begin

text \<open>
  The token's remaining budget: \<open>packages/github/balance.ts\<close>, the answer of
  \<open>GET /rate_limit\<close> and all that is decided on it.

  Numbers are exact: counts are integers and fractions are rationals, so \<open>0.15\<close> is 15/100.
  \<open>Date.parse\<close> and \<open>toISOString\<close> are parameters, as is the printing of a fraction; a key is
  hashed by its bytes, which are its UTF-16 units when it is ASCII. The transport is a call that
  answers a value or throws.
\<close>

section \<open>Pools\<close>

datatype GithubRateBudget = Rest | Graphql | Search

datatype GithubApiSurface = RestSurface | GraphqlSurface

fun pool_text :: "GithubRateBudget \<Rightarrow> string" where
  "pool_text Rest = ''rest''"
| "pool_text Graphql = ''graphql''"
| "pool_text Search = ''search''"

fun GITHUB_POOL_RESOURCES :: "GithubRateBudget \<Rightarrow> string" where
  "GITHUB_POOL_RESOURCES Rest = ''core''"
| "GITHUB_POOL_RESOURCES Graphql = ''graphql''"
| "GITHUB_POOL_RESOURCES Search = ''search''"

definition GITHUB_POOLS :: "GithubRateBudget list" where
  "GITHUB_POOLS = [Rest, Graphql, Search]"

record GithubPoolBalance =
  pool :: GithubRateBudget
  pool_resource :: string
  limit :: int
  remaining :: int
  pool_used :: int
  reset_at :: string
  fraction :: rat

datatype GithubBalanceOutcome = Asked | Unanswered

record GithubBalance =
  b_outcome :: GithubBalanceOutcome
  asked_at :: string
  request_count :: int
  pools :: "GithubRateBudget \<Rightarrow> GithubPoolBalance option"
  unreported_pools :: "GithubRateBudget list"
  detail :: string

definition unaskedGithubBalance :: "string \<Rightarrow> string option \<Rightarrow> GithubBalance" where
  "unaskedGithubBalance t d =
     \<lparr>b_outcome = Unanswered, asked_at = t, request_count = 0, pools = (\<lambda>_. None), unreported_pools = GITHUB_POOLS,
      detail = (case d of None \<Rightarrow> ''no balance has been asked for yet, so none is known'' | Some x \<Rightarrow> x)\<rparr>"

section \<open>The cadence\<close>

record GithubBalanceCadenceStep =
  at_or_below_fraction :: rat
  every_ms :: int

definition GITHUB_BALANCE_MIN_CADENCE_MS :: int where
  "GITHUB_BALANCE_MIN_CADENCE_MS = 15000"

definition GITHUB_RESERVED_FRACTION :: rat where
  "GITHUB_RESERVED_FRACTION = 15 / 100"

definition GITHUB_BALANCE_CADENCE :: "GithubBalanceCadenceStep list" where
  "GITHUB_BALANCE_CADENCE =
     [\<lparr>at_or_below_fraction = 0, every_ms = GITHUB_BALANCE_MIN_CADENCE_MS\<rparr>,
      \<lparr>at_or_below_fraction = GITHUB_RESERVED_FRACTION, every_ms = 30000\<rparr>,
      \<lparr>at_or_below_fraction = 1 / 2, every_ms = 120000\<rparr>,
      \<lparr>at_or_below_fraction = 1, every_ms = 600000\<rparr>]"

definition stepFor :: "rat \<Rightarrow> GithubBalanceCadenceStep" where
  "stepFor f = (case find (\<lambda>s. f \<le> at_or_below_fraction s) GITHUB_BALANCE_CADENCE of
       Some s \<Rightarrow> s | None \<Rightarrow> last GITHUB_BALANCE_CADENCE)"

text \<open>Of the reported pools, the first with the least fraction.\<close>

definition tighter :: "GithubPoolBalance option \<Rightarrow> GithubPoolBalance option \<Rightarrow> GithubPoolBalance option" where
  "tighter t c =
     (case c of
        None \<Rightarrow> t
      | Some p \<Rightarrow> (case t of None \<Rightarrow> Some p | Some q \<Rightarrow> if fraction p < fraction q then Some p else Some q))"

definition tightestGithubPool :: "GithubBalance \<Rightarrow> GithubPoolBalance option" where
  "tightestGithubPool b = foldl tighter None (map (pools b) GITHUB_POOLS)"

definition msBetween :: "(string \<Rightarrow> int option) \<Rightarrow> string \<Rightarrow> string \<Rightarrow> int option" where
  "msBetween dateParse t0 t1 =
     (case dateParse t0 of None \<Rightarrow> None
      | Some a \<Rightarrow> (case dateParse t1 of None \<Rightarrow> None | Some b \<Rightarrow> Some (max 0 (b - a))))"

definition githubBalanceCadenceMs :: "(string \<Rightarrow> int option) \<Rightarrow> GithubBalance \<Rightarrow> string \<Rightarrow> int" where
  "githubBalanceCadenceMs dateParse b now =
     (case tightestGithubPool b of
        None \<Rightarrow> every_ms (stepFor GITHUB_RESERVED_FRACTION)
      | Some p \<Rightarrow>
          (let s = stepFor (fraction p) in
           if remaining p > 0 then every_ms s
           else (case msBetween dateParse now (reset_at p) of
             None \<Rightarrow> every_ms s
           | Some u \<Rightarrow> max GITHUB_BALANCE_MIN_CADENCE_MS (min (every_ms s) u))))"

section \<open>Reading the answer\<close>

definition as_record :: "jsval \<Rightarrow> jsval" where
  "as_record v = (if is_record v then v else JObj [])"

definition as_integer :: "jsval \<Rightarrow> int option" where
  "as_integer v = (case v of JNum x \<Rightarrow> trunc_finite x | _ \<Rightarrow> None)"

text \<open>\<open>toISO\<close> is \<open>None\<close> where \<open>toISOString\<close> throws; a pool is \<open>Inr None\<close> when it is not reported.\<close>

definition readPool :: "(int \<Rightarrow> string option) \<Rightarrow> GithubRateBudget \<Rightarrow> string \<Rightarrow> jsval \<Rightarrow> string + GithubPoolBalance option" where
  "readPool toISO p resource v =
     (if \<not> is_record v then Inr None
      else (case (as_integer (get_prop v ''limit''), as_integer (get_prop v ''remaining'')) of
        (Some l, Some r) \<Rightarrow>
          if l \<le> 0 then Inr None
          else
            (let u = (case as_integer (get_prop v ''used'') of None \<Rightarrow> 0 | Some x \<Rightarrow> x);
                 build = (\<lambda>stamp. Inr (Some \<lparr>pool = p, pool_resource = resource, limit = l, remaining = r, pool_used = u,
                            reset_at = stamp, fraction = of_int r / of_int l\<rparr>)) in
             (case as_integer (get_prop v ''reset'') of
                None \<Rightarrow> build []
              | Some t \<Rightarrow> (case toISO (t * 1000) of None \<Rightarrow> Inl ''Invalid time value'' | Some stamp \<Rightarrow> build stamp)))
      | _ \<Rightarrow> Inr None))"

definition read_of :: "(int \<Rightarrow> string option) \<Rightarrow> jsval \<Rightarrow> GithubRateBudget \<Rightarrow> string + GithubPoolBalance option" where
  "read_of toISO payload p =
     readPool toISO p (GITHUB_POOL_RESOURCES p)
       (get_prop (as_record (get_prop (as_record payload) ''resources'')) (GITHUB_POOL_RESOURCES p))"

text \<open>The pools are read in order; the first that throws ends the reading.\<close>

definition first_throw :: "(string + 'a) list \<Rightarrow> string option" where
  "first_throw rs = (case find isl rs of Some (Inl e) \<Rightarrow> Some e | _ \<Rightarrow> None)"

definition reported :: "string + 'a option \<Rightarrow> 'a option" where
  "reported r = (case r of Inr (Some x) \<Rightarrow> Some x | _ \<Rightarrow> None)"

definition parseGithubBalance :: "(int \<Rightarrow> string option) \<Rightarrow> jsval \<Rightarrow> string \<Rightarrow> string + GithubBalance" where
  "parseGithubBalance toISO payload askedAt =
     (case first_throw (map (read_of toISO payload) GITHUB_POOLS) of
        Some e \<Rightarrow> Inl e
      | None \<Rightarrow>
          (let ps = (\<lambda>p. reported (read_of toISO payload p));
               unreported = filter (\<lambda>p. ps p = None) GITHUB_POOLS;
               answered = length GITHUB_POOLS - length unreported in
           Inr \<lparr>b_outcome = (if answered > 0 then Asked else Unanswered), asked_at = askedAt, request_count = 1,
                pools = ps, unreported_pools = unreported,
                detail = (if answered > 0
                  then ''the token's own answer for '' @ show_nat answered @ '' of '' @ show_nat (length GITHUB_POOLS) @ '' pools''
                  else ''the answer carried no pool this repo budgets, so nothing about the token is known'')\<rparr>))"

definition fetchGithubBalance :: "(int \<Rightarrow> string option) \<Rightarrow> string + jsval \<Rightarrow> string \<Rightarrow> GithubBalance" where
  "fetchGithubBalance toISO answer now =
     (case (case answer of Inl e \<Rightarrow> Inl e | Inr payload \<Rightarrow> parseGithubBalance toISO payload now) of
        Inr b \<Rightarrow> b
      | Inl e \<Rightarrow> (unaskedGithubBalance now (Some (''the balance ask failed before the token answered: '' @ e)))
                  \<lparr>request_count := 1\<rparr>)"

section \<open>Admission\<close>

datatype GithubBalancePosture = PostureOpen | PostureReserved | PostureSpent | PostureUnknown

datatype GithubCallCriticality = Essential | Convenience

record GithubAdmission =
  a_admitted :: bool
  a_posture :: GithubBalancePosture
  a_pool :: GithubRateBudget
  a_criticality :: GithubCallCriticality
  a_remaining :: "int option"
  a_reserved_floor :: "int option"
  a_reset_at :: "string option"
  a_reason :: string

fun criticality_text :: "GithubCallCriticality \<Rightarrow> string" where
  "criticality_text Essential = ''essential''"
| "criticality_text Convenience = ''convenience''"

definition githubReservedFloor :: "GithubPoolBalance \<Rightarrow> rat \<Rightarrow> int" where
  "githubReservedFloor p rf = \<lceil>of_int (limit p) * rf\<rceil>"

definition pool_posture :: "rat \<Rightarrow> GithubPoolBalance option \<Rightarrow> GithubBalancePosture" where
  "pool_posture rf r =
     (case r of
        None \<Rightarrow> PostureUnknown
      | Some p \<Rightarrow> if remaining p \<le> 0 then PostureSpent
                 else if remaining p < githubReservedFloor p rf then PostureReserved else PostureOpen)"

definition githubBalancePosture :: "GithubBalance \<Rightarrow> GithubRateBudget \<Rightarrow> rat \<Rightarrow> GithubBalancePosture" where
  "githubBalancePosture b p rf = pool_posture rf (pools b p)"

definition reported_in :: "GithubBalance option \<Rightarrow> GithubRateBudget \<Rightarrow> GithubPoolBalance option" where
  "reported_in b p = (case b of None \<Rightarrow> None | Some x \<Rightarrow> pools x p)"

definition left_of :: "GithubPoolBalance \<Rightarrow> GithubRateBudget \<Rightarrow> string" where
  "left_of r p = show_int (remaining r) @ '' of '' @ show_int (limit r) @ '' left in the '' @ pool_text p @ '' pool''"

definition admitGithubCall ::
    "GithubBalance option \<Rightarrow> GithubRateBudget \<Rightarrow> GithubCallCriticality \<Rightarrow> rat option \<Rightarrow> GithubAdmission" where
  "admitGithubCall b p c fr =
     (let rf = (case fr of None \<Rightarrow> GITHUB_RESERVED_FRACTION | Some x \<Rightarrow> x) in
      case reported_in b p of
        None \<Rightarrow>
          \<lparr>a_admitted = True, a_posture = PostureUnknown, a_pool = p, a_criticality = c, a_remaining = None,
           a_reserved_floor = None, a_reset_at = None,
           a_reason = ''no authoritative balance names the '' @ pool_text p @
             '' pool, so this call is admitted and the reactive breaker still decides: refusing on an unread balance would turn a reporting failure into an outage''\<rparr>
      | Some r \<Rightarrow>
          (let flr = githubReservedFloor r rf; posture = pool_posture rf (Some r);
               base = (\<lambda>ok why. \<lparr>a_admitted = ok, a_posture = posture, a_pool = p, a_criticality = c,
                  a_remaining = Some (remaining r), a_reserved_floor = Some flr, a_reset_at = Some (reset_at r), a_reason = why\<rparr>) in
           if posture = PostureSpent then
             base False (''the '' @ pool_text p @ '' pool is spent, so not even '' @ criticality_text c @
               '' work can be issued until the quota resets at '' @ reset_at r)
           else if posture = PostureReserved \<and> c = Convenience then
             base False (left_of r p @ '' is inside the reserved band of '' @ show_int flr @
               '', which is held for the claim, a landing and a finishing Worker's closing comment; this read can wait, be answered from cache, or not happen at all'')
           else base True
             (if posture = PostureReserved
              then left_of r p @ '' is inside the reserved band of '' @ show_int flr @ '', and essential work is exactly what the band is held for''
              else left_of r p @ '', above the reserved band of '' @ show_int flr)))"

record GithubOperation =
  op_key :: string
  op_is_read :: bool
  op_surface :: GithubApiSurface
  op_budget :: GithubRateBudget
  op_fallback :: "GithubApiSurface option"

definition admitGithubOperation ::
    "GithubBalance option \<Rightarrow> GithubOperation \<Rightarrow> GithubCallCriticality \<Rightarrow> rat option \<Rightarrow> GithubAdmission" where
  "admitGithubOperation b oper c rf = admitGithubCall b (op_budget oper) c rf"

section \<open>Diversion\<close>

datatype GithubDiversionBand = NoBand | LowBand | HighBand | FullBand

record GithubDiversionBandDefinition =
  enter_pressure :: rat
  leave_pressure :: rat
  budget_share :: rat

fun GITHUB_DIVERSION_BANDS :: "GithubDiversionBand \<Rightarrow> GithubDiversionBandDefinition" where
  "GITHUB_DIVERSION_BANDS NoBand = \<lparr>enter_pressure = 0, leave_pressure = 0, budget_share = 0\<rparr>"
| "GITHUB_DIVERSION_BANDS LowBand = \<lparr>enter_pressure = 7 / 10, leave_pressure = 65 / 100, budget_share = 1 / 4\<rparr>"
| "GITHUB_DIVERSION_BANDS HighBand = \<lparr>enter_pressure = 9 / 10, leave_pressure = 85 / 100, budget_share = 6 / 10\<rparr>"
| "GITHUB_DIVERSION_BANDS FullBand = \<lparr>enter_pressure = 1, leave_pressure = 98 / 100, budget_share = 1\<rparr>"

definition GITHUB_PRIMARY_RATE_WINDOW_MS :: int where
  "GITHUB_PRIMARY_RATE_WINDOW_MS = 60 * 60000"

fun budgetForSurface :: "GithubApiSurface \<Rightarrow> GithubRateBudget" where
  "budgetForSurface RestSurface = Rest"
| "budgetForSurface GraphqlSurface = Graphql"

definition pressureOf :: "GithubPoolBalance \<Rightarrow> rat" where
  "pressureOf p =
     (if limit p \<le> 0 then (if remaining p \<le> 0 then 1 else 0)
      else max 0 (min 1 (of_int (pool_used p) / of_int (limit p))))"

definition projectsExhaustionBeforeReset :: "(string \<Rightarrow> int option) \<Rightarrow> GithubPoolBalance \<Rightarrow> string \<Rightarrow> bool" where
  "projectsExhaustionBeforeReset dateParse p now =
     (if remaining p \<le> 0 then True
      else if pool_used p \<le> 0 then False
      else (case (dateParse now, dateParse (reset_at p)) of
        (Some nowMs, Some resetMs) \<Rightarrow>
          if resetMs \<le> nowMs then False
          else (let untilResetMs = min GITHUB_PRIMARY_RATE_WINDOW_MS (resetMs - nowMs);
                    elapsedMs = max 1 (GITHUB_PRIMARY_RATE_WINDOW_MS - untilResetMs) in
                of_int (pool_used p) / of_int elapsedMs * of_int untilResetMs \<ge> (of_int (remaining p) :: rat))
      | _ \<Rightarrow> False))"

definition diversionBand :: "rat \<Rightarrow> GithubDiversionBand option \<Rightarrow> GithubDiversionBand" where
  "diversionBand pr prev =
     (if pr \<ge> enter_pressure (GITHUB_DIVERSION_BANDS FullBand) then FullBand
      else if prev = Some FullBand \<and> pr \<ge> leave_pressure (GITHUB_DIVERSION_BANDS FullBand) then FullBand
      else if pr \<ge> enter_pressure (GITHUB_DIVERSION_BANDS HighBand) then HighBand
      else if (prev = Some FullBand \<or> prev = Some HighBand) \<and> pr \<ge> leave_pressure (GITHUB_DIVERSION_BANDS HighBand) then HighBand
      else if pr \<ge> enter_pressure (GITHUB_DIVERSION_BANDS LowBand) then LowBand
      else if prev \<noteq> None \<and> prev \<noteq> Some NoBand \<and> pr \<ge> leave_pressure (GITHUB_DIVERSION_BANDS LowBand) then LowBand
      else NoBand)"

text \<open>FNV-1a on 32 bits: exclusive or with the unit, then the wrapping product by the prime.\<close>

definition fnv_step :: "32 word \<Rightarrow> char \<Rightarrow> 32 word" where
  "fnv_step h c = (xor h (word_of_nat (of_char c))) * 0x01000193"

definition fnv1a :: "string \<Rightarrow> 32 word" where
  "fnv1a key = foldl fnv_step 0x811c9dc5 key"

definition stableDiversionBucket :: "string \<Rightarrow> rat" where
  "stableDiversionBucket key = of_nat (unat (fnv1a key)) / of_nat (2 ^ 32)"

fun band_text :: "GithubDiversionBand \<Rightarrow> string" where
  "band_text NoBand = ''none''"
| "band_text LowBand = ''low''"
| "band_text HighBand = ''high''"
| "band_text FullBand = ''full''"

record GithubDiversionDecision =
  d_surface :: GithubApiSurface
  d_preferred :: GithubApiSurface
  d_fallback :: "GithubApiSurface option"
  diverted :: bool
  band :: GithubDiversionBand
  source_pressure :: "rat option"
  diversion_share :: rat
  projected_cost :: jsnum
  d_reason :: string

definition stay :: "GithubOperation \<Rightarrow> jsnum \<Rightarrow> string \<Rightarrow> rat option \<Rightarrow> GithubDiversionDecision" where
  "stay oper cost why pressure =
     \<lparr>d_surface = op_surface oper, d_preferred = op_surface oper, d_fallback = op_fallback oper, diverted = False,
      band = NoBand, source_pressure = pressure, diversion_share = 0, projected_cost = cost, d_reason = why\<rparr>"

definition share_of :: "GithubDiversionBand \<Rightarrow> rat \<Rightarrow> rat" where
  "share_of bd cost = (if bd = FullBand then 1 else min 1 (budget_share (GITHUB_DIVERSION_BANDS bd) / cost))"

definition bucket_key :: "GithubOperation \<Rightarrow> string \<Rightarrow> string" where
  "bucket_key oper routingKey = op_key oper @ [CHR 0x00] @ routingKey"

text \<open>The decision once both pools are known and the cost is a positive finite number.\<close>

definition divert_on ::
    "(string \<Rightarrow> int option) \<Rightarrow> (nat \<Rightarrow> rat \<Rightarrow> string) \<Rightarrow> (rat \<Rightarrow> string) \<Rightarrow> GithubOperation \<Rightarrow> GithubApiSurface \<Rightarrow>
     GithubPoolBalance \<Rightarrow> GithubPoolBalance \<Rightarrow> string \<Rightarrow> string \<Rightarrow> rat \<Rightarrow> GithubDiversionBand option \<Rightarrow> GithubDiversionDecision" where
  "divert_on dateParse toFixed showNum oper fallback source destination now routingKey cost prev =
     (let dst = pool_text (budgetForSurface fallback); src = pool_text (op_budget oper); pr = pressureOf source in
      if of_int (remaining destination) < cost then
        stay oper (Num cost) (''the '' @ dst @ '' fallback has '' @ show_int (remaining destination) @
          '' left, below this read's projected cost of '' @ showNum cost) (Some pr)
      else if pressureOf destination \<ge> pr then
        stay oper (Num cost) (''the '' @ dst @ '' fallback is not healthier than the '' @ src @ '' preferred pool'') (Some pr)
      else if \<not> (remaining source \<le> 0 \<or> pr \<ge> 1) \<and> \<not> projectsExhaustionBeforeReset dateParse source now then
        stay oper (Num cost) (''the '' @ src @ '' pool does not project exhaustion before its reset at '' @ reset_at source) (Some pr)
      else
        (let bd = diversionBand pr prev in
         if bd = NoBand then
           stay oper (Num cost) (''the '' @ src @ '' pool is below the first diversion entry band'') (Some pr)
         else
           (let share = share_of bd cost; bucket = stableDiversionBucket (bucket_key oper routingKey); dv = bucket < share in
            \<lparr>d_surface = (if dv then fallback else op_surface oper), d_preferred = op_surface oper, d_fallback = Some fallback,
             diverted = dv, band = bd, source_pressure = Some pr, diversion_share = share, projected_cost = Num cost,
             d_reason = src @ '' pressure '' @ toFixed 3 pr @ '' entered the '' @ band_text bd @ '' ramp; '' @
               showNum cost @ '' projected '' @ dst @ '' budget unit(s) price the '' @
               toFixed 2 (budget_share (GITHUB_DIVERSION_BANDS bd)) @ '' budget share as a '' @ toFixed 3 share @
               '' call share; stable bucket '' @ toFixed 3 bucket @ '' '' @
               (if dv then ''selects'' else ''does not select'') @ '' the fallback''\<rparr>)))"

definition githubDiversionDecision ::
    "(string \<Rightarrow> int option) \<Rightarrow> (nat \<Rightarrow> rat \<Rightarrow> string) \<Rightarrow> (rat \<Rightarrow> string) \<Rightarrow> GithubBalance option \<Rightarrow> GithubOperation \<Rightarrow>
     string \<Rightarrow> string \<Rightarrow> jsnum \<Rightarrow> GithubDiversionBand option \<Rightarrow> GithubDiversionDecision" where
  "githubDiversionDecision dateParse toFixed showNum b oper now routingKey cost prev =
     (case op_fallback oper of
        None \<Rightarrow> stay oper cost (op_key oper @ '' has no fallback surface, so balance cannot divert it'') None
      | Some fallback \<Rightarrow>
          if \<not> op_is_read oper \<or> op_budget oper = Search then
            stay oper cost (op_key oper @ '' is not eligible for diverted read traffic'') None
          else (case (reported_in b (op_budget oper), reported_in b (budgetForSurface fallback)) of
            (Some source, Some destination) \<Rightarrow>
              (case cost of
                 Num c \<Rightarrow>
                   if c \<le> 0 then stay oper cost ''the projected destination cost is not a positive finite budget amount'' (Some (pressureOf source))
                   else divert_on dateParse toFixed showNum oper fallback source destination now routingKey c prev
               | _ \<Rightarrow> stay oper cost ''the projected destination cost is not a positive finite budget amount'' (Some (pressureOf source)))
          | (source, _) \<Rightarrow>
              stay oper cost (''the '' @ pool_text (if source = None then op_budget oper else budgetForSurface fallback) @
                '' pool is unknown; an unread ledger is not evidence of a free fallback'') None))"

section \<open>Reports\<close>

record GithubBalanceReport =
  r_outcome :: GithubBalanceOutcome
  r_asked_at :: "string option"
  age_ms :: "int option"
  threshold_ms :: int
  stale :: bool
  r_posture :: GithubBalancePosture
  reserved_fraction :: rat
  next_poll_ms :: int
  r_pools :: "GithubPoolBalance list"
  r_unreported :: "GithubRateBudget list"
  r_reason :: string

definition GITHUB_BALANCE_STALENESS_FACTOR :: int where
  "GITHUB_BALANCE_STALENESS_FACTOR = 2"

text \<open>The loop of \<open>worstPosture\<close>: a spent pool ends it.\<close>

fun worst_loop :: "GithubBalance \<Rightarrow> rat \<Rightarrow> GithubRateBudget list \<Rightarrow> GithubBalancePosture \<Rightarrow> GithubBalancePosture" where
  "worst_loop b rf [] worst = worst"
| "worst_loop b rf (p # ps) worst =
     (if pools b p = None then worst_loop b rf ps worst
      else (let posture = githubBalancePosture b p rf in
            if posture = PostureSpent then PostureSpent
            else worst_loop b rf ps (if posture = PostureReserved \<or> worst = PostureUnknown then posture else worst)))"

definition worstPosture :: "GithubBalance \<Rightarrow> rat \<Rightarrow> GithubBalancePosture" where
  "worstPosture b rf = worst_loop b rf GITHUB_POOLS PostureUnknown"

definition describePosture :: "GithubBalancePosture \<Rightarrow> GithubPoolBalance option \<Rightarrow> GithubBalance \<Rightarrow> rat \<Rightarrow> string" where
  "describePosture posture tightest b rf =
     (case tightest of
        None \<Rightarrow> detail b
      | Some t \<Rightarrow>
          (let flr = show_int (githubReservedFloor t rf); name = pool_text (pool t);
               counts = show_int (remaining t) @ '' of '' @ show_int (limit t) in
           if posture = PostureSpent then
             ''the '' @ name @ '' pool is spent and resets at '' @ reset_at t @ '': work is not queued, it is refused''
           else if posture = PostureReserved then
             ''the '' @ name @ '' pool has '' @ counts @ '' left, inside the reserved band of '' @ flr @
               '': convenience reads are refused and the claim, a landing and a closing comment still pass''
           else ''the '' @ name @ '' pool is the tightest at '' @ counts @ '', above the reserved band of '' @ flr))"

definition reported_pools :: "GithubBalance \<Rightarrow> GithubPoolBalance list" where
  "reported_pools b = List.map_filter (pools b) GITHUB_POOLS"

definition buildGithubBalanceReport ::
    "(string \<Rightarrow> int option) \<Rightarrow> GithubBalance option \<Rightarrow> string \<Rightarrow> int option \<Rightarrow> rat option \<Rightarrow> GithubBalanceReport" where
  "buildGithubBalanceReport dateParse bal now stalenessMs fr =
     (let rf = (case fr of None \<Rightarrow> GITHUB_RESERVED_FRACTION | Some x \<Rightarrow> x) in
      case bal of
        None \<Rightarrow>
          \<lparr>r_outcome = Unanswered, r_asked_at = None, age_ms = None,
           threshold_ms = every_ms (stepFor rf) * GITHUB_BALANCE_STALENESS_FACTOR, stale = False, r_posture = PostureUnknown,
           reserved_fraction = rf, next_poll_ms = every_ms (stepFor rf), r_pools = [], r_unreported = GITHUB_POOLS,
           r_reason = ''this daemon has asked for no balance, so the token's budget is unknown rather than full''\<rparr>
      | Some b \<Rightarrow>
          (let nextPollMs = githubBalanceCadenceMs dateParse b now;
               threshold = (case stalenessMs of None \<Rightarrow> nextPollMs * GITHUB_BALANCE_STALENESS_FACTOR | Some x \<Rightarrow> x);
               age = msBetween dateParse (asked_at b) now;
               old = (b_outcome b = Asked \<and> (case age of None \<Rightarrow> True | Some a \<Rightarrow> a > threshold));
               posture = worstPosture b rf in
           \<lparr>r_outcome = b_outcome b, r_asked_at = Some (asked_at b), age_ms = age, threshold_ms = threshold, stale = old,
            r_posture = posture, reserved_fraction = rf, next_poll_ms = nextPollMs, r_pools = reported_pools b,
            r_unreported = unreported_pools b,
            r_reason = (if old
              then ''this balance is stale: asked '' @
                (case age of None \<Rightarrow> ''at an unreadable instant'' | Some a \<Rightarrow> show_int a @ ''ms ago'') @ '', past the '' @
                show_int threshold @
                ''ms window, so the posture below is the last one the token confirmed and not the current one''
              else describePosture posture (tightestGithubPool b) b rf)\<rparr>))"

definition balanceFromReport :: "GithubBalanceReport \<Rightarrow> GithubBalance" where
  "balanceFromReport r =
     \<lparr>b_outcome = r_outcome r, asked_at = (case r_asked_at r of None \<Rightarrow> [] | Some t \<Rightarrow> t),
      request_count = (if r_outcome r = Asked then 1 else 0),
      pools = foldl (\<lambda>m p. m(pool p \<mapsto> p)) (\<lambda>_. None) (r_pools r),
      unreported_pools = r_unreported r, detail = r_reason r\<rparr>"

definition isGithubBalanceReport :: "jsval \<Rightarrow> bool" where
  "isGithubBalanceReport v \<longleftrightarrow>
     is_record v \<and>
     (let g = get_prop v in
      g ''version'' = JNum (IntNum 1) \<and> g ''origin'' = JStr ''asked'' \<and>
      (g ''outcome'' = JStr ''asked'' \<or> g ''outcome'' = JStr ''unanswered'') \<and>
      (g ''asked_at'' = JNull \<or> is_str (g ''asked_at'')) \<and> (g ''age_ms'' = JNull \<or> is_num (g ''age_ms'')) \<and>
      is_num (g ''threshold_ms'') \<and> is_bool (g ''stale'') \<and> is_str (g ''posture'') \<and>
      is_num (g ''reserved_fraction'') \<and> is_num (g ''next_poll_ms'') \<and> is_arr (g ''pools'') \<and>
      is_arr (g ''unreported_pools'') \<and> is_str (g ''reason''))"

section \<open>Lemmas\<close>

text \<open>What every balance that was read satisfies.\<close>

definition pool_ok :: "GithubRateBudget \<Rightarrow> GithubPoolBalance \<Rightarrow> bool" where
  "pool_ok p r \<longleftrightarrow> pool r = p \<and> 0 < limit r \<and> fraction r = of_int (remaining r) / of_int (limit r)"

definition balance_ok :: "GithubBalance \<Rightarrow> bool" where
  "balance_ok b \<longleftrightarrow> (\<forall>p r. pools b p = Some r \<longrightarrow> pool_ok p r)"

lemma readPool_ok: "readPool toISO p resource v = Inr (Some r) \<Longrightarrow> pool_ok p r"
  by (auto simp: readPool_def pool_ok_def Let_def split: if_splits option.splits)

lemma parsed_ok: "parseGithubBalance toISO v t = Inr b \<Longrightarrow> balance_ok b"
  by (auto simp: parseGithubBalance_def Let_def balance_ok_def reported_def read_of_def dest: readPool_ok
      split: option.splits sum.splits)

lemma unasked_ok: "balance_ok (unaskedGithubBalance t d)"
  by (simp add: balance_ok_def unaskedGithubBalance_def)

lemma fetched_ok: "balance_ok (fetchGithubBalance toISO ans now)"
  using unasked_ok
  by (auto simp: fetchGithubBalance_def dest: parsed_ok split: sum.splits)
    (auto simp: balance_ok_def unaskedGithubBalance_def)

lemma reserved_iff:
  assumes "pool_ok p r"
  shows "remaining r < githubReservedFloor r rf \<longleftrightarrow> fraction r < rf"
proof -
  have "remaining r < \<lceil>of_int (limit r) * rf\<rceil> \<longleftrightarrow> of_int (remaining r) < of_int (limit r) * rf"
    by (simp add: less_ceiling_iff)
  then show ?thesis using assms by (simp add: githubReservedFloor_def pool_ok_def pos_divide_less_eq mult.commute)
qed

lemma pool_spent_iff: "pool_ok p r \<Longrightarrow> remaining r \<le> 0 \<longleftrightarrow> fraction r \<le> 0"
  by (simp add: pool_ok_def divide_le_0_iff)

lemma posture_by_fraction:
  "pool_ok p r \<Longrightarrow> pool_posture rf (Some r) =
     (if fraction r \<le> 0 then PostureSpent else if fraction r < rf then PostureReserved else PostureOpen)"
  using reserved_iff pool_spent_iff by (auto simp: pool_posture_def)

lemma tighter_None [simp]: "tighter None c = c" "tighter t None = t"
  by (auto simp: tighter_def split: option.split)

lemma tighter_Some [simp]: "tighter (Some q) (Some p) = (if fraction p < fraction q then Some p else Some q)"
  by (simp add: tighter_def)

lemma worst_is_tightest:
  assumes "balance_ok b"
  shows "worstPosture b rf = pool_posture rf (tightestGithubPool b)"
proof -
  have ok: "pools b x = Some r \<Longrightarrow> pool_ok x r" for x r using assms by (simp add: balance_ok_def)
  have "pools b x = Some r \<Longrightarrow> githubBalancePosture b x rf =
     (if fraction r \<le> 0 then PostureSpent else if fraction r < rf then PostureReserved else PostureOpen)" for x r
    using posture_by_fraction[OF ok] by (simp add: githubBalancePosture_def)
  moreover have "pools b x = Some r \<Longrightarrow> pool_posture rf (Some r) =
     (if fraction r \<le> 0 then PostureSpent else if fraction r < rf then PostureReserved else PostureOpen)" for x r
    using posture_by_fraction[OF ok] by simp
  ultimately show ?thesis
    by (cases "pools b Rest"; cases "pools b Graphql"; cases "pools b Search")
      (auto simp: worstPosture_def tightestGithubPool_def GITHUB_POOLS_def Let_def pool_posture_def[of rf None])
qed



lemma report_pools:
  assumes "balance_ok b"
  shows "foldl (\<lambda>m p. m(pool p \<mapsto> p)) (\<lambda>_. None) (reported_pools b) = pools b"
proof
  fix q
  have ok: "pools b p = Some r \<Longrightarrow> pool r = p" for p r using assms by (auto simp: balance_ok_def pool_ok_def)
  show "foldl (\<lambda>m p. m(pool p \<mapsto> p)) (\<lambda>_. None) (reported_pools b) q = pools b q"
    by (cases q; cases "pools b Rest"; cases "pools b Graphql"; cases "pools b Search")
      (auto simp: reported_pools_def GITHUB_POOLS_def map_filter_simps ok)
qed

lemma band_thresholds:
  "diversionBand pr prev =
     (if pr \<ge> 1 \<or> prev = Some FullBand \<and> pr \<ge> 98 / 100 then FullBand
      else if pr \<ge> 9 / 10 \<or> (prev = Some FullBand \<or> prev = Some HighBand) \<and> pr \<ge> 85 / 100 then HighBand
      else if pr \<ge> 7 / 10 \<or> prev \<noteq> None \<and> prev \<noteq> Some NoBand \<and> pr \<ge> 65 / 100 then LowBand
      else NoBand)"
  by (simp add: diversionBand_def)

lemma bucket_range: "0 \<le> stableDiversionBucket k" "stableDiversionBucket k < 1"
proof -
  show "0 \<le> stableDiversionBucket k"
    unfolding stableDiversionBucket_def by (intro divide_nonneg_nonneg of_nat_0_le_iff)
  have "unat (fnv1a k) < 2 ^ 32" using unsigned_less[of "fnv1a k"] by simp
  then have "(of_nat (unat (fnv1a k)) :: rat) < of_nat (2 ^ 32)" by (simp only: of_nat_less_iff)
  then show "stableDiversionBucket k < 1" by (simp add: stableDiversionBucket_def)
qed






section \<open>Properties\<close>

text \<open>
  C24. The reserve is held, and nothing else is refused: a call is admitted exactly when its pool
  is unreported, or has something left and the call is essential or the pool is not in the band;
  and the band, on a balance that was read, is the stated fraction of the limit.
\<close>

theorem admission_holds_reserve:
  assumes "balance_ok b"
  shows "a_admitted (admitGithubCall (Some b) p c (Some rf)) \<longleftrightarrow>
     (case pools b p of
        None \<Rightarrow> True
      | Some r \<Rightarrow> 0 < remaining r \<and> (c = Essential \<or> rf * of_int (limit r) \<le> of_int (remaining r)))"
proof (cases "pools b p")
  case (Some r)
  then have ok: "pool_ok p r" using assms by (simp add: balance_ok_def)
  have "fraction r < rf \<longleftrightarrow> of_int (remaining r) < rf * of_int (limit r)"
    using ok by (simp add: pool_ok_def pos_divide_less_eq)
  then show ?thesis
    using Some reserved_iff[OF ok, of rf]
    by (cases c) (auto simp: admitGithubCall_def reported_in_def pool_posture_def Let_def)
qed (simp add: admitGithubCall_def reported_in_def)

text \<open>
  C25. The tightest pool governs: on every balance a fetch can give, the posture of the report,
  which is the worst of all pools, is the posture of the pool with the least fraction left; and
  no admission decided on the report differs from the one decided on the balance.
\<close>

theorem tightest_pool_governs:
  assumes "b = fetchGithubBalance toISO ans now"
  shows "r_posture (buildGithubBalanceReport dateParse (Some b) later st (Some rf)) = pool_posture rf (tightestGithubPool b) \<and>
     admitGithubCall (Some (balanceFromReport (buildGithubBalanceReport dateParse (Some b) later st (Some rf)))) p c fr =
       admitGithubCall (Some b) p c fr"
proof -
  have ok: "balance_ok b" unfolding assms by (rule fetched_ok)
  have "pools (balanceFromReport (buildGithubBalanceReport dateParse (Some b) later st (Some rf))) = pools b"
    using report_pools[OF ok] by (simp add: balanceFromReport_def buildGithubBalanceReport_def Let_def)
  then show ?thesis
    using worst_is_tightest[OF ok]
    by (simp add: buildGithubBalanceReport_def Let_def admitGithubCall_def reported_in_def)
qed


text \<open>
  A read is diverted only when it helps: it is a read with a fallback, both ledgers are
  known, the fallback can pay the projected cost and is under less pressure than the preferred
  pool, which is spent or projected to be before its reset, and the pressure has entered a band.
\<close>

theorem diverted_only_when_it_helps:
  assumes "diverted (githubDiversionDecision dateParse toFixed showNum b oper now key cost prev)"
  shows "op_is_read oper \<and>
     (\<exists>fb source destination c. op_fallback oper = Some fb \<and>
        d_surface (githubDiversionDecision dateParse toFixed showNum b oper now key cost prev) = fb \<and>
        reported_in b (op_budget oper) = Some source \<and> reported_in b (budgetForSurface fb) = Some destination \<and>
        cost = Num c \<and> 0 < c \<and> c \<le> of_int (remaining destination) \<and> pressureOf destination < pressureOf source \<and>
        (remaining source \<le> 0 \<or> pressureOf source \<ge> 1 \<or> projectsExhaustionBeforeReset dateParse source now) \<and>
        65 / 100 \<le> pressureOf source \<and> stableDiversionBucket (bucket_key oper key) < share_of (diversionBand (pressureOf source) prev) c)"
proof -
  let ?d = "githubDiversionDecision dateParse toFixed showNum b oper now key cost prev"
  have stays: "\<not> diverted (stay oper k why pr)" for k why pr by (simp add: stay_def)
  obtain fb where fb: "op_fallback oper = Some fb" using assms stays by (cases "op_fallback oper") (auto simp: githubDiversionDecision_def)
  have rd: "op_is_read oper \<and> op_budget oper \<noteq> Search"
  proof (rule ccontr)
    assume "\<not> (op_is_read oper \<and> op_budget oper \<noteq> Search)"
    then have "\<not> op_is_read oper \<or> op_budget oper = Search" by blast
    then show False using assms stays fb by (simp add: githubDiversionDecision_def)
  qed
  obtain source destination where pools: "reported_in b (op_budget oper) = Some source" "reported_in b (budgetForSurface fb) = Some destination"
    using assms stays fb rd
    by (cases "reported_in b (op_budget oper)"; cases "reported_in b (budgetForSurface fb)") (auto simp: githubDiversionDecision_def)
  obtain c where c: "cost = Num c" "0 < c"
    using assms stays fb rd pools by (cases cost) (auto simp: githubDiversionDecision_def split: if_splits)
  have d: "?d = divert_on dateParse toFixed showNum oper fb source destination now key c prev"
    using fb rd pools c by (simp add: githubDiversionDecision_def)
  have dv: "diverted (divert_on dateParse toFixed showNum oper fb source destination now key c prev)" using assms d by simp
  note cond = dv[unfolded divert_on_def Let_def] stays
  have 1: "c \<le> of_int (remaining destination)" "pressureOf destination < pressureOf source"
      "remaining source \<le> 0 \<or> pressureOf source \<ge> 1 \<or> projectsExhaustionBeforeReset dateParse source now"
      "diversionBand (pressureOf source) prev \<noteq> NoBand"
    using cond by (auto split: if_splits)
  moreover have "stableDiversionBucket (bucket_key oper key) < share_of (diversionBand (pressureOf source) prev) c"
    using cond by (auto split: if_splits)
  moreover have "d_surface ?d = fb" unfolding d using cond 1 by (auto simp: divert_on_def Let_def split: if_splits)
  moreover have "65 / 100 \<le> pressureOf source" using 1(4) by (auto simp: band_thresholds split: if_splits)
  ultimately show ?thesis using fb rd pools c by blast
qed

text \<open>
  The ramp does not flap: a band is entered at its entry pressure whatever came before, is
  kept while the pressure stays above its lower leave pressure, and a higher pressure never
  gives a lower band.
\<close>

theorem bands_have_hysteresis:
  assumes "bd \<noteq> NoBand"
  shows "diversionBand (enter_pressure (GITHUB_DIVERSION_BANDS bd)) None = bd \<and>
   (leave_pressure (GITHUB_DIVERSION_BANDS bd) \<le> pr \<and> pr < enter_pressure (GITHUB_DIVERSION_BANDS bd) \<longrightarrow>
      diversionBand pr (Some bd) = bd) \<and>
   (pr < leave_pressure (GITHUB_DIVERSION_BANDS bd) \<longrightarrow> diversionBand pr (Some bd) \<noteq> bd) \<and>
   (pr \<le> pr' \<longrightarrow> budget_share (GITHUB_DIVERSION_BANDS (diversionBand pr prev)) \<le>
      budget_share (GITHUB_DIVERSION_BANDS (diversionBand pr' prev)))"
proof (intro conjI)
  show "pr \<le> pr' \<longrightarrow> budget_share (GITHUB_DIVERSION_BANDS (diversionBand pr prev)) \<le>
      budget_share (GITHUB_DIVERSION_BANDS (diversionBand pr' prev))"
  proof
    assume le: "pr \<le> pr'"
    have all: "prev = None \<or> prev = Some NoBand \<or> prev = Some LowBand \<or> prev = Some HighBand \<or> prev = Some FullBand"
      by (metis GithubDiversionBand.exhaust option.exhaust)
    show "budget_share (GITHUB_DIVERSION_BANDS (diversionBand pr prev)) \<le>
        budget_share (GITHUB_DIVERSION_BANDS (diversionBand pr' prev))"
      using le all unfolding band_thresholds by (elim disjE) simp_all
  qed
qed (use assms in \<open>cases bd; simp add: band_thresholds\<close>)+

section \<open>Witnesses\<close>

definition rate_answer :: jsval where
  "rate_answer = JObj [(''resources'', JObj
     [(''core'', JObj [(''limit'', JNum (IntNum 5000)), (''remaining'', JNum (IntNum 700)), (''used'', JNum (IntNum 4300)),
         (''reset'', JNum (IntNum 60))]),
      (''graphql'', JObj [(''limit'', JNum (IntNum 5000)), (''remaining'', JNum (IntNum 4000)), (''used'', JNum (IntNum 1000))])])]"

definition millis_text :: "string \<Rightarrow> int option" where
  "millis_text t = (if t \<noteq> [] \<and> list_all is_digit t then Some (int (nat_of_digits t)) else None)"

definition toy_balance :: GithubBalance where
  "toy_balance = fetchGithubBalance (\<lambda>n. Some (show_int n)) (Inr rate_answer) ''0''"

lemma toy_balance_ok: "balance_ok toy_balance"
  by (simp add: toy_balance_def fetched_ok)

theorem admission_holds_reserve_witness:
  "\<not> a_admitted (admitGithubCall (Some toy_balance) Rest Convenience (Some (15 / 100))) \<and>
   a_admitted (admitGithubCall (Some toy_balance) Rest Essential (Some (15 / 100)))"
proof -
  have "case pools toy_balance Rest of None \<Rightarrow> False | Some r \<Rightarrow> remaining r = 700 \<and> limit r = 5000" by code_simp
  then show ?thesis
    by (auto simp: admission_holds_reserve[OF toy_balance_ok] split: option.splits)
qed

theorem tightest_pool_governs_witness:
  "r_posture (buildGithubBalanceReport millis_text (Some toy_balance) ''5'' None (Some (15 / 100))) = PostureReserved"
proof -
  have "pool_posture (15 / 100) (tightestGithubPool toy_balance) = PostureReserved" by code_simp
  then show ?thesis
    using tightest_pool_governs[OF toy_balance_def, of millis_text "''5''" None "15 / 100"] by simp
qed


definition pr_list :: GithubOperation where
  "pr_list = \<lparr>op_key = ''pr list'', op_is_read = True, op_surface = RestSurface, op_budget = Rest, op_fallback = Some GraphqlSurface\<rparr>"

definition spent_rest :: GithubBalance where
  "spent_rest = toy_balance\<lparr>pools := (pools toy_balance)(Rest \<mapsto>
     \<lparr>pool = Rest, pool_resource = ''core'', limit = 5000, remaining = 0, pool_used = 5000, reset_at = ''60000'', fraction = 0\<rparr>)\<rparr>"

theorem diverted_only_when_it_helps_witness:
  "\<exists>source. reported_in (Some spent_rest) Rest = Some source \<and> 65 / 100 \<le> pressureOf source"
proof -
  have "diverted (githubDiversionDecision millis_text (\<lambda>_ _. []) (\<lambda>_. []) (Some spent_rest) pr_list ''0'' ''acme/app'' (Num 1) None)"
    by code_simp
  from diverted_only_when_it_helps[OF this] show ?thesis by (auto simp: pr_list_def)
qed

theorem bands_have_hysteresis_witness:
  "diversionBand (86 / 100) (Some HighBand) = HighBand \<and> diversionBand (84 / 100) (Some HighBand) \<noteq> HighBand"
  using bands_have_hysteresis[of HighBand "86 / 100" 0 None] bands_have_hysteresis[of HighBand "84 / 100" 0 None] by simp

end
