(* ===== verification/Singleton_Lease.thy ===== *)
theory Singleton_Lease
  imports Prelude
begin

text \<open>
  The ownership of a repository-wide singleton: \<open>packages/worker/src/engine/singleton-lease.ts\<close>.

  The lease file is one cell shared by every process. Creating it (\<open>flag: "wx"\<close>) and writing its
  text are two steps, so another process can read it empty. The codec \<open>@reddb-io/toon\<close> is not part
  of the repository: a written file decodes to the value that was encoded, and what an empty file
  decodes to (or the error it raises) is the parameter \<open>blank\<close>. \<open>isPidAlive\<close> and the clock are
  parameters too. Each system call is one step of a process, and any processes interleave.
\<close>

section \<open>Leases\<close>

record SingletonLeaseOwner =
  o_pid :: int
  startTime :: string

record SingletonLease =
  l_pid :: int
  start_time :: string
  acquired_at :: string
  renewed_at :: string

definition SINGLETON_NAME_OK :: "string \<Rightarrow> bool" where
  "SINGLETON_NAME_OK s \<longleftrightarrow>
     (let lower = (\<lambda>c. is_digit c \<or> (let n = (of_char c :: nat) in 97 \<le> n \<and> n \<le> 122)) in
      s \<noteq> [] \<and> length s \<le> 64 \<and> lower (hd s) \<and> list_all (\<lambda>c. lower c \<or> c \<in> set ''._-'') (tl s))"

definition assertSingletonName :: "string \<Rightarrow> string option" where
  "assertSingletonName s =
     (if \<not> SINGLETON_NAME_OK s \<or> s = ''.'' \<or> s = ''..'' then Some (''invalid singleton name '' @ json_quote s) else None)"

definition singletonLeasePath :: "string \<Rightarrow> string \<Rightarrow> string + string" where
  "singletonLeasePath stateRoot s =
     (case assertSingletonName s of
        Some e \<Rightarrow> Inl e
      | None \<Rightarrow> Inr (stateRoot @ ''/singletons/'' @ s @ ''/lease.toon''))"

definition text_ok :: "jsval \<Rightarrow> string \<Rightarrow> bool" where
  "text_ok v k \<longleftrightarrow> is_nonempty_str (get_prop v k)"

definition validateLease :: "jsval \<Rightarrow> string + SingletonLease" where
  "validateLease v =
     (if \<not> is_record v then Inl ''singleton lease must be a record''
      else if \<not> is_integer_val (get_prop v ''pid'') \<or> int_of_num (num_of (get_prop v ''pid'')) \<le> 0 then
        Inl ''singleton lease pid must be a positive integer''
      else (case find (\<lambda>k. \<not> text_ok v k) [''start_time'', ''acquired_at'', ''renewed_at''] of
        Some k \<Rightarrow> Inl (''singleton lease '' @ k @ '' must be a non-empty string'')
      | None \<Rightarrow> Inr \<lparr>l_pid = int_of_num (num_of (get_prop v ''pid'')), start_time = str_of (get_prop v ''start_time''),
                   acquired_at = str_of (get_prop v ''acquired_at''), renewed_at = str_of (get_prop v ''renewed_at'')\<rparr>))"

definition lease_val :: "SingletonLease \<Rightarrow> jsval" where
  "lease_val l = JObj [(''pid'', JNum (IntNum (l_pid l))), (''start_time'', JStr (start_time l)),
     (''acquired_at'', JStr (acquired_at l)), (''renewed_at'', JStr (renewed_at l))]"

definition belongsTo :: "SingletonLease \<Rightarrow> SingletonLeaseOwner \<Rightarrow> bool" where
  "belongsTo l w \<longleftrightarrow> l_pid l = o_pid w \<and> start_time l = startTime w"

definition fresh_lease :: "SingletonLeaseOwner \<Rightarrow> string \<Rightarrow> SingletonLease" where
  "fresh_lease w now = \<lparr>l_pid = o_pid w, start_time = startTime w, acquired_at = now, renewed_at = now\<rparr>"

section \<open>The file\<close>

text \<open>Absent, created by a process that has not written it yet, or holding a value.\<close>

datatype lease_file = NoFile | Opened nat | Written jsval

definition readLease :: "string + jsval \<Rightarrow> lease_file \<Rightarrow> string + SingletonLease option" where
  "readLease blank f =
     (case f of
        NoFile \<Rightarrow> Inr None
      | Opened _ \<Rightarrow> (case blank of Inl e \<Rightarrow> Inl e | Inr v \<Rightarrow> (case validateLease v of Inl e \<Rightarrow> Inl e | Inr l \<Rightarrow> Inr (Some l)))
      | Written v \<Rightarrow> (case validateLease v of Inl e \<Rightarrow> Inl e | Inr l \<Rightarrow> Inr (Some l)))"

section \<open>Processes\<close>

text \<open>
  Where a process stands: in \<open>acquire\<close>, whether it has reaped a lease so far; holding the lease;
  in \<open>renew\<close> or \<open>release\<close>; or done.
\<close>

datatype pc =
    Create bool
  | Fill bool SingletonLease
  | ReadBack bool
  | Probe bool SingletonLease
  | Remove
  | Held bool SingletonLease
  | Refused SingletonLease
  | RenewCheck
  | RenewReplace SingletonLease
  | ReleaseCheck
  | ReleaseRemove
  | Released bool
  | NotOwner
  | Threw string

definition after_read :: "SingletonLeaseOwner \<Rightarrow> bool \<Rightarrow> string + SingletonLease option \<Rightarrow> pc" where
  "after_read w reaped r =
     (case r of
        Inl e \<Rightarrow> Threw e
      | Inr None \<Rightarrow> Create reaped
      | Inr (Some l) \<Rightarrow> if belongsTo l w then Held reaped l else Probe reaped l)"

definition owner_checked :: "SingletonLeaseOwner \<Rightarrow> string + SingletonLease option \<Rightarrow> pc \<Rightarrow> (SingletonLease \<Rightarrow> pc) \<Rightarrow> pc" where
  "owner_checked w r missing own =
     (case r of
        Inl e \<Rightarrow> Threw e
      | Inr None \<Rightarrow> missing
      | Inr (Some l) \<Rightarrow> if belongsTo l w then own l else NotOwner)"

text \<open>
  One step of process \<open>i\<close>, owned by \<open>w\<close>. A write goes to the file that was opened: when that file
  was removed meanwhile, the path does not change. \<open>replace\<close> writes a temporary file and renames it
  over the path, which is one step here: no other process reads the temporary file.
\<close>

definition lease_step ::
  "SingletonLeaseOwner \<Rightarrow> nat \<Rightarrow> string + jsval \<Rightarrow> (int \<Rightarrow> bool) \<Rightarrow> string \<Rightarrow> lease_file \<Rightarrow> pc \<Rightarrow> lease_file \<times> pc" where
  "lease_step w i blank alive now f p =
     (case p of
        Create reaped \<Rightarrow> if f = NoFile then (Opened i, Fill reaped (fresh_lease w now)) else (f, ReadBack reaped)
      | Fill reaped l \<Rightarrow> (if f = Opened i then Written (lease_val l) else f, Held reaped l)
      | ReadBack reaped \<Rightarrow> (f, after_read w reaped (readLease blank f))
      | Probe reaped l \<Rightarrow> (f, if alive (l_pid l) then Refused l else Remove)
      | Remove \<Rightarrow> (NoFile, Create True)
      | RenewCheck \<Rightarrow> (f, owner_checked w (readLease blank f) NotOwner (\<lambda>l. RenewReplace (l\<lparr>renewed_at := now\<rparr>)))
      | RenewReplace l \<Rightarrow> (Written (lease_val l), Held False l)
      | ReleaseCheck \<Rightarrow> (f, owner_checked w (readLease blank f) (Released False) (\<lambda>_. ReleaseRemove))
      | ReleaseRemove \<Rightarrow> (NoFile, Released True)
      | _ \<Rightarrow> (f, p))"

record lease_world =
  lease_at :: lease_file
  pcs :: "nat \<Rightarrow> pc"

definition take_turn ::
  "(nat \<Rightarrow> SingletonLeaseOwner) \<Rightarrow> string + jsval \<Rightarrow> (int \<Rightarrow> bool) \<Rightarrow> string \<Rightarrow> nat \<Rightarrow> lease_world \<Rightarrow> lease_world" where
  "take_turn own blank alive now i s =
     (let (f, p) = lease_step (own i) i blank alive now (lease_at s) (pcs s i) in
      s\<lparr>lease_at := f, pcs := (pcs s)(i := p)\<rparr>)"

text \<open>
  A holder calls \<open>renew\<close> or \<open>release\<close> when it likes; a process that is done may call \<open>acquire\<close> again.
\<close>

definition idle :: "pc \<Rightarrow> bool" where
  "idle p \<longleftrightarrow> (case p of NotOwner \<Rightarrow> True | Released _ \<Rightarrow> True | Refused _ \<Rightarrow> True | Threw _ \<Rightarrow> True | _ \<Rightarrow> False)"

inductive world_step ::
  "(nat \<Rightarrow> SingletonLeaseOwner) \<Rightarrow> string + jsval \<Rightarrow> (int \<Rightarrow> bool) \<Rightarrow> lease_world \<Rightarrow> lease_world \<Rightarrow> bool"
  for own blank alive where
  turn: "world_step own blank alive s (take_turn own blank alive now i s)"
| renew: "pcs s i = Held r l \<Longrightarrow> world_step own blank alive s (s\<lparr>pcs := (pcs s)(i := RenewCheck)\<rparr>)"
| release: "pcs s i = Held r l \<Longrightarrow> world_step own blank alive s (s\<lparr>pcs := (pcs s)(i := ReleaseCheck)\<rparr>)"
| restart: "idle (pcs s i) \<Longrightarrow> world_step own blank alive s (s\<lparr>pcs := (pcs s)(i := Create False)\<rparr>)"

inductive_cases world_stepE: "world_step own blank alive s t"

definition lease_start :: "lease_world \<Rightarrow> bool" where
  "lease_start s \<longleftrightarrow> lease_at s = NoFile \<and> (\<forall>i. pcs s i = Create False)"

section \<open>The invariant\<close>

lemma validate_val_cases: "validateLease (lease_val l) = Inr m \<Longrightarrow> m = l"
  by (auto simp: validateLease_def lease_val_def get_prop_def num_of_def int_of_num_def str_of_def split: if_splits option.splits)

definition lease_ok :: "SingletonLease \<Rightarrow> bool" where
  "lease_ok l \<longleftrightarrow> 0 < l_pid l \<and> start_time l \<noteq> [] \<and> acquired_at l \<noteq> [] \<and> renewed_at l \<noteq> []"

lemma validate_lease_val: "lease_ok l \<Longrightarrow> validateLease (lease_val l) = Inr l"
  by (simp add: validateLease_def lease_val_def lease_ok_def text_ok_def get_prop_def is_nonempty_str_def
      is_integer_val_def isInteger_def num_of_def int_of_num_def str_of_def)

lemma lease_val_inj: "lease_val l = lease_val m \<longleftrightarrow> l = m"
  by (auto simp: lease_val_def intro!: SingletonLease.equality)

lemma belongs_inj: "inj own \<Longrightarrow> belongsTo l (own i) \<Longrightarrow> belongsTo l (own j) \<Longrightarrow> i = j"
  by (rule injD[of own]) (auto simp: belongsTo_def intro!: SingletonLeaseOwner.equality)

definition holds_lease :: "pc \<Rightarrow> bool" where
  "holds_lease p \<longleftrightarrow> (case p of Held _ _ \<Rightarrow> True | RenewCheck \<Rightarrow> True | RenewReplace _ \<Rightarrow> True | ReleaseCheck \<Rightarrow> True
     | ReleaseRemove \<Rightarrow> True | _ \<Rightarrow> False)"

text \<open>
  While every owner lives: what a process holds is in the file under its own name, what it fills
  is the file it opened, and nobody is about to remove what it does not hold.
\<close>

definition file_ok :: "(nat \<Rightarrow> SingletonLeaseOwner) \<Rightarrow> lease_file \<Rightarrow> bool" where
  "file_ok own f \<longleftrightarrow> (\<forall>v. f = Written v \<longrightarrow> (\<exists>l i. v = lease_val l \<and> belongsTo l (own i)))"

definition pc_ok :: "(nat \<Rightarrow> SingletonLeaseOwner) \<Rightarrow> (int \<Rightarrow> bool) \<Rightarrow> lease_file \<Rightarrow> nat \<Rightarrow> pc \<Rightarrow> bool" where
  "pc_ok own alive f i p \<longleftrightarrow>
     (holds_lease p \<longrightarrow> (\<exists>l. f = Written (lease_val l) \<and> belongsTo l (own i))) \<and>
     (case p of Fill r l \<Rightarrow> f = Opened i \<and> belongsTo l (own i) | Probe r l \<Rightarrow> alive (l_pid l) | Remove \<Rightarrow> False
      | RenewReplace l \<Rightarrow> belongsTo l (own i) | _ \<Rightarrow> True)"

definition lease_inv :: "(nat \<Rightarrow> SingletonLeaseOwner) \<Rightarrow> (int \<Rightarrow> bool) \<Rightarrow> lease_world \<Rightarrow> bool" where
  "lease_inv own alive s \<longleftrightarrow> file_ok own (lease_at s) \<and> (\<forall>i. pc_ok own alive (lease_at s) i (pcs s i))"

definition reads_no_lease :: "string + jsval \<Rightarrow> bool" where
  "reads_no_lease blank \<longleftrightarrow> (case blank of Inl _ \<Rightarrow> True | Inr v \<Rightarrow> (case validateLease v of Inl _ \<Rightarrow> True | Inr _ \<Rightarrow> False))"

lemma read_some:
  assumes "file_ok own f" and "reads_no_lease blank" and "readLease blank f = Inr (Some l)"
  shows "f = Written (lease_val l) \<and> (\<exists>j. belongsTo l (own j))"
  using assms
  by (auto simp: file_ok_def readLease_def reads_no_lease_def dest!: validate_val_cases split: lease_file.splits sum.splits)

lemma own_step:
  assumes "file_ok own f" and "pc_ok own alive f i p" and e: "reads_no_lease blank" and live: "\<And>i. alive (o_pid (own i))"
    and "lease_step (own i) i blank alive now f p = (f', p')"
  shows "file_ok own f' \<and> pc_ok own alive f' i p'"
proof (cases p)
  case (ReadBack r)
  then show ?thesis
    using assms read_some[OF assms(1) e]
    by (fastforce simp: lease_step_def after_read_def pc_ok_def holds_lease_def belongsTo_def split: sum.splits option.splits if_splits)
next
  case RenewCheck
  then show ?thesis
    using assms read_some[OF assms(1) e]
    by (fastforce simp: lease_step_def owner_checked_def pc_ok_def holds_lease_def belongsTo_def split: sum.splits option.splits if_splits)
next
  case ReleaseCheck
  then show ?thesis
    using assms read_some[OF assms(1) e]
    by (fastforce simp: lease_step_def owner_checked_def pc_ok_def holds_lease_def belongsTo_def split: sum.splits option.splits if_splits)
qed (use assms in \<open>auto simp: lease_step_def pc_ok_def file_ok_def holds_lease_def fresh_lease_def belongsTo_def split: if_splits\<close>)

lemma file_change:
  assumes "pc_ok own alive f i p" and "lease_step (own i) i blank alive now f p = (f', p')"
  shows "f' = f \<or> f = NoFile \<or> f = Opened i \<or> holds_lease p"
  using assms by (auto simp: lease_step_def pc_ok_def holds_lease_def split: pc.splits if_splits)

lemma other_step:
  assumes "pc_ok own alive f i p" and q: "pc_ok own alive f j q" and "j \<noteq> i" and inj: "inj own"
    and "f' = f \<or> f = NoFile \<or> f = Opened i \<or> holds_lease p"
  shows "pc_ok own alive f' j q"
proof (cases "f' = f")
  case False
  have "\<not> holds_lease q" using assms False belongs_inj[OF inj] by (auto simp: pc_ok_def lease_val_inj)
  then show ?thesis using assms False by (auto simp: pc_ok_def split: pc.splits)
qed (simp add: q)

lemma turn_inv:
  assumes inv: "lease_inv own alive s" and e: "reads_no_lease blank" and inj: "inj own" and live: "\<And>i. alive (o_pid (own i))"
  shows "lease_inv own alive (take_turn own blank alive now i s)"
proof -
  obtain f p where st: "lease_step (own i) i blank alive now (lease_at s) (pcs s i) = (f, p)" by fastforce
  note i = inv[unfolded lease_inv_def, THEN conjunct2, rule_format, of i]
  have "file_ok own f \<and> pc_ok own alive f i p"
    using inv own_step[OF _ i e live st] by (simp add: lease_inv_def)
  moreover have "pc_ok own alive f j (pcs s j)" if "j \<noteq> i" for j
    using inv other_step[OF i _ that inj file_change[OF i st]] by (simp add: lease_inv_def)
  ultimately show ?thesis by (auto simp: take_turn_def st lease_inv_def)
qed

lemma world_step_inv:
  assumes "world_step own blank alive s t" and inv: "lease_inv own alive s" and "reads_no_lease blank" and "inj own"
    and "\<And>i. alive (o_pid (own i))"
  shows "lease_inv own alive t"
  using assms(1)
proof cases
  case (turn now i)
  then show ?thesis using turn_inv assms by simp
qed (use inv in \<open>auto simp: lease_inv_def pc_ok_def holds_lease_def idle_def dest: spec\<close>)

lemma start_inv: "lease_start s \<Longrightarrow> lease_inv own alive s"
  by (simp add: lease_start_def lease_inv_def file_ok_def pc_ok_def holds_lease_def)

interpretation singleton: stepwise_invariant lease_start
  "\<lambda>s t. reads_no_lease blank \<and> inj own \<and> (\<forall>i. alive (o_pid (own i))) \<and> world_step own blank alive s t" "lease_inv own alive"
  by unfold_locales (simp add: start_inv, metis world_step_inv)

section \<open>Properties\<close>

text \<open>A schedule: who moves and when.\<close>

definition run_turns ::
  "(nat \<Rightarrow> SingletonLeaseOwner) \<Rightarrow> string + jsval \<Rightarrow> (int \<Rightarrow> bool) \<Rightarrow> (nat \<times> string) list \<Rightarrow> lease_world \<Rightarrow> lease_world" where
  "run_turns own blank alive sched s = fold (\<lambda>(i, now). take_turn own blank alive now i) sched s"

text \<open>
  C7. While every owner lives, owners are told apart by pid and start time, and an empty file reads
  as no lease, no interleaving of \<open>acquire\<close>, \<open>renew\<close> and \<open>release\<close> lets two processes hold the
  singleton, and the lease of a holder is in the file under its own name.
\<close>

theorem one_live_holder:
  assumes "inj own" and "\<And>i. alive (o_pid (own i))" and "reads_no_lease blank"
    and "lease_start s" and "(world_step own blank alive)\<^sup>*\<^sup>* s t"
  shows "(\<forall>i j. holds_lease (pcs t i) \<longrightarrow> holds_lease (pcs t j) \<longrightarrow> i = j) \<and>
     (\<forall>i. holds_lease (pcs t i) \<longrightarrow> (\<exists>l. lease_at t = Written (lease_val l) \<and> belongsTo l (own i)))"
proof -
  have "(\<lambda>s t. reads_no_lease blank \<and> inj own \<and> (\<forall>i. alive (o_pid (own i))) \<and> world_step own blank alive s t)\<^sup>*\<^sup>* s t"
    using assms(1,2,3,5) by simp
  then have "lease_inv own alive t" using assms(4) by (rule singleton.reachable_inv[rotated])
  then show ?thesis using belongs_inj[OF assms(1)] by (auto simp: lease_inv_def pc_ok_def lease_val_inj) (metis lease_file.inject(2) lease_val_inj)
qed

definition two_owners :: "nat \<Rightarrow> SingletonLeaseOwner" where
  "two_owners i = \<lparr>o_pid = 100 + int i, startTime = ''boot''\<rparr>"

definition no_text :: "string + jsval" where "no_text = Inr (JObj [])"

lemma one_live_holder_witness:
  "\<exists>t. (world_step two_owners no_text (\<lambda>_. True))\<^sup>*\<^sup>* \<lparr>lease_at = NoFile, pcs = \<lambda>_. Create False\<rparr> t \<and>
     holds_lease (pcs t 0) \<and> \<not> holds_lease (pcs t 1) \<and>
     (\<exists>l. lease_at t = Written (lease_val l) \<and> belongsTo l (two_owners 0))"
proof -
  let ?s = "\<lparr>lease_at = NoFile, pcs = \<lambda>_. Create False\<rparr>"
  let ?turn = "take_turn two_owners no_text (\<lambda>_. True) ''t''"
  let ?t = "?turn 0 (?turn 0 ?s)"
  have run: "(world_step two_owners no_text (\<lambda>_. True))\<^sup>*\<^sup>* ?s ?t"
    by (rule rtranclp_trans[OF r_into_rtranclp r_into_rtranclp]) (rule world_step.turn)+
  have h: "holds_lease (pcs ?t 0)"
    by (simp add: take_turn_def lease_step_def holds_lease_def)
  have b: "reads_no_lease no_text" by code_simp
  have "inj two_owners" by (rule injI) (simp add: two_owners_def)
  from one_live_holder[OF this _ b _ run] h show ?thesis
    by (metis (no_types, lifting) lease_start_def lease_world.select_convs run zero_neq_one)
qed

text \<open>
  C38. Two processes that both read the lease of a dead owner can both acquire: for any two
  processes about to acquire, any written lease that is neither's and whose owner is dead, and any
  instants, one order of their calls ends with both holding the singleton and only the second's
  lease in the file, whatever an empty file decodes to and whatever the others hold. Both read and
  probe; then the second's \<open>rm\<close> removes the lease the first has just created.
\<close>

theorem reaping_lets_two_hold:
  assumes "i \<noteq> j" and "pcs s i = Create False" and "pcs s j = Create False"
    and "lease_at s = Written (lease_val l)" and "lease_ok l" and "\<not> alive (l_pid l)"
    and "\<not> belongsTo l (own i)" and "\<not> belongsTo l (own j)" and "length ts = 12"
  shows "let t = run_turns own blank alive (zip [i, i, i, j, j, j, i, i, i, j, j, j] ts) s in
         holds_lease (pcs t i) \<and> holds_lease (pcs t j) \<and> lease_at t = Written (lease_val (fresh_lease (own j) (ts ! 10)))"
proof -
  obtain t0 t1 t2 t3 t4 t5 t6 t7 t8 t9 t10 t11 where ts: "ts = [t0, t1, t2, t3, t4, t5, t6, t7, t8, t9, t10, t11]"
    using assms(9) by (auto simp: numeral_eq_Suc length_Suc_conv)
  have read: "readLease blank (Written (lease_val l)) = Inr (Some l)"
    using assms(5) by (simp add: readLease_def validate_lease_val)
  show ?thesis
    using assms(1-4,6-8)
    by (simp add: ts run_turns_def take_turn_def lease_step_def read after_read_def holds_lease_def Let_def)
qed

definition stale_world :: lease_world where
  "stale_world =
     \<lparr>lease_at = Written (lease_val \<lparr>l_pid = 7, start_time = ''boot'', acquired_at = ''t0'', renewed_at = ''t0''\<rparr>),
      pcs = \<lambda>_. Create False\<rparr>"

theorem reaping_lets_two_hold_witness:
  "holds_lease (pcs (run_turns two_owners no_text (\<lambda>pid. pid \<noteq> 7)
     (zip [0, 0, 0, 1, 1, 1, 0, 0, 0, 1, 1, 1] (replicate 12 ''t'')) stale_world) 1)"
  using reaping_lets_two_hold[of 0 1 stale_world "\<lparr>l_pid = 7, start_time = ''boot'', acquired_at = ''t0'', renewed_at = ''t0''\<rparr>"
      "\<lambda>pid. pid \<noteq> 7" two_owners "replicate 12 ''t''" no_text]
  by (simp add: stale_world_def lease_ok_def belongsTo_def two_owners_def Let_def)

text \<open>
  A process that runs \<open>acquire\<close> alone on a written lease ends by the recorded owner: its own lease
  is held again, a living owner's lease refuses and stays, a dead owner's lease is replaced by its own;
  one that runs \<open>release\<close> removes its own lease and fails on another's.
\<close>

theorem lease_decided_by_owner:
  assumes "lease_ok l"
  shows "(let run = (\<lambda>n. (\<lambda>(f, p). lease_step w i blank alive now f p) ^^ n) in
      run 4 (Written (lease_val l), Create False) =
        (if belongsTo l w then (Written (lease_val l), Held False l)
         else if alive (l_pid l) then (Written (lease_val l), Refused l)
         else (NoFile, Create True)) \<and>
      run 6 (Written (lease_val l), Create False) =
        (if belongsTo l w then (Written (lease_val l), Held False l)
         else if alive (l_pid l) then (Written (lease_val l), Refused l)
         else (Written (lease_val (fresh_lease w now)), Held True (fresh_lease w now))) \<and>
      run 2 (Written (lease_val l), ReleaseCheck) =
        (if belongsTo l w then (NoFile, Released True) else (Written (lease_val l), NotOwner)))"
  by (simp add: numeral_eq_Suc lease_step_def readLease_def validate_lease_val[OF assms] after_read_def owner_checked_def)

theorem lease_decided_by_owner_witness:
  "let l = \<lparr>l_pid = 7, start_time = ''boot'', acquired_at = ''t0'', renewed_at = ''t0''\<rparr> in
   ((\<lambda>(f, p). lease_step (two_owners 0) 0 no_text (\<lambda>_. False) ''t1'' f p) ^^ 6) (Written (lease_val l), Create False) =
     (Written (lease_val (fresh_lease (two_owners 0) ''t1'')), Held True (fresh_lease (two_owners 0) ''t1''))"
  using lease_decided_by_owner[of "\<lparr>l_pid = 7, start_time = ''boot'', acquired_at = ''t0'', renewed_at = ''t0''\<rparr>"
      "two_owners 0" 0 no_text "\<lambda>_. False" "''t1''"]
  by (simp add: Let_def lease_ok_def belongsTo_def two_owners_def)

end
