(* ===== verification/Spec2Isabelle.thy ===== *)
theory Spec2Isabelle
  imports Admission Demand_Park Issue_Curator Claim_Staleness Local_Lease Resource_Lease Demand_Loop Merge_Driver Land_Lock
    Validation_Cone Landing Worker_Drain Balance Singleton_Lease
begin

text \<open>
  The host daemon \<open>redskilled\<close> starts Workers on one machine for the projects registered with it; a
  Worker selects issues of a tracker, claims them, lets an agent change the code, validates the
  change and lands it. Nothing central orders the Workers: comments and labels of the tracker,
  files of the machine and the token of the forge are the shared state, and the code under
  \<open>apps/redskilled/src\<close>, \<open>packages/worker/src/engine\<close> and \<open>packages/github\<close> keeps them coherent.
  This development models that decision core and proves what makes it correct.

  The life of an issue, and the theories that model it (functions keep the names of the source):

  \<^item> \<open>Demand_Loop\<close> (\<open>demand-loop.ts\<close>, \<open>harvest-deadline.ts\<close>, \<open>daemon/birth-outcome.ts\<close>): how many
    Workers a tick asks for, project by project in rounds, under the harvest window and the birth
    breaker. \<open>planHostDemand\<close> deals the births, \<open>foldWorkerDeath\<close> folds a death into the breaker.
  \<^item> \<open>Budget\<close> and \<open>Admission\<close> (\<open>budget-accounting.ts\<close>, \<open>admission.ts\<close>): what a Worker's declared
    memory charges, and whether the host admits a Worker, a batch or an interactive session. The
    locale \<open>capacity_ledger\<close> states the law of a ledger of charges under a limit and is interpreted on the
    memory of the Workers, on their number and on batches.
  \<^item> \<open>Resource_Lease\<close> (\<open>resource-lease.ts\<close>): host-scoped resources, with the turns of acquire, renew
    and release interleaved on one held list.
  \<^item> \<open>Balance\<close> (\<open>packages/github/balance.ts\<close>): the pools of the token, the posture they give, the
    admission of a call against the reserve, the poll cadence, diversion with hysteresis, and the
    report a client validates.
  \<^item> \<open>Work_Selection\<close> (\<open>work-selector.ts\<close>, \<open>lane-run-mode.ts\<close>, the selection of
    \<open>worker-drain.ts\<close>): which issues a Worker sees and in which order.
  \<^item> \<open>Claim_Marker\<close>, \<open>Claim\<close>, \<open>Local_Lease\<close>, \<open>Claim_Staleness\<close> (\<open>tracker/claim.ts\<close>,
    \<open>tracker/claim-verification.ts\<close>, \<open>tracker/claim-staleness.ts\<close>): the comment a claim is written
    as, the fold that elects a winner from a thread, the read-back, the lease directory of one
    host as a step function of interleaved processes, their composition, and the sweep that
    takes a dead Worker's issue back.
  \<^item> \<open>Worker_Drain\<close> (\<open>runCastleWorkerDrain\<close>): the loop over the queue, with the guards, the claim,
    the attempt, the refusal budget and the outcome of each issue.
  \<^item> \<open>Validation_Cone\<close>, \<open>Host_Capability\<close>, \<open>Gate\<close> (\<open>validation-cone.ts\<close>,
    \<open>host-capability-profile.ts\<close>, \<open>gate-executor.ts\<close>, \<open>gate-sink.ts\<close>, \<open>gate-stage-order.ts\<close>): what
    a change must validate, what the host may run, and the verdict of the gate.
  \<^item> \<open>Landing\<close> (\<open>landing.ts\<close>), \<open>Land_Lock\<close> (\<open>land-lock.ts\<close>), \<open>Merge_Driver\<close> (\<open>merge-driver.ts\<close>):
    the landing of one change, the lock file that serializes landings, and the durable armed set
    that lands pull requests whose checks are still running. \<open>lock_step\<close> is one file-system call of
    one contender, the creation of the file and the write of its record apart, as in the port
    \<open>apps/plugin-dev/src/runtime/land-lock.ts\<close>; \<open>store_step\<close> is a read or a write of the armed set's
    store by an arm, a release or a pass.
  \<^item> \<open>State_Transition\<close>, \<open>Dependencies\<close>, \<open>Issue_Curator\<close>, \<open>Demand_Park\<close> (\<open>state-transition.ts\<close>,
    \<open>tracker/dependencies.ts\<close>, \<open>issue-state-curator.ts\<close>, \<open>demand-park.ts\<close>): the labels an issue
    carries. Every writer goes through \<open>planTransition\<close>; the locale \<open>label_planner\<close> states what a client may
    rely on and is interpreted on it. A plan is made on a listing and edited later: \<open>board_step\<close> keeps the
    plans that are pending beside the board.
  \<^item> \<open>Singleton_Lease\<close> (\<open>singleton-lease.ts\<close>): the one process per repository that runs a service.
  \<^item> \<open>Engine_Config\<close> (\<open>config.ts\<close>): the configuration and the label vocabulary the others read.
  \<^item> \<open>Prelude\<close> holds the JavaScript values and text operations, and \<open>Effects\<close> the calls of an
    environment: a computation threads a world and the log of its calls, a call may throw, and
    the log records the calls made before it did.

  Representation. A TypeScript interface is a record, a tagged union a datatype, a thrown error
  the left of a sum, \<open>undefined\<close> and \<open>null\<close> are \<open>None\<close> (kept apart where the code tells them apart),
  an untrusted value is the datatype \<open>jsval\<close> of \<open>Prelude\<close>. Numbers the code only counts with are
  \<open>nat\<close> or \<open>int\<close>; where a value may be infinite, not a number or not integral, the code's tests on it are
  kept (\<open>num\<close> of \<open>Prelude\<close>). Files and directories are a cell with its possible contents, and each
  system call is one step, so that the interleavings of several processes are the sequences of
  steps. Clocks, identifiers, \<open>Date.parse\<close>, the liveness of a process, the codec
  \<open>@reddb-io/toon\<close>, the tracker, the forge, git, the shell and the agent are parameters.

  What the lemmas show. Safety of the shared state under interleaving (\<open>no_double_win\<close>,
  \<open>live_holder_excludes\<close>, \<open>one_lease_per_resource\<close>, \<open>one_live_holder\<close>), each under the provisos its text
  names, invariants kept by every sequence of operations (\<open>host_never_over_committed\<close>) or by those without
  a foreign write in between (\<open>board_stays_coherent\<close>), exact characterisations of
  the decisions with their refusals (\<open>admission_exact\<close>, \<open>refused_exactly\<close>, \<open>gate_verdict_exact\<close>), equality
  with a short specification (\<open>reconcile_earliest_live\<close>, \<open>births_dealt_in_rounds\<close>, \<open>validated_scopes_exact\<close>,
  \<open>selection_is_ranked_scope\<close>), what must have happened before an irreversible call
  (\<open>merge_only_when_judged\<close>, \<open>closed_issue_was_validated\<close>, \<open>only_admitted_issues_processed\<close>), round trips of
  the wire formats and stored states, and termination of the waiting loops. Where a proviso of a
  safety theorem is needed, a theorem beside it shows what happens without it:
  \<open>reclaim_steals\<close>, \<open>half_written_lock_lets_two_hold\<close>, \<open>release_lets_two_hold\<close>, \<open>reaping_lets_two_hold\<close>,
  \<open>overlapping_edits_leave_two_roles\<close>, \<open>arm_during_pass_is_lost\<close>. These show behaviour the code should not
  have, as do \<open>merged_issue_left_open\<close> and \<open>runner_forges_claim\<close>.

  Bounds. Loops of the source that end are recursions with a measure (\<open>cone_loop\<close>, \<open>nearest_up\<close>) or
  structural (\<open>drain_loop\<close>). The parser's \<open>indexed_from\<close> has fuel one more than the number of values,
  each step consumes one. The acquire loop of the land lock has one round more than the waits that
  fit the timeout plus one, of at most five calls each, which \<open>acquire_returns\<close> shows to be enough. A lone process of
  \<open>Local_Lease\<close> is followed for eight calls, the longest path of the code. The read-back makes at most the
  attempts it is given. The loop of \<open>singleton-lease.ts\<close> has no bound in the source; it is a step
  function, and its properties are of every sequence of steps.

  Not modelled: the transport and the processes around this core (sockets, child processes,
  sandboxes, worktrees, containers, web and terminal interfaces), which are I/O; the memory and brain
  plugins, which are clients of a database outside the repository; the development plugin, the
  shell-driven predecessor of the worker engine; the persistence and supervision of the daemon,
  its project registration and its GitHub outbox, which are left to later work. The manifest
  lists each with its reason.
\<close>

end
